(* ===== verification/Alloy_Prelude.thy ===== *)
theory Alloy_Prelude
  imports Main "HOL-Library.AList" "HOL-Library.Char_ord" "HOL-Library.List_Lexorder"
    "HOL-Library.Word"
begin

text \<open>
  Shared vocabulary of the development.

  A Rust \<^verbatim>\<open>String\<close> is a \<^typ>\<open>string\<close>: the list of its UTF-8 bytes, ordered
  bytewise as \<^verbatim>\<open>str\<close> is.  Unsigned machine integers are words of their width.  A
  \<^verbatim>\<open>HashMap\<close> is an association list with distinct keys, so that the code that drains,
  retains or iterates over one stays executable; its iteration order is not relied upon.
  A \<^verbatim>\<open>Result<T, E>\<close> is \<^typ>\<open>'e + 'a\<close> with the error on the left.

  The second half holds the \<^verbatim>\<open>str\<close> routines of the Rust standard library the sources
  call (\<^verbatim>\<open>split\<close>, \<^verbatim>\<open>rsplit_once\<close>, \<^verbatim>\<open>strip_prefix\<close>, the trims) and the laws the
  component proofs use.
\<close>

named_theorems hmap_simps \<open>lookup laws of hash maps\<close>
named_theorems path_simps \<open>laws of separators and path components\<close>

section \<open>Types\<close>

type_synonym u8 = "8 word"
type_synonym u16 = "16 word"
type_synonym u32 = "32 word"
type_synonym u64 = "64 word"
type_synonym bytes = "u8 list"
type_synonym ('k, 'v) hmap = "('k \<times> 'v) list"
type_synonym SystemTime = int \<comment> \<open>nanoseconds relative to the Unix epoch\<close>

section \<open>Results\<close>

fun and_then :: "'e + 'a \<Rightarrow> ('a \<Rightarrow> 'e + 'b) \<Rightarrow> 'e + 'b" where
  "and_then (Inl e) f = Inl e"
| "and_then (Inr a) f = f a"

fun is_ok :: "'e + 'a \<Rightarrow> bool" where
  "is_ok (Inl e) = False"
| "is_ok (Inr a) = True"

fun map_err :: "('e \<Rightarrow> 'f) \<Rightarrow> 'e + 'a \<Rightarrow> 'f + 'a" where
  "map_err f (Inl e) = Inl (f e)"
| "map_err f (Inr a) = Inr a"

fun ok_or :: "'e \<Rightarrow> 'a option \<Rightarrow> 'e + 'a" where
  "ok_or e None = Inl e"
| "ok_or e (Some a) = Inr a"

section \<open>Operations that may fail\<close>

text \<open>An operation over a state: an error or a value, with the new state.\<close>

type_synonym ('st, 'e, 'a) op = "'st \<Rightarrow> ('e + 'a) \<times> 'st"

definition bindE :: "('st, 'e, 'a) op \<Rightarrow> ('a \<Rightarrow> ('st, 'e, 'b) op) \<Rightarrow> ('st, 'e, 'b) op" where
  "bindE m k st = (case m st of (Inl e, st') \<Rightarrow> (Inl e, st') | (Inr x, st') \<Rightarrow> k x st')"

definition retE :: "'a \<Rightarrow> ('st, 'e, 'a) op" where
  "retE x st = (Inr x, st)"

definition getE :: "('st \<Rightarrow> 'a) \<Rightarrow> ('st, 'e, 'a) op" where
  "getE f st = (Inr (f st), st)"

definition modE :: "('st \<Rightarrow> 'st) \<Rightarrow> ('st, 'e, unit) op" where
  "modE f st = (Inr (), f st)"

definition ofE :: "'e + 'a \<Rightarrow> ('st, 'e, 'a) op" where
  "ofE r st = (r, st)"

text \<open>The result of an operation as a value, for a caller that goes on either way.\<close>

definition tryE :: "('st, 'e, 'a) op \<Rightarrow> ('st, 'e, 'e + 'a) op" where
  "tryE m st = (case m st of (r, st') \<Rightarrow> (Inr r, st'))"

lemma bindE_run:
  "bindE (retE x) k st = k x st"
  "bindE (getE f) k st = k (f st) st" "bindE (modE g) ku st = ku () (g st)"
  "bindE (ofE (Inr y)) k st = k y st" "bindE (ofE (Inl err)) k st = (Inl err, st)"
  "bindE (tryE m) k' st = k' (fst (m st)) (snd (m st))"
  by (simp_all add: bindE_def retE_def getE_def modE_def ofE_def tryE_def case_prod_beta)

lemma bindE_Inr: "bindE m k st = (Inr x, st') \<longleftrightarrow> (\<exists>y st1. m st = (Inr y, st1) \<and> k y st1 = (Inr x, st'))"
  by (auto simp: bindE_def split: prod.splits sum.splits)

section \<open>Hash maps\<close>

abbreviation hm_get :: "('k, 'v) hmap \<Rightarrow> 'k \<Rightarrow> 'v option" where
  "hm_get m k \<equiv> map_of m k"

abbreviation hm_put :: "'k \<Rightarrow> 'v \<Rightarrow> ('k, 'v) hmap \<Rightarrow> ('k, 'v) hmap" where
  "hm_put k v m \<equiv> AList.update k v m"

abbreviation hm_del :: "'k \<Rightarrow> ('k, 'v) hmap \<Rightarrow> ('k, 'v) hmap" where
  "hm_del k m \<equiv> AList.delete k m"

abbreviation hm_keys :: "('k, 'v) hmap \<Rightarrow> 'k list" where
  "hm_keys m \<equiv> map fst m"

definition hm_has :: "('k, 'v) hmap \<Rightarrow> 'k \<Rightarrow> bool" where
  "hm_has m k = (hm_get m k \<noteq> None)"

definition hm_ok :: "('k, 'v) hmap \<Rightarrow> bool" where
  "hm_ok m = distinct (hm_keys m)"

definition hm_retain :: "('k \<Rightarrow> 'v \<Rightarrow> bool) \<Rightarrow> ('k, 'v) hmap \<Rightarrow> ('k, 'v) hmap" where
  "hm_retain P m = filter (\<lambda>(k, v). P k v) m"

definition hm_sorted :: "('k::linorder, 'v) hmap \<Rightarrow> ('k \<times> 'v) list" where
  "hm_sorted m = sort_key fst m"

section \<open>Strings\<close>

fun split_on :: "'a \<Rightarrow> 'a list \<Rightarrow> 'a list list" where
  "split_on c [] = [[]]"
| "split_on c (x # xs) =
    (if x = c then [] # split_on c xs
     else case split_on c xs of [] \<Rightarrow> [[x]] | p # ps \<Rightarrow> (x # p) # ps)"

fun join_on :: "'a \<Rightarrow> 'a list list \<Rightarrow> 'a list" where
  "join_on c [] = []"
| "join_on c [p] = p"
| "join_on c (p # q # ps) = p @ c # join_on c (q # ps)"

fun split_once :: "'a \<Rightarrow> 'a list \<Rightarrow> ('a list \<times> 'a list) option" where
  "split_once c [] = None"
| "split_once c (x # xs) =
    (if x = c then Some ([], xs)
     else map_option (\<lambda>(a, b). (x # a, b)) (split_once c xs))"

fun rsplit_once :: "'a \<Rightarrow> 'a list \<Rightarrow> ('a list \<times> 'a list) option" where
  "rsplit_once c [] = None"
| "rsplit_once c (x # xs) =
    (case rsplit_once c xs of
       Some (a, b) \<Rightarrow> Some (x # a, b)
     | None \<Rightarrow> if x = c then Some ([], xs) else None)"

fun strip_prefix :: "'a list \<Rightarrow> 'a list \<Rightarrow> 'a list option" where
  "strip_prefix [] ys = Some ys"
| "strip_prefix (x # xs) [] = None"
| "strip_prefix (x # xs) (y # ys) = (if x = y then strip_prefix xs ys else None)"

definition trim_start :: "('a \<Rightarrow> bool) \<Rightarrow> 'a list \<Rightarrow> 'a list" where
  "trim_start P s = dropWhile P s"

definition trim_end :: "('a \<Rightarrow> bool) \<Rightarrow> 'a list \<Rightarrow> 'a list" where
  "trim_end P s = rev (dropWhile P (rev s))"

definition ascii_space :: "char \<Rightarrow> bool" where
  "ascii_space c = (c \<in> {CHR '' '', CHR 0x09, CHR 0x0A, CHR 0x0B, CHR 0x0C, CHR 0x0D})"

definition is_ascii_digit :: "char \<Rightarrow> bool" where
  "is_ascii_digit c = (CHR ''0'' \<le> c \<and> c \<le> CHR ''9'')"

definition digit_value :: "char \<Rightarrow> nat" where
  "digit_value c = of_char c - 48"

text \<open>\<^verbatim>\<open>str::from_utf8\<close> and \<^verbatim>\<open>OsStr::to_str\<close> accept the well-formed UTF-8 sequences.\<close>

definition utf8_cont :: "nat \<Rightarrow> bool" where
  "utf8_cont c = (0x80 \<le> c \<and> c \<le> 0xBF)"

fun utf8_seq :: "nat list \<Rightarrow> bool" where
  "utf8_seq [] = True"
| "utf8_seq (b # bs) =
    (if b < 0x80 then utf8_seq bs
     else if 0xC2 \<le> b \<and> b \<le> 0xDF then
       (case bs of c # r \<Rightarrow> utf8_cont c \<and> utf8_seq r | _ \<Rightarrow> False)
     else if 0xE0 \<le> b \<and> b \<le> 0xEF then
       (case bs of c # d # r \<Rightarrow> utf8_cont c \<and> utf8_cont d \<and> (b = 0xE0 \<longrightarrow> 0xA0 \<le> c)
            \<and> (b = 0xED \<longrightarrow> c \<le> 0x9F) \<and> utf8_seq r
        | _ \<Rightarrow> False)
     else if 0xF0 \<le> b \<and> b \<le> 0xF4 then
       (case bs of c # d # e # r \<Rightarrow> utf8_cont c \<and> utf8_cont d \<and> utf8_cont e
            \<and> (b = 0xF0 \<longrightarrow> 0x90 \<le> c) \<and> (b = 0xF4 \<longrightarrow> c \<le> 0x8F) \<and> utf8_seq r
        | _ \<Rightarrow> False)
     else False)"

definition utf8_valid :: "string \<Rightarrow> bool" where
  "utf8_valid s = utf8_seq (map of_char s)"

section \<open>Little-endian integers\<close>

fun le_bytes :: "nat \<Rightarrow> nat \<Rightarrow> bytes" where
  "le_bytes 0 n = []"
| "le_bytes (Suc k) n = of_nat (n mod 256) # le_bytes k (n div 256)"

fun le_nat :: "bytes \<Rightarrow> nat" where
  "le_nat [] = 0"
| "le_nat (b # bs) = unat b + 256 * le_nat bs"

section \<open>Laws of hash maps\<close>

lemma hm_get_put [hmap_simps]: "hm_get (hm_put k v m) k' = (if k' = k then Some v else hm_get m k')"
  by (simp add: update_conv)

lemma hm_get_del [hmap_simps]: "hm_get (hm_del k m) k' = (if k' = k then None else hm_get m k')"
  by (simp add: delete_conv)

lemma hm_ok_Nil [simp]: "hm_ok []"
  by (simp add: hm_ok_def)

lemma hm_ok_put [simp, intro]: "hm_ok m \<Longrightarrow> hm_ok (hm_put k v m)"
  by (simp add: hm_ok_def distinct_update)

lemma hm_ok_del [simp, intro]: "hm_ok m \<Longrightarrow> hm_ok (hm_del k m)"
  by (simp add: hm_ok_def distinct_delete)

lemma hm_ok_retain [simp, intro]: "hm_ok m \<Longrightarrow> hm_ok (hm_retain P m)"
  unfolding hm_ok_def hm_retain_def by (induction m) auto

lemma hm_get_set: "hm_ok m \<Longrightarrow> hm_get m k = Some v \<longleftrightarrow> (k, v) \<in> set m"
  by (simp add: hm_ok_def map_of_eq_Some_iff)

lemma hm_get_None_iff: "hm_get m k = None \<longleftrightarrow> k \<notin> set (hm_keys m)"
  by (simp add: map_of_eq_None_iff)

lemma hm_has_iff: "hm_has m k \<longleftrightarrow> k \<in> set (hm_keys m)"
  by (simp add: hm_has_def hm_get_None_iff)

lemma hm_get_retain [hmap_simps]:
  assumes "hm_ok m"
  shows "hm_get (hm_retain P m) k =
    (case hm_get m k of None \<Rightarrow> None | Some v \<Rightarrow> if P k v then Some v else None)"
proof -
  have eq: "hm_get (hm_retain P m) k = Some v \<longleftrightarrow> hm_get m k = Some v \<and> P k v" for v
    using assms hm_ok_retain [of m P] by (auto simp: hm_get_set) (auto simp: hm_retain_def)
  show ?thesis
    by (cases "hm_get (hm_retain P m) k"; cases "hm_get m k") (use eq in auto)
qed

lemma keys_put: "fst ` set (hm_put k v m) = insert k (fst ` set m)"
  by (induction m) auto

lemma keys_del: "fst ` set (hm_del k m) = fst ` set m - {k}"
  by (induction m) auto

lemma length_hm_put: "length (hm_put k v m) = (if hm_has m k then length m else Suc (length m))"
  by (induction m) (auto simp: hm_has_def)

lemma hm_sorted_set [simp]: "set (hm_sorted m) = set m"
  by (simp add: hm_sorted_def)

lemma hm_sorted_keys: "sorted (map fst (hm_sorted m))"
  by (simp add: hm_sorted_def)

lemma hm_sorted_distinct: "hm_ok m \<Longrightarrow> distinct (map fst (hm_sorted m))"
  by (simp add: hm_sorted_def hm_ok_def distinct_map inj_on_def)

lemma hm_sorted_length [simp]: "length (hm_sorted m) = length m"
  by (simp add: hm_sorted_def)

section \<open>Laws of strings\<close>

lemma split_on_not_Nil [simp]: "split_on c s \<noteq> []"
  by (induction s) (auto split: list.splits)

lemma join_split_on [simp]: "join_on c (split_on c s) = s"
proof (induction s)
  case (Cons x xs)
  then show ?case
    by (cases "split_on c xs"; cases "tl (split_on c xs)") auto
qed simp

lemma split_on_no_sep: "p \<in> set (split_on c s) \<Longrightarrow> c \<notin> set p"
proof (induction s arbitrary: p)
  case (Cons x xs)
  then show ?case
    by (cases "split_on c xs") (auto split: if_splits)
qed simp

lemma split_on_no_occ [path_simps]: "c \<notin> set s \<Longrightarrow> split_on c s = [s]"
  by (induction s) auto

lemma split_on_append_sep [path_simps]:
  "split_on c (a @ c # b) = split_on c a @ split_on c b"
proof (induction a)
  case (Cons x xs)
  then show ?case
    by (cases "split_on c xs") auto
qed simp

lemma split_join_on:
  "ps \<noteq> [] \<Longrightarrow> (\<And>p. p \<in> set ps \<Longrightarrow> c \<notin> set p) \<Longrightarrow> split_on c (join_on c ps) = ps"
proof (induction c ps rule: join_on.induct)
  case (3 c p q ps)
  then show ?case by (simp add: split_on_append_sep split_on_no_occ)
qed (auto simp: split_on_no_occ)

lemma rsplit_once_None: "rsplit_once c s = None \<longleftrightarrow> c \<notin> set s"
  by (induction s) (auto split: option.splits)

lemma rsplit_once_Some:
  "rsplit_once c s = Some (a, b) \<longleftrightarrow> s = a @ c # b \<and> c \<notin> set b"
proof (induction s arbitrary: a)
  case (Cons x xs)
  show ?case
  proof (cases "rsplit_once c xs")
    case None
    then have "c \<notin> set xs" by (simp add: rsplit_once_None)
    then show ?thesis using None by (cases a) auto
  next
    case (Some ab)
    then obtain a' b' where ab: "rsplit_once c xs = Some (a', b')" by (cases ab) auto
    then have in_xs: "c \<in> set xs" by (metis option.distinct(1) rsplit_once_None)
    have "rsplit_once c (x # xs) = Some (a, b) \<longleftrightarrow> (\<exists>a''. a = x # a'' \<and> rsplit_once c xs = Some (a'', b))"
      using ab by auto
    also have "\<dots> \<longleftrightarrow> (\<exists>a''. a = x # a'' \<and> xs = a'' @ c # b \<and> c \<notin> set b)"
      using Cons.IH by auto
    also have "\<dots> \<longleftrightarrow> x # xs = a @ c # b \<and> c \<notin> set b"
      using in_xs by (auto simp: Cons_eq_append_conv)
    finally show ?thesis .
  qed
qed simp

lemma split_once_Some:
  "split_once c s = Some (a, b) \<longleftrightarrow> s = a @ c # b \<and> c \<notin> set a"
proof (induction s arbitrary: a)
  case (Cons x xs)
  then show ?case by (cases a) auto
qed simp

lemma split_once_None [simp]: "split_once c s = None \<longleftrightarrow> c \<notin> set s"
  by (induction s) auto

section \<open>Laws of little-endian integers\<close>

lemma length_le_bytes [simp]: "length (le_bytes k n) = k"
  by (induction k n rule: le_bytes.induct) auto

lemma le_bytes_numeral:
  "le_bytes (numeral k) n = of_nat (n mod 256) # le_bytes (pred_numeral k) (n div 256)"
  by (simp only: numeral_eq_Suc [of k] le_bytes.simps)

lemma unat_of_nat_byte [simp]: "unat (of_nat (n mod 256) :: u8) = n mod 256"
  by (simp add: unat_of_nat)

lemma le_nat_le_bytes: "le_nat (le_bytes k n) = n mod 256 ^ k"
  by (induction k n rule: le_bytes.induct) (auto simp: mod_mult2_eq)

lemma le_nat_le_bytes_small [simp]: "n < 256 ^ k \<Longrightarrow> le_nat (le_bytes k n) = n"
  by (simp add: le_nat_le_bytes)

lemma unat_byte_less: "unat (b :: u8) < 256"
  using unsigned_less [where 'a = nat, of b] by simp

lemma le_bytes_le_nat: "le_bytes (length bs) (le_nat bs) = bs"
proof (induction bs)
  case (Cons b bs)
  have b: "unat b < 256" by (rule unat_byte_less)
  then have "(unat b + 256 * le_nat bs) mod 256 = unat b" "(unat b + 256 * le_nat bs) div 256 = le_nat bs"
    by auto
  then show ?case using Cons by simp
qed simp

lemma le_nat_bound: "le_nat bs < 256 ^ length bs"
proof (induction bs)
  case (Cons b bs)
  have "unat b < 256" by (rule unat_byte_less)
  moreover have "le_nat bs + 1 \<le> 256 ^ length bs" using Cons by simp
  then have "256 * le_nat bs + 256 \<le> 256 * 256 ^ length bs" by simp
  ultimately show ?case by simp
qed simp

lemma strip_prefix_Some: "strip_prefix p s = Some r \<longleftrightarrow> s = p @ r"
  by (induction p s rule: strip_prefix.induct) auto

lemma strip_prefix_append [simp]: "strip_prefix p (p @ r) = Some r"
  by (simp add: strip_prefix_Some)

lemma less_Suc_clock: "v \<le> x \<Longrightarrow> x + 1 \<noteq> 0 \<Longrightarrow> v < x + (1 :: u64)"
  using unatSuc [of x] by (simp add: word_less_nat_alt word_le_nat_alt add.commute)

end
