(* ===== verification/Proto.thy ===== *)
theory Proto
  imports Alloy_Prelude
begin

text \<open>
  The wire vocabulary of \<^verbatim>\<open>crates/alloyfs-proto/src/{messages,error}.rs\<close>: error codes, file
  attributes, events, the request, response and frame variants in the source's order, and
  export-relative paths with their \<^verbatim>\<open>validate\<close>, \<^verbatim>\<open>is_root\<close>, \<^verbatim>\<open>join\<close> and \<^verbatim>\<open>split\<close>.

  The locale \<open>path_space\<close> is the contract the rest of the system relies on (paths form the
  free tree over component names); it is interpreted on the string routines.
\<close>

section \<open>Error codes\<close>

datatype ErrorCode =
    NotFound | PermissionDenied | AlreadyExists | NotADirectory | IsADirectory | NotEmpty
  | InvalidPath | BadHandle | ReadOnly | NoSuchExport | WouldBlock | Conflict
  | VersionMismatch | NotAttached | TooOld | IoError | CrossDevice | AuthRequired

datatype ProtoError =
    FrameTooLarge nat | Malformed | CompressionError | ProtoIo

section \<open>Messages\<close>

type_synonym RelPath = string

definition PROTO_VERSION_MIN :: u16 where "PROTO_VERSION_MIN = 1"
definition PROTO_VERSION_MAX :: u16 where "PROTO_VERSION_MAX = 4"
definition DATA_CHUNK :: u32 where "DATA_CHUNK = 131072"

datatype FileKind = File | Dir | Symlink

record Attr =
  a_kind :: FileKind
  a_size :: u64
  a_mtime :: SystemTime
  a_ctime :: SystemTime
  a_mode :: u32
  a_version :: u64

record DirEntry =
  de_name :: string
  de_attr :: Attr

record OpenFlags =
  of_read :: bool
  of_write :: bool
  of_truncate :: bool
  of_append :: bool
  of_excl :: bool

datatype LockKind = Shared | Exclusive

datatype EventKind =
    Created | Modified | AttrChanged | Removed | RenamedFrom RelPath | ResyncRequired

record FsEvent =
  ev_seq :: u64
  ev_kind :: EventKind
  ev_path :: RelPath
  ev_new_version :: "u64 option"
  ev_origin :: "u64 option"

datatype Request =
    ReqAttach string
  | ReqGetattr RelPath
  | ReqReaddir RelPath u64
  | ReqOpen RelPath OpenFlags
  | ReqCreate RelPath OpenFlags u32
  | ReqRead u64 u64 u32
  | ReqWrite u64 u64 bytes "u64 option"
  | ReqFlush u64
  | ReqRelease u64
  | ReqSetattr RelPath "u64 option" "SystemTime option" "u32 option"
  | ReqMkdir RelPath u32
  | ReqUnlink RelPath
  | ReqRmdir RelPath
  | ReqRename RelPath RelPath bool
  | ReqLock u64 LockKind bool
  | ReqUnlock u64
  | ReqSubscribe "u64 option"
  | ReqStatfs
  | ReqLink RelPath RelPath
  | ReqMountDefaults
  | ReqAuth string
  | ReqSymlink string RelPath
  | ReqReadLink RelPath

datatype Response =
    RspAttachOk u32 Attr
  | RspAttr Attr
  | RspDir "DirEntry list" "u64 option"
  | RspOpened u64 Attr
  | RspData bytes
  | RspWritten u32 u64 bool
  | RspStatfs u32 u64 u64
  | RspSubscribed u64
  | RspOk
  | RspMountDefaults "string list" "string list" "u64 option" "u64 option"
  | RspTarget string

datatype Frame =
    FHello u16 u16 string
  | FHelloAck u16 string
  | FRequest u64 Request
  | FResponse u64 "ErrorCode + Response"
  | FEvents "FsEvent list"
  | FPing u64
  | FPong u64
  | FCompressed bytes

section \<open>Relative paths\<close>

definition validate :: "RelPath \<Rightarrow> ErrorCode + unit" where
  "validate s =
    (if (case s of [] \<Rightarrow> False | c # _ \<Rightarrow> c = CHR ''/'') \<or> CHR 0x5C \<in> set s then Inl InvalidPath
     else if list_ex (\<lambda>c. c = [] \<and> s \<noteq> [] \<or> c = ''.'' \<or> c = ''..'') (split_on CHR ''/'' s)
     then Inl InvalidPath
     else Inr ())"

definition is_root :: "RelPath \<Rightarrow> bool" where
  "is_root s = (s = [])"

definition join :: "RelPath \<Rightarrow> string \<Rightarrow> RelPath" where
  "join s name = (if s = [] then name else s @ CHR ''/'' # name)"

definition split :: "RelPath \<Rightarrow> (RelPath \<times> string) option" where
  "split s =
    (if is_root s then None
     else case rsplit_once CHR ''/'' s of
            Some (parent, name) \<Rightarrow> Some (parent, name)
          | None \<Rightarrow> Some ([], s))"

definition display :: "RelPath \<Rightarrow> string" where
  "display s = (if is_root s then ''/'' else s)"

section \<open>Specification vocabulary\<close>

text \<open>The components of a path and the names a component may have.\<close>

definition components :: "RelPath \<Rightarrow> string list" where
  "components s = (if s = [] then [] else split_on CHR ''/'' s)"

definition name_ok :: "string \<Rightarrow> bool" where
  "name_ok n = (n \<noteq> [] \<and> n \<noteq> ''.'' \<and> n \<noteq> ''..'' \<and> CHR ''/'' \<notin> set n \<and> CHR 0x5C \<notin> set n)"

definition valid :: "RelPath \<Rightarrow> bool" where
  "valid s = (validate s = Inr ())"

locale path_space =
  fixes top :: 'p
    and child :: "'p \<Rightarrow> 'n \<Rightarrow> 'p"
    and parent :: "'p \<Rightarrow> ('p \<times> 'n) option"
    and good :: "'p \<Rightarrow> bool"
    and good_name :: "'n \<Rightarrow> bool"
    and depth :: "'p \<Rightarrow> nat"
  assumes good_top: "good top"
    and parent_top: "parent p = None \<longleftrightarrow> p = top"
    and good_child: "good p \<Longrightarrow> good_name n \<Longrightarrow> good (child p n)"
    and parent_child: "good p \<Longrightarrow> good_name n \<Longrightarrow> parent (child p n) = Some (p, n)"
    and child_parent: "good p \<Longrightarrow> parent p = Some (q, n) \<Longrightarrow> child q n = p \<and> good q \<and> good_name n"
    and depth_parent: "good p \<Longrightarrow> parent p = Some (q, n) \<Longrightarrow> depth q < depth p"
begin

lemma child_inject:
  assumes "good p" "good q" "good_name m" "good_name n"
  shows "child p m = child q n \<longleftrightarrow> p = q \<and> m = n"
  by (metis assms parent_child option.inject prod.inject)

lemma child_not_top: "good p \<Longrightarrow> good_name n \<Longrightarrow> child p n \<noteq> top"
  using parent_child parent_top by (metis option.distinct(1))

lemma path_induct [consumes 1, case_names top child]:
  assumes "good p"
    and "P top"
    and "\<And>q n. good q \<Longrightarrow> good_name n \<Longrightarrow> P q \<Longrightarrow> P (child q n)"
  shows "P p"
  using assms(1)
proof (induction "depth p" arbitrary: p rule: less_induct)
  case less
  show ?case
  proof (cases "parent p")
    case None
    then show ?thesis using assms(2) parent_top by simp
  next
    case (Some qn)
    then obtain q n where qn: "parent p = Some (q, n)" by (cases qn) auto
    then show ?thesis
      using less child_parent depth_parent assms(3) by metis
  qed
qed

lemma path_of_names:
  "good p \<Longrightarrow> \<exists>ns. list_all good_name ns \<and> p = foldl child top ns"
proof (induction rule: path_induct)
  case top
  then show ?case by (intro exI [of _ "[]"]) simp
next
  case (child q n)
  then obtain ns where "list_all good_name ns" "q = foldl child top ns" by blast
  then show ?case using child by (intro exI [of _ "ns @ [n]"]) simp
qed

end

section \<open>Laws of relative paths\<close>

lemma valid_iff_components:
  "valid s \<longleftrightarrow> list_all name_ok (components s)"
proof (cases s)
  case (Cons c cs)
  have comps: "components s = split_on CHR ''/'' s" using Cons by (simp add: components_def)
  have sep: "CHR ''/'' \<notin> set p" if "p \<in> set (split_on CHR ''/'' s)" for p
    using that by (rule split_on_no_sep)
  have slash: "[] \<in> set (split_on CHR ''/'' s)" if "c = CHR ''/''"
    using that Cons by simp
  have chars: "set s \<subseteq> insert d (\<Union> (set ` set (split_on d s)))" for d :: char
  proof (induction s)
    case (Cons x xs)
    then show ?case by (cases "split_on d xs") auto
  qed simp
  have inner: "\<Union> (set ` set (split_on d s)) \<subseteq> set s" for d :: char
  proof (induction s)
    case (Cons x xs)
    then show ?case by (cases "split_on d xs") auto
  qed simp
  have bs: "CHR 0x5C \<in> set s \<longleftrightarrow> (\<exists>p\<in>set (split_on CHR ''/'' s). CHR 0x5C \<in> set p)"
    using chars [of "CHR ''/''"] inner [of "CHR ''/''"] by auto
  show ?thesis
    unfolding valid_def validate_def comps list_all_iff list_ex_iff name_ok_def
    using sep slash bs Cons by auto
qed (simp add: valid_def validate_def components_def)

lemma components_join:
  assumes "CHR ''/'' \<notin> set n" "n \<noteq> []"
  shows "components (join s n) = components s @ [n]"
  using assms by (auto simp: components_def join_def path_simps)

lemma name_ok_no_slash: "name_ok n \<Longrightarrow> CHR ''/'' \<notin> set n \<and> n \<noteq> []"
  by (simp add: name_ok_def)

lemma valid_join: "name_ok n \<Longrightarrow> valid (join s n) \<longleftrightarrow> valid s"
  by (simp add: valid_iff_components components_join name_ok_no_slash)

lemma split_join: "CHR ''/'' \<notin> set n \<Longrightarrow> n \<noteq> [] \<Longrightarrow> split (join s n) = Some (s, n)"
proof -
  assume n: "CHR ''/'' \<notin> set n" "n \<noteq> []"
  have "rsplit_once CHR ''/'' (s @ CHR ''/'' # n) = Some (s, n)"
    using n by (simp add: rsplit_once_Some)
  moreover have "rsplit_once CHR ''/'' n = None" using n by (simp add: rsplit_once_None)
  ultimately show ?thesis using n by (auto simp: split_def join_def is_root_def)
qed

lemma split_parts:
  assumes "valid s" "split s = Some (q, n)"
  shows "s = join q n" "valid q" "name_ok n" "length q < length s"
proof -
  have ne: "s \<noteq> []" using assms(2) by (auto simp: split_def is_root_def)
  have eq: "s = join q n \<and> CHR ''/'' \<notin> set n \<and> n \<noteq> []"
  proof (cases "rsplit_once CHR ''/'' s")
    case None
    then show ?thesis using assms(2) ne rsplit_once_None [of "CHR ''/''" s]
      by (auto simp: split_def is_root_def join_def)
  next
    case (Some qn)
    then have s: "s = q @ CHR ''/'' # n" "CHR ''/'' \<notin> set n"
      using assms(2) ne by (auto simp: split_def is_root_def rsplit_once_Some)
    then have "components s = split_on CHR ''/'' q @ [n]"
      by (simp add: components_def path_simps)
    then have "list_all name_ok (split_on CHR ''/'' q) \<and> name_ok n"
      using assms(1) by (simp add: valid_iff_components)
    moreover then have "q \<noteq> []" by (auto simp: name_ok_def)
    ultimately show ?thesis using s by (auto simp: join_def name_ok_def)
  qed
  then show "s = join q n" by simp
  have comp: "components s = components q @ [n]" using eq components_join by metis
  then show "valid q" "name_ok n" using assms(1) by (simp_all add: valid_iff_components)
  show "length q < length s" using eq by (auto simp: join_def)
qed

lemma split_None: "split s = None \<longleftrightarrow> s = []"
  by (auto simp: split_def is_root_def split: option.splits)

interpretation rp: path_space "[]" join split valid name_ok length
proof
  fix p q n
  show "valid []" by (simp add: valid_iff_components components_def)
  show "split p = None \<longleftrightarrow> p = []" by (rule split_None)
  show "valid p \<Longrightarrow> name_ok n \<Longrightarrow> valid (join p n)" by (simp add: valid_join)
  show "valid p \<Longrightarrow> name_ok n \<Longrightarrow> split (join p n) = Some (p, n)"
    by (simp add: split_join name_ok_no_slash)
  show "valid p \<Longrightarrow> split p = Some (q, n) \<Longrightarrow> join q n = p \<and> valid q \<and> name_ok n"
    using split_parts by metis
  show "valid p \<Longrightarrow> split p = Some (q, n) \<Longrightarrow> length q < length p"
    using split_parts by metis
qed

lemma components_inj: "components s = components t \<longleftrightarrow> s = t"
proof
  assume "components s = components t"
  then show "s = t"
    by (metis components_def join_split_on split_on_not_Nil)
qed simp

lemma validate_cases: "validate s = Inr () \<or> validate s = Inl InvalidPath"
  by (simp add: validate_def)

end
