(* ===== verification/Wire.thy ===== *)
theory Wire
  imports Proto
begin

text \<open>
  The frame codec of \<^verbatim>\<open>crates/alloyfs-proto/src/frame.rs\<close>: length prefix, size bound,
  optional compression, and the decoder's bomb and nesting guards.

  The serializer (postcard) and the compressor (lz4_flex) are not part of the repository.  They
  are the fields of a \<open>codec_lib\<close> value that every definition takes, and \<open>postcard_ok\<close> and
  \<open>lz4_ok\<close> name what their documentation promises.
\<close>

record codec_lib =
  to_stdvec :: "Frame \<Rightarrow> bytes option"
  from_bytes :: "bytes \<Rightarrow> Frame option"
  compress_prepend_size :: "bytes \<Rightarrow> bytes"
  decompress_size_prepended :: "bytes \<Rightarrow> bytes option"

definition MAX_FRAME_LEN :: nat where "MAX_FRAME_LEN = 1024 * 1024"
definition COMPRESS_MIN :: nat where "COMPRESS_MIN = 512"
definition LEN_PREFIX :: nat where "LEN_PREFIX = 4"

record FrameCodec =
  fc_compress :: bool

fun is_compressed :: "Frame \<Rightarrow> bool" where
  "is_compressed (FCompressed _) = True"
| "is_compressed _ = False"

section \<open>Decoder\<close>

text \<open>The tail of \<open>decode\<close> from \<^verbatim>\<open>postcard::from_bytes(&payload)\<close> on.\<close>

definition decode_payload :: "codec_lib \<Rightarrow> bytes \<Rightarrow> ProtoError + Frame option" where
  "decode_payload lib payload =
    (case from_bytes lib payload of
       None \<Rightarrow> Inl Malformed
     | Some (FCompressed data) \<Rightarrow>
         (if length data \<ge> 4 \<and> le_nat (take 4 data) > MAX_FRAME_LEN
          then Inl (FrameTooLarge (le_nat (take 4 data)))
          else case decompress_size_prepended lib data of
                 None \<Rightarrow> Inl CompressionError
               | Some inner \<Rightarrow>
                   (case from_bytes lib inner of
                      None \<Rightarrow> Inl Malformed
                    | Some (FCompressed _) \<Rightarrow> Inl CompressionError
                    | Some frame \<Rightarrow> Inr (Some frame)))
     | Some frame \<Rightarrow> Inr (Some frame))"

text \<open>\<open>decode\<close> returns its verdict and what is left in the receive buffer.\<close>

definition decode :: "codec_lib \<Rightarrow> bytes \<Rightarrow> (ProtoError + Frame option) \<times> bytes" where
  "decode lib src =
    (if length src < LEN_PREFIX then (Inr None, src)
     else let len = le_nat (take LEN_PREFIX src) in
       if len > MAX_FRAME_LEN then (Inl (FrameTooLarge len), src)
       else if length src < LEN_PREFIX + len then (Inr None, src)
       else let rest = drop LEN_PREFIX src;
                payload = take len rest
            in (decode_payload lib payload, drop len rest))"

section \<open>Encoder\<close>

definition encode_payload :: "codec_lib \<Rightarrow> FrameCodec \<Rightarrow> Frame \<Rightarrow> ProtoError + bytes" where
  "encode_payload lib codec frame =
    (case to_stdvec lib frame of
       None \<Rightarrow> Inl Malformed
     | Some payload \<Rightarrow>
         (if fc_compress codec \<and> length payload \<ge> COMPRESS_MIN \<and> \<not> is_compressed frame
          then let squeezed = compress_prepend_size lib payload in
            if length squeezed < length payload
            then ok_or Malformed (to_stdvec lib (FCompressed squeezed))
            else Inr payload
          else Inr payload))"

definition encode :: "codec_lib \<Rightarrow> FrameCodec \<Rightarrow> Frame \<Rightarrow> bytes \<Rightarrow> ProtoError + bytes" where
  "encode lib codec frame dst =
    (case encode_payload lib codec frame of
       Inl e \<Rightarrow> Inl e
     | Inr payload \<Rightarrow>
         (if length payload > MAX_FRAME_LEN then Inl (FrameTooLarge (length payload))
          else Inr (dst @ le_bytes LEN_PREFIX (length payload) @ payload)))"

text \<open>The receive loop of a framed stream: decode until the buffer asks for more bytes.\<close>

function decode_all :: "codec_lib \<Rightarrow> bytes \<Rightarrow> (ProtoError option \<times> Frame list) \<times> bytes" where
  "decode_all lib src =
    (case decode lib src of
       (Inl e, rest) \<Rightarrow> ((Some e, []), rest)
     | (Inr None, rest) \<Rightarrow> ((None, []), rest)
     | (Inr (Some f), rest) \<Rightarrow>
         (case decode_all lib rest of ((e, fs), r) \<Rightarrow> ((e, f # fs), r)))"
  by pat_completeness auto
termination
  by (relation "measure (\<lambda>(lib, src). length src)")
    (auto simp: decode_def LEN_PREFIX_def Let_def split: if_splits)

fun encode_all :: "codec_lib \<Rightarrow> FrameCodec \<Rightarrow> Frame list \<Rightarrow> bytes \<Rightarrow> ProtoError + bytes" where
  "encode_all lib codec [] dst = Inr dst"
| "encode_all lib codec (f # fs) dst = and_then (encode lib codec f dst) (encode_all lib codec fs)"

section \<open>Documented behaviour of the libraries\<close>

definition postcard_ok :: "codec_lib \<Rightarrow> bool" where
  "postcard_ok lib = (\<forall>f b. to_stdvec lib f = Some b \<longrightarrow> from_bytes lib b = Some f)"

definition lz4_ok :: "codec_lib \<Rightarrow> bool" where
  "lz4_ok lib = (\<forall>b. length b < 2 ^ 32 \<longrightarrow>
     decompress_size_prepended lib (compress_prepend_size lib b) = Some b
     \<and> length (compress_prepend_size lib b) \<ge> 4
     \<and> le_nat (take 4 (compress_prepend_size lib b)) = length b)"

text \<open>The frames the round trip covers: not an already wrapped one, and no longer than the frame
  limit before compression.\<close>

definition sendable :: "codec_lib \<Rightarrow> Frame \<Rightarrow> bool" where
  "sendable lib f = (\<not> is_compressed f \<and>
    (case to_stdvec lib f of None \<Rightarrow> False | Some p \<Rightarrow> length p \<le> MAX_FRAME_LEN))"

section \<open>Laws\<close>

lemmas frame_consts = MAX_FRAME_LEN_def COMPRESS_MIN_def LEN_PREFIX_def

lemma decode_payload_not_compressed:
  "decode_payload lib p = Inr (Some f) \<Longrightarrow> \<not> is_compressed f"
  by (auto simp: decode_payload_def split: option.splits Frame.splits if_splits)

lemma decode_payload_not_wait: "decode_payload lib p \<noteq> Inr None"
  by (auto simp: decode_payload_def split: option.splits Frame.splits if_splits)

lemma decode_framed:
  assumes "length p \<le> MAX_FRAME_LEN"
  shows "decode lib (le_bytes LEN_PREFIX (length p) @ p @ rest) = (decode_payload lib p, rest)"
  using assms by (simp add: decode_def frame_consts Let_def)

lemma decode_payload_plain:
  "from_bytes lib p = Some f \<Longrightarrow> \<not> is_compressed f \<Longrightarrow> decode_payload lib p = Inr (Some f)"
  by (cases f) (simp_all add: decode_payload_def)

lemma decode_payload_squeezed:
  assumes "from_bytes lib p = Some (FCompressed (compress_prepend_size lib b))"
    and "from_bytes lib b = Some f" "\<not> is_compressed f"
    and "lz4_ok lib" "length b \<le> MAX_FRAME_LEN"
  shows "decode_payload lib p = Inr (Some f)"
proof -
  have "length b < 2 ^ 32" using assms(5) by (simp add: frame_consts)
  then have "decompress_size_prepended lib (compress_prepend_size lib b) = Some b"
    "le_nat (take 4 (compress_prepend_size lib b)) = length b"
    using assms(4) by (simp_all add: lz4_ok_def)
  then show ?thesis using assms by (cases f) (simp_all add: decode_payload_def)
qed

lemma encode_payload_decodes:
  assumes "postcard_ok lib" "lz4_ok lib" "sendable lib f" "encode_payload lib codec f = Inr p"
  shows "decode_payload lib p = Inr (Some f)"
proof -
  obtain b where b: "to_stdvec lib f = Some b" "length b \<le> MAX_FRAME_LEN" and nc: "\<not> is_compressed f"
    using assms(3) by (auto simp: sendable_def split: option.splits)
  have fb: "from_bytes lib b = Some f" using assms(1) b by (simp add: postcard_ok_def)
  consider (plain) "p = b" | (sq) "to_stdvec lib (FCompressed (compress_prepend_size lib b)) = Some p"
    using assms(4) b
    by (auto simp: encode_payload_def Let_def split: if_splits)
      (cases "to_stdvec lib (FCompressed (compress_prepend_size lib b))"; simp)
  then show ?thesis
  proof cases
    case plain
    then show ?thesis using fb nc by (simp add: decode_payload_plain)
  next
    case sq
    then have "from_bytes lib p = Some (FCompressed (compress_prepend_size lib b))"
      using assms(1) by (simp add: postcard_ok_def)
    then show ?thesis using fb nc assms(2) b by (simp add: decode_payload_squeezed)
  qed
qed

lemma encode_Inr:
  "encode lib codec f dst = Inr out \<longleftrightarrow>
   (\<exists>p. encode_payload lib codec f = Inr p \<and> length p \<le> MAX_FRAME_LEN
      \<and> out = dst @ le_bytes LEN_PREFIX (length p) @ p)"
  by (auto simp: encode_def split: sum.splits)

lemma encode_decode:
  assumes "postcard_ok lib" "lz4_ok lib" "sendable lib f" "encode lib codec f dst = Inr out"
  obtains w where "out = dst @ w" "\<And>rest. decode lib (w @ rest) = (Inr (Some f), rest)"
proof -
  obtain p where p: "encode_payload lib codec f = Inr p" "length p \<le> MAX_FRAME_LEN"
    "out = dst @ le_bytes LEN_PREFIX (length p) @ p"
    using assms(4) by (auto simp: encode_Inr)
  have "decode_payload lib p = Inr (Some f)" using encode_payload_decodes assms p by blast
  then show thesis
    using that [of "le_bytes LEN_PREFIX (length p) @ p"] p decode_framed [of p lib] by simp
qed

text \<open>A buffer shorter than its own frame makes the decoder wait and consume nothing.\<close>

lemma decode_prefix_waits:
  assumes "decode lib (a @ b) = (r, [])" "r \<noteq> Inr None" "b \<noteq> []"
  shows "decode lib a = (Inr None, a)"
proof (cases "length a < LEN_PREFIX")
  case True
  then show ?thesis by (simp add: decode_def)
next
  case False
  then have hd: "take LEN_PREFIX (a @ b) = take LEN_PREFIX a" "\<not> length (a @ b) < LEN_PREFIX" by auto
  let ?len = "le_nat (take LEN_PREFIX a)"
  have "\<not> ?len > MAX_FRAME_LEN" "\<not> length (a @ b) < LEN_PREFIX + ?len"
    using assms(1,2,3) hd by (auto simp: decode_def Let_def split: if_splits)
  moreover then have "length (a @ b) = LEN_PREFIX + ?len"
    using assms(1) hd by (auto simp: decode_def Let_def split: if_splits)
  moreover have "length b > 0" using assms(3) by simp
  ultimately have "length a < LEN_PREFIX + ?len" "\<not> ?len > MAX_FRAME_LEN"
    unfolding length_append by linarith+
  then show ?thesis using False by (simp add: decode_def Let_def)
qed

section \<open>Streams of frames\<close>

definition frames_as :: "codec_lib \<Rightarrow> bytes list \<Rightarrow> Frame list \<Rightarrow> bool" where
  "frames_as lib = list_all2 (\<lambda>w f. w \<noteq> [] \<and> (\<forall>rest. decode lib (w @ rest) = (Inr (Some f), rest)))"

lemma decode_Nil: "decode lib [] = (Inr None, [])"
  by (simp add: decode_def LEN_PREFIX_def)

lemma decode_all_Nil: "decode_all lib [] = ((None, []), [])"
  by (simp add: decode_Nil)

lemma decode_all_wait: "decode lib a = (Inr None, a) \<Longrightarrow> decode_all lib a = ((None, []), a)"
  by simp

lemma decode_all_step:
  "decode lib a = (Inr (Some f), r) \<Longrightarrow> decode_all lib r = ((e, fs), s) \<Longrightarrow>
   decode_all lib a = ((e, f # fs), s)"
  by (subst decode_all.simps) (simp del: decode_all.simps)

declare decode_all.simps [simp del]

lemma encode_all_frames:
  assumes "postcard_ok lib" "lz4_ok lib" "list_all (sendable lib) fs"
    and "encode_all lib codec fs dst = Inr out"
  shows "\<exists>ws. out = dst @ concat ws \<and> frames_as lib ws fs"
  using assms(3,4)
proof (induction fs arbitrary: dst)
  case Nil
  then show ?case by (intro exI [of _ "[]"]) (simp add: frames_as_def)
next
  case (Cons f fs)
  then obtain mid where mid: "encode lib codec f dst = Inr mid" "encode_all lib codec fs mid = Inr out"
    by (cases "encode lib codec f dst") auto
  obtain w where w: "mid = dst @ w" "\<And>rest. decode lib (w @ rest) = (Inr (Some f), rest)"
    using encode_decode [OF assms(1,2) _ mid(1)] Cons.prems(1) by auto
  obtain ws where ws: "out = mid @ concat ws" "frames_as lib ws fs"
    using Cons.IH [OF _ mid(2)] Cons.prems(1) by auto
  have "w \<noteq> []" using w(2) [of "[]"] by (auto simp: decode_Nil)
  then show ?case using w ws by (intro exI [of _ "w # ws"]) (simp add: frames_as_def)
qed

lemma decode_all_frames:
  "frames_as lib ws fs \<Longrightarrow> decode_all lib (concat ws) = ((None, fs), [])"
proof (induction ws arbitrary: fs)
  case (Cons w ws)
  then obtain f gs where fs: "fs = f # gs" "\<And>rest. decode lib (w @ rest) = (Inr (Some f), rest)"
    "frames_as lib ws gs"
    by (auto simp: frames_as_def list_all2_Cons1)
  then show ?case using Cons.IH [of gs] by (auto intro: decode_all_step)
qed (auto simp: frames_as_def decode_all_Nil)

lemma decode_all_split:
  assumes "frames_as lib ws fs" "concat ws = a @ b"
  shows "\<exists>m r. decode_all lib a = ((None, take m fs), r) \<and> decode_all lib (r @ b) = ((None, drop m fs), [])"
  using assms
proof (induction ws arbitrary: fs a)
  case Nil
  then show ?case by (auto simp: frames_as_def decode_all_Nil)
next
  case (Cons w ws)
  then obtain f gs where fs: "fs = f # gs" "\<And>rest. decode lib (w @ rest) = (Inr (Some f), rest)"
    "frames_as lib ws gs"
    by (auto simp: frames_as_def list_all2_Cons1)
  show ?case
  proof (cases "length w \<le> length a")
    case True
    then obtain a' where a': "a = w @ a'" "concat ws = a' @ b"
      using Cons.prems(2) by (auto simp: append_eq_append_conv2)
    obtain m r where "decode_all lib a' = ((None, take m gs), r)" "decode_all lib (r @ b) = ((None, drop m gs), [])"
      using Cons.IH [OF fs(3) a'(2)] by blast
    then show ?thesis
      using fs a' by (intro exI [of _ "Suc m"] exI [of _ r]) (auto intro: decode_all_step)
  next
    case False
    then obtain c where c: "w = a @ c" "c \<noteq> []"
      using Cons.prems(2) by (auto simp: append_eq_append_conv2)
    then have "decode lib a = (Inr None, a)"
      using decode_prefix_waits [of lib a c "Inr (Some f)"] fs(2) [of "[]"] by simp
    moreover have "decode_all lib (a @ b) = ((None, fs), [])"
      using decode_all_frames [OF Cons.prems(1)] Cons.prems(2) by simp
    ultimately show ?thesis by (intro exI [of _ 0] exI [of _ a]) (simp add: decode_all_wait)
  qed
qed

section \<open>Properties\<close>


text \<open>A library instance for the witnesses: pings are a tag and eight bytes, wrapped frames a tag
  and their content, and the compressor recognises blocks of zeros.\<close>

definition toy_lib :: codec_lib where
  "toy_lib = \<lparr>
     to_stdvec = (\<lambda>f. case f of
          FPing n \<Rightarrow> Some (0 # le_bytes 8 (unat n))
        | FCompressed d \<Rightarrow> Some (1 # d)
        | _ \<Rightarrow> if f = FHello 0 0 [] then Some (replicate (MAX_FRAME_LEN + 1) 2) else None),
     from_bytes = (\<lambda>b. case b of [] \<Rightarrow> None | t # d \<Rightarrow>
          if t = 0 then Some (FPing (of_nat (le_nat d)))
          else if t = 1 then Some (FCompressed d)
          else Some (FHello 0 0 [])),
     compress_prepend_size = (\<lambda>b. le_bytes 4 (length b) @
          (case b of [] \<Rightarrow> [0] | x # _ \<Rightarrow> if b = replicate (length b) x then [1, x] else 0 # b)),
     decompress_size_prepended = (\<lambda>d. case drop 4 d of [] \<Rightarrow> None
        | t # r \<Rightarrow> if t = 0 then Some r else Some (replicate (le_nat (take 4 d)) (hd r))) \<rparr>"

lemma toy_postcard_ok: "postcard_ok toy_lib"
proof -
  have "unat n < 256 ^ 8" for n :: u64
    using unsigned_less [where 'a = nat, of n] by simp
  then have "le_nat (le_bytes 8 (unat n)) = unat n" for n :: u64
    by (simp only: le_nat_le_bytes_small)
  then show ?thesis
    by (auto simp: postcard_ok_def toy_lib_def split: Frame.splits if_splits)
qed

lemma toy_lz4_ok: "lz4_ok toy_lib"
  by (auto simp: lz4_ok_def toy_lib_def split: list.splits)


text \<open>For every byte sequence and every library, the decoder returns no wrapped frame (nesting is
  refused), consumes nothing when it waits, announces an oversized length or an oversized
  decompressed size instead of acting on it, and otherwise removes exactly one length-prefixed
  frame from the buffer.\<close>

theorem decode_guarded:
  "case decode lib src of
     (Inr None, rest) \<Rightarrow> rest = src \<and>
       (length src < LEN_PREFIX \<or> length src < LEN_PREFIX + le_nat (take LEN_PREFIX src))
   | (Inr (Some f), rest) \<Rightarrow> \<not> is_compressed f
       \<and> le_nat (take LEN_PREFIX src) \<le> MAX_FRAME_LEN
       \<and> (\<exists>p. src = le_bytes LEN_PREFIX (length p) @ p @ rest)
   | (Inl e, rest) \<Rightarrow> LEN_PREFIX \<le> length src"
proof (cases "length src < LEN_PREFIX")
  case True
  then show ?thesis by (simp add: decode_def)
next
  case False
  define len where "len = le_nat (take LEN_PREFIX src)"
  have pre: "take LEN_PREFIX src = le_bytes LEN_PREFIX len"
    using False le_bytes_le_nat [of "take LEN_PREFIX src"] by (simp add: len_def min_absorb2)
  have parts: "src = take LEN_PREFIX src @ take len (drop LEN_PREFIX src) @ drop len (drop LEN_PREFIX src)"
    by (simp only: append_take_drop_id)
  show ?thesis
  proof (cases "len \<le> MAX_FRAME_LEN \<and> LEN_PREFIX + len \<le> length src")
    case True
    then have "length (take len (drop LEN_PREFIX src)) = len" by auto
    then have "\<exists>p. src = le_bytes LEN_PREFIX (length p) @ p @ drop len (drop LEN_PREFIX src)"
      using parts pre by (metis (no_types))
    then show ?thesis
      using True False decode_payload_not_compressed decode_payload_not_wait
      by (auto simp: decode_def Let_def len_def [symmetric] split: sum.splits option.splits)
  next
    case no: False
    then show ?thesis using False
      by (auto simp: decode_def Let_def len_def [symmetric])
  qed
qed

text \<open>C22: the frame limit is not symmetric.  A frame above the limit before compression that
  compresses below it is accepted by a compressing sender and refused by every receiver, which
  tears the connection down.\<close>

theorem oversize_compressed_refused:
  assumes "postcard_ok lib" "lz4_ok lib" "\<not> is_compressed f"
    and "to_stdvec lib f = Some b" "MAX_FRAME_LEN < length b" "length b < 2 ^ 32"
    and "encode lib codec f [] = Inr out"
  shows "decode lib out = (Inl (FrameTooLarge (length b)), [])"
proof -
  let ?sq = "compress_prepend_size lib b"
  obtain p where p: "encode_payload lib codec f = Inr p" "length p \<le> MAX_FRAME_LEN"
    "out = le_bytes LEN_PREFIX (length p) @ p"
    using assms(7) by (auto simp: encode_Inr)
  then have "to_stdvec lib (FCompressed ?sq) = Some p"
    using assms(3,4,5)
    by (cases "to_stdvec lib (FCompressed ?sq)")
      (auto simp: encode_payload_def Let_def split: if_splits)
  then have "from_bytes lib p = Some (FCompressed ?sq)" using assms(1) by (simp add: postcard_ok_def)
  moreover have "length ?sq \<ge> 4" "le_nat (take 4 ?sq) = length b"
    using assms(2,6) by (simp_all add: lz4_ok_def)
  ultimately have "decode_payload lib p = Inl (FrameTooLarge (length b))"
    using assms(5) by (simp add: decode_payload_def)
  then show ?thesis using p decode_framed [of p lib "[]"] by simp
qed

theorem oversize_compressed_refused_witness:
  "\<exists>out. encode toy_lib \<lparr>fc_compress = True\<rparr> (FHello 0 0 []) [] = Inr out
     \<and> decode toy_lib out = (Inl (FrameTooLarge (MAX_FRAME_LEN + 1)), [])"
proof -
  let ?b = "replicate (MAX_FRAME_LEN + 1) (2 :: u8)"
  have b: "to_stdvec toy_lib (FHello 0 0 []) = Some ?b" by (simp add: toy_lib_def)
  have sq: "compress_prepend_size toy_lib ?b = le_bytes 4 (MAX_FRAME_LEN + 1) @ [1, 2]"
    by (simp add: toy_lib_def)
  have "encode_payload toy_lib \<lparr>fc_compress = True\<rparr> (FHello 0 0 [])
      = Inr (1 # le_bytes 4 (MAX_FRAME_LEN + 1) @ [1, 2])"
    unfolding encode_payload_def b using sq by (simp add: frame_consts toy_lib_def)
  then obtain out where out: "encode toy_lib \<lparr>fc_compress = True\<rparr> (FHello 0 0 []) [] = Inr out"
    by (simp add: encode_def frame_consts)
  have "decode toy_lib out = (Inl (FrameTooLarge (length ?b)), [])"
    by (rule oversize_compressed_refused [OF toy_postcard_ok toy_lz4_ok _ b _ _ out])
      (simp_all add: frame_consts)
  then show ?thesis using out by simp
qed

end
