(* ===== verification/Common.thy ===== *)
theory Common
  imports Proto
begin

text \<open>
  The helpers of \<^verbatim>\<open>crates/alloyfs-common/src/{lib,fs}.rs\<close>: size parsing, the constant-time token
  comparison, the I/O error mapping, attribute synthesis, and the loops that turn short
  positional reads and writes into complete ones.

  Operating-system calls (name resolution, positional I/O) are arguments.  The two loops retry
  on \<^verbatim>\<open>Interrupted\<close> without bound, so they are \<^theory_text>\<open>partial_function (option)\<close>: a loop that
  never returns is \<^const>\<open>None\<close>, and the theorems show it does return.
\<close>

unbundle bit_operations_syntax

section \<open>I/O errors\<close>

datatype IoKind =
    IkNotFound | IkPermissionDenied | IkAlreadyExists | IkNotADirectory | IkIsADirectory
  | IkDirectoryNotEmpty | IkInterrupted | IkWriteZero | IkInvalidInput | IkOther

definition io_to_code :: "IoKind \<Rightarrow> ErrorCode" where
  "io_to_code k =
    (case k of
       IkNotFound \<Rightarrow> NotFound
     | IkPermissionDenied \<Rightarrow> PermissionDenied
     | IkAlreadyExists \<Rightarrow> AlreadyExists
     | IkNotADirectory \<Rightarrow> NotADirectory
     | IkIsADirectory \<Rightarrow> IsADirectory
     | IkDirectoryNotEmpty \<Rightarrow> NotEmpty
     | _ \<Rightarrow> IoError)"

definition or_code :: "IoKind + 'a \<Rightarrow> ErrorCode + 'a" where
  "or_code r = map_err io_to_code r"

section \<open>Sizes\<close>

datatype SizeError = EmptySize | UnknownSuffix char | BadSize | SizeOverflow

text \<open>\<^verbatim>\<open>str::trim\<close>: the UTF-8 encodings of the Unicode White\_Space code points.\<close>

definition white_space :: "string list" where
  "white_space =
     [[CHR 0x0A], '' '', [CHR 0x09], [CHR 0x0B], [CHR 0x0C], [CHR 0x0D],
      [CHR 0xC2, CHR 0x85], [CHR 0xC2, CHR 0xA0], [CHR 0xE1, CHR 0x9A, CHR 0x80]]
     @ map (\<lambda>c. [CHR 0xE2, CHR 0x80, c])
         [CHR 0x80, CHR 0x81, CHR 0x82, CHR 0x83, CHR 0x84, CHR 0x85, CHR 0x86, CHR 0x87,
          CHR 0x88, CHR 0x89, CHR 0x8A, CHR 0xA8, CHR 0xA9, CHR 0xAF]
     @ [[CHR 0xE2, CHR 0x81, CHR 0x9F], [CHR 0xE3, CHR 0x80, CHR 0x80]]"

function trim_seqs :: "string list \<Rightarrow> string \<Rightarrow> string" where
  "trim_seqs ws s =
    (case find (\<lambda>w. w \<noteq> [] \<and> take (length w) s = w) ws of
       None \<Rightarrow> s
     | Some w \<Rightarrow> trim_seqs ws (drop (length w) s))"
  by pat_completeness auto
termination
proof (relation "measure (\<lambda>(ws, s). length s)")
  fix ws :: "string list" and s w :: string
  assume "find (\<lambda>w. w \<noteq> [] \<and> take (length w) s = w) ws = Some w"
  then have "w \<noteq> []" "take (length w) s = w" by (auto simp: find_Some_iff)
  then show "((ws, drop (length w) s), ws, s) \<in> measure (\<lambda>(ws, s). length s)"
    by (cases s) (auto simp: Suc_le_eq)
qed simp

definition trim_ws :: "string \<Rightarrow> string" where
  "trim_ws s = rev (trim_seqs (map rev white_space) (rev (trim_seqs white_space s)))"

text \<open>\<^verbatim>\<open>str::parse::<u64>\<close>: an optional plus sign and at least one decimal digit, no overflow.\<close>

definition parse_u64 :: "string \<Rightarrow> u64 option" where
  "parse_u64 s =
    (let ds = (case s of c # cs \<Rightarrow> if c = CHR ''+'' then cs else s | [] \<Rightarrow> [])
     in if ds = [] \<or> \<not> list_all is_ascii_digit ds then None
        else let n = foldl (\<lambda>a c. 10 * a + digit_value c) 0 ds
             in if n < 2 ^ 64 then Some (of_nat n) else None)"

definition to_ascii_uppercase :: "char \<Rightarrow> char" where
  "to_ascii_uppercase c =
    (if CHR ''a'' \<le> c \<and> c \<le> CHR ''z'' then char_of (of_char c - 32 :: nat) else c)"

definition checked_mul :: "u64 \<Rightarrow> u64 \<Rightarrow> u64 option" where
  "checked_mul a b = (if unat a * unat b < 2 ^ 64 then Some (a * b) else None)"

definition parse_size :: "string \<Rightarrow> SizeError + u64" where
  "parse_size s0 =
    (let s = trim_ws s0 in
     if s = [] then Inl EmptySize
     else let c = to_ascii_uppercase (last s);
              sel = (if c = CHR ''K'' then Inr (butlast s, 1024)
                     else if c = CHR ''M'' then Inr (butlast s, 1024 * 1024)
                     else if c = CHR ''G'' then Inr (butlast s, 1024 * 1024 * 1024)
                     else if is_ascii_digit c then Inr (s, 1)
                     else Inl (UnknownSuffix c))
          in and_then sel (\<lambda>(digits, mult).
               case parse_u64 digits of
                 None \<Rightarrow> Inl BadSize
               | Some n \<Rightarrow> ok_or SizeOverflow (checked_mul n mult)))"

datatype SizeField = SizeBytes u64 | SizeHuman string

fun size_to_bytes :: "SizeField \<Rightarrow> SizeError + u64" where
  "size_to_bytes (SizeBytes n) = Inr n"
| "size_to_bytes (SizeHuman s) = parse_size s"

section \<open>Listening addresses and tokens\<close>

definition is_loopback_listen :: "(string \<Rightarrow> 'addr list option) \<Rightarrow> ('addr \<Rightarrow> bool) \<Rightarrow> string \<Rightarrow> bool" where
  "is_loopback_listen to_socket_addrs is_loopback listen =
    (case to_socket_addrs listen of
       Some addrs \<Rightarrow> list_all is_loopback addrs
     | None \<Rightarrow> False)"

definition as_bytes :: "string \<Rightarrow> bytes" where
  "as_bytes s = map of_char s"

definition token_eq :: "string \<Rightarrow> string \<Rightarrow> bool" where
  "token_eq a b =
    (let a = as_bytes a; b = as_bytes b in
     if length a \<noteq> length b then False
     else foldl (\<lambda>acc (x, y). acc OR (x XOR y)) 0 (zip a b) = 0)"

section \<open>Attributes\<close>

text \<open>What the code reads of \<^verbatim>\<open>std::fs::Metadata\<close>.\<close>

record Metadata =
  md_is_dir :: bool
  md_is_symlink :: bool
  md_len :: u64
  md_modified :: "SystemTime option"
  md_created :: "SystemTime option"
  md_mode :: u32

definition mode_of :: "Metadata \<Rightarrow> u32" where
  "mode_of md = md_mode md AND 0xFFF"

definition attr_from_metadata :: "Metadata \<Rightarrow> u64 \<Rightarrow> Attr" where
  "attr_from_metadata md version =
    (let kind = (if md_is_dir md then Dir else if md_is_symlink md then Symlink else File);
         mtime = (case md_modified md of Some t \<Rightarrow> t | None \<Rightarrow> 0);
         ctime = (case md_created md of Some t \<Rightarrow> t | None \<Rightarrow> mtime)
     in \<lparr> a_kind = kind, a_size = md_len md, a_mtime = mtime, a_ctime = ctime,
          a_mode = mode_of md, a_version = version \<rparr>)"

section \<open>Complete positional I/O\<close>

text \<open>\<^verbatim>\<open>read_at\<close> gets the length of the remaining buffer and an offset and returns the bytes it put
  there; the operating system's state is threaded through.  \<open>buf\<close> is the part already filled.\<close>

partial_function (option) read_loop ::
  "('s \<Rightarrow> nat \<Rightarrow> u64 \<Rightarrow> (IoKind + bytes) \<times> 's) \<Rightarrow> 's \<Rightarrow> nat \<Rightarrow> u64 \<Rightarrow> bytes \<Rightarrow> ((IoKind + bytes) \<times> 's) option" where
  "read_loop read_at s len offset buf =
    (if length buf < len then
       (case read_at s (len - length buf) (offset + of_nat (length buf)) of
          (Inr [], s') \<Rightarrow> Some (Inr buf, s')
        | (Inr (x # xs), s') \<Rightarrow> read_loop read_at s' len offset (buf @ x # xs)
        | (Inl IkInterrupted, s') \<Rightarrow> read_loop read_at s' len offset buf
        | (Inl e, s') \<Rightarrow> Some (Inl e, s'))
     else Some (Inr buf, s))"

definition read_fully ::
  "('s \<Rightarrow> nat \<Rightarrow> u64 \<Rightarrow> (IoKind + bytes) \<times> 's) \<Rightarrow> 's \<Rightarrow> nat \<Rightarrow> u64 \<Rightarrow> ((IoKind + bytes) \<times> 's) option" where
  "read_fully read_at s len offset = read_loop read_at s len offset []"

partial_function (option) write_loop ::
  "('s \<Rightarrow> bytes \<Rightarrow> u64 \<Rightarrow> (IoKind + nat) \<times> 's) \<Rightarrow> 's \<Rightarrow> bytes \<Rightarrow> u64 \<Rightarrow> nat \<Rightarrow> ((IoKind + unit) \<times> 's) option" where
  "write_loop write_at s buf offset done =
    (if done < length buf then
       (case write_at s (drop done buf) (offset + of_nat done) of
          (Inr 0, s') \<Rightarrow> Some (Inl IkWriteZero, s')
        | (Inr (Suc n), s') \<Rightarrow> write_loop write_at s' buf offset (done + Suc n)
        | (Inl IkInterrupted, s') \<Rightarrow> write_loop write_at s' buf offset done
        | (Inl e, s') \<Rightarrow> Some (Inl e, s'))
     else Some (Inr (), s))"

definition write_fully ::
  "('s \<Rightarrow> bytes \<Rightarrow> u64 \<Rightarrow> (IoKind + nat) \<times> 's) \<Rightarrow> 's \<Rightarrow> bytes \<Rightarrow> u64 \<Rightarrow> ((IoKind + unit) \<times> 's) option" where
  "write_fully write_at s buf offset = write_loop write_at s buf offset 0"

declare read_loop.simps [code] write_loop.simps [code]

section \<open>Laws\<close>

lemma of_char_byte_inject: "(of_char c :: u8) = of_char d \<longleftrightarrow> c = d"
proof
  assume eq: "(of_char c :: u8) = of_char d"
  have "of_char e = (of_nat (of_char e) :: u8)" for e by (simp only: of_nat_of_char)
  then have "(of_nat (of_char c) :: u8) = of_nat (of_char d)" using eq by metis
  then have "(of_char c :: nat) mod 256 = of_char d mod 256"
    by (simp add: word_of_nat_eq_iff take_bit_eq_mod)
  then have "(of_char c :: nat) = of_char d" by simp
  then show "c = d" by simp
qed simp

lemma as_bytes_inject: "as_bytes a = as_bytes b \<longleftrightarrow> a = b"
  unfolding as_bytes_def
  by (induction a b rule: list_induct2') (auto simp: of_char_byte_inject)

lemma or_zero_iff: "(x OR y = 0) \<longleftrightarrow> x = 0 \<and> y = (0 :: 'a::len word)"
  by (auto simp: bit_eq_iff bit_or_iff)

lemma xor_zero_iff: "(x XOR y = 0) \<longleftrightarrow> x = (y :: 'a::len word)"
  by (auto simp: bit_eq_iff bit_xor_iff)

lemma fold_or_zero:
  "length a = length b \<Longrightarrow>
   foldl (\<lambda>acc (x, y). acc OR (x XOR y)) c (zip a b) = 0 \<longleftrightarrow> c = 0 \<and> a = (b :: bytes)"
  by (induction a b arbitrary: c rule: list_induct2) (auto simp: or_zero_iff xor_zero_iff)

lemma token_eq_iff: "token_eq a b \<longleftrightarrow> a = b"
proof (cases "length a = length b")
  case True
  then have "length (as_bytes a) = length (as_bytes b)" by (simp add: as_bytes_def)
  then show ?thesis by (simp add: token_eq_def fold_or_zero as_bytes_inject)
qed (auto simp: token_eq_def as_bytes_def)

section \<open>The positional loops against a file\<close>

text \<open>What POSIX promises of \<^verbatim>\<open>pread\<close> and \<^verbatim>\<open>pwrite\<close> on a regular file, short transfers and
  interruptions included: \<open>content\<close> reads the file's bytes off the operating system's state and
  \<open>patience\<close> bounds the interruptions still to come.\<close>

definition put_at :: "nat \<Rightarrow> bytes \<Rightarrow> bytes \<Rightarrow> bytes" where
  "put_at off b c = take off c @ replicate (off - length c) 0 @ b @ drop (off + length b) c"

definition pread_ok ::
  "('s \<Rightarrow> nat \<Rightarrow> u64 \<Rightarrow> (IoKind + bytes) \<times> 's) \<Rightarrow> ('s \<Rightarrow> bytes) \<Rightarrow> ('s \<Rightarrow> nat) \<Rightarrow> bool" where
  "pread_ok read_at content patience = (\<forall>s n off. n > 0 \<longrightarrow>
     (case read_at s n off of
        (Inr bs, s') \<Rightarrow> content s' = content s \<and> length bs \<le> n
          \<and> bs = take (length bs) (drop (unat off) (content s))
          \<and> (bs = [] \<longrightarrow> length (content s) \<le> unat off)
      | (Inl e, s') \<Rightarrow> e = IkInterrupted \<and> content s' = content s \<and> patience s' < patience s))"

definition pwrite_ok ::
  "('s \<Rightarrow> bytes \<Rightarrow> u64 \<Rightarrow> (IoKind + nat) \<times> 's) \<Rightarrow> ('s \<Rightarrow> bytes) \<Rightarrow> ('s \<Rightarrow> nat) \<Rightarrow> bool" where
  "pwrite_ok write_at content patience = (\<forall>s b off. b \<noteq> [] \<longrightarrow>
     (case write_at s b off of
        (Inr n, s') \<Rightarrow> 0 < n \<and> n \<le> length b \<and> content s' = put_at (unat off) (take n b) (content s)
      | (Inl e, s') \<Rightarrow> e = IkInterrupted \<and> content s' = content s \<and> patience s' < patience s))"

lemma put_at_append: "put_at (off + length a) b (put_at off a c) = put_at off (a @ b) c"
proof -
  define P where "P = take off c @ replicate (off - length c) 0"
  define D where "D = drop (off + length a) c"
  have len: "length P = off" by (simp add: P_def)
  have inner: "put_at off a c = P @ a @ D" by (simp add: put_at_def P_def D_def)
  have "put_at (off + length a) b (P @ a @ D) = P @ a @ b @ drop (length b) D"
    by (simp add: put_at_def len)
  also have "drop (length b) D = drop (off + length (a @ b)) c" by (simp add: D_def add.commute add.left_commute)
  finally show ?thesis unfolding inner by (simp add: put_at_def P_def)
qed

lemma put_at_Nil: "off \<le> length c \<Longrightarrow> put_at off [] c = c"
  by (simp add: put_at_def)

lemma unat_offset_add:
  "unat (off :: u64) + n < 2 ^ 64 \<Longrightarrow> unat (off + of_nat n) = unat off + n"
  by (simp add: unat_word_ariths unat_of_nat mod_add_right_eq)

lemma read_loop_complete:
  assumes ok: "pread_ok read_at content patience"
    and "unat off + len < 2 ^ 64"
    and "length buf \<le> len" "buf = take (length buf) (drop (unat off) (content s))"
  shows "\<exists>s'. read_loop read_at s len off buf
      = Some (Inr (take len (drop (unat off) (content s))), s')"
  using assms(3,4)
proof (induction "(len - length buf, patience s)" arbitrary: buf s rule: wf_induct_rule [OF wf_lex_prod [OF wf_less_than wf_less_than]])
  case 1
  show ?case
  proof (cases "length buf < len")
    case False
    then show ?thesis using 1 by (subst read_loop.simps) simp
  next
    case True
    obtain r s' where step: "read_at s (len - length buf) (off + of_nat (length buf)) = (r, s')"
      by fastforce
    have off: "unat (off + of_nat (length buf)) = unat off + length buf"
      using assms(2) True by (intro unat_offset_add) linarith
    note law = ok [unfolded pread_ok_def, rule_format, of "len - length buf" s "off + of_nat (length buf)"]
    show ?thesis
    proof (cases r)
      case (Inl e)
      then have e: "e = IkInterrupted" "content s' = content s" "patience s' < patience s"
        using law step True by auto
      then have "\<exists>s''. read_loop read_at s' len off buf
          = Some (Inr (take len (drop (unat off) (content s'))), s'')"
        using 1 by (intro 1(1)) auto
      then show ?thesis using True step Inl e by (subst read_loop.simps) simp
    next
      case (Inr bs)
      then have bs: "content s' = content s" "length bs \<le> len - length buf"
        "bs = take (length bs) (drop (unat off + length buf) (content s))"
        "bs = [] \<Longrightarrow> length (content s) \<le> unat off + length buf"
        using law step True off by auto
      show ?thesis
      proof (cases bs)
        case Nil
        then have "drop (unat off) (content s) = buf"
          using 1 bs(4) by (metis diff_le_mono diff_add_inverse length_drop take_all)
        then show ?thesis using True step Inr Nil by (subst read_loop.simps) simp
      next
        case (Cons x xs)
        have pre: "buf @ bs = take (length (buf @ bs)) (drop (unat off) (content s'))"
          using 1(3) bs(1,3) by (metis add.commute drop_drop length_append take_add)
        have "((len - length (buf @ bs), patience s'), len - length buf, patience s)
            \<in> less_than <*lex*> less_than" "length (buf @ bs) \<le> len"
          using bs(2) Cons True by auto
        then have "\<exists>s''. read_loop read_at s' len off (buf @ bs)
            = Some (Inr (take len (drop (unat off) (content s'))), s'')"
          using 1(1) pre by blast
        then show ?thesis using True step Inr Cons bs(1) by (subst read_loop.simps) simp
      qed
    qed
  qed
qed

lemma write_loop_complete:
  assumes ok: "pwrite_ok write_at content patience"
    and "unat off + length buf < 2 ^ 64"
    and "n \<le> length buf" "content s = put_at (unat off) (take n buf) c" "0 < n \<or> unat off \<le> length c"
  shows "\<exists>s'. write_loop write_at s buf off n = Some (Inr (), s') \<and> content s' = put_at (unat off) buf c"
  using assms(3-)
proof (induction "(length buf - n, patience s)" arbitrary: n s rule: wf_induct_rule [OF wf_lex_prod [OF wf_less_than wf_less_than]])
  case 1
  show ?case
  proof (cases "n < length buf")
    case False
    then show ?thesis using 1 by (subst write_loop.simps) simp
  next
    case True
    obtain r s' where step: "write_at s (drop n buf) (off + of_nat n) = (r, s')" by fastforce
    have off: "unat (off + of_nat n) = unat off + n"
      using assms(2) True by (intro unat_offset_add) linarith
    have law: "case (r, s') of
        (Inr m, s') \<Rightarrow> 0 < m \<and> m \<le> length (drop n buf)
          \<and> content s' = put_at (unat off + n) (take m (drop n buf)) (content s)
      | (Inl e, s') \<Rightarrow> e = IkInterrupted \<and> content s' = content s \<and> patience s' < patience s"
      using ok [unfolded pwrite_ok_def, rule_format, of "drop n buf" s "off + of_nat n"] step True off
      by (cases r) auto
    show ?thesis
    proof (cases r)
      case (Inl e)
      then have e: "e = IkInterrupted" "content s' = content s" "patience s' < patience s"
        using law by auto
      then have "\<exists>s''. write_loop write_at s' buf off n = Some (Inr (), s'')
          \<and> content s'' = put_at (unat off) buf c"
        using 1 by (intro 1(1)) auto
      then show ?thesis using True step Inl e by (subst write_loop.simps) simp
    next
      case (Inr m)
      then have m: "0 < m" "m \<le> length buf - n"
        "content s' = put_at (unat off + n) (take m (drop n buf)) (content s)" using law by auto
      have "content s' = put_at (unat off) (take (n + m) buf) c"
      proof (cases n)
        case 0
        then show ?thesis using m 1(3,4) by (simp add: put_at_Nil)
      next
        case (Suc k)
        then have "length (take n buf) = n" "take n buf \<noteq> []" using True by auto
        then show ?thesis
          using m(3) 1(3) put_at_append [of "unat off" "take n buf" "take m (drop n buf)" c]
          by (simp add: take_add)
      qed
      then have "\<exists>s''. write_loop write_at s' buf off (n + m) = Some (Inr (), s'')
          \<and> content s'' = put_at (unat off) buf c"
        using m by (intro 1(1)) auto
      then show ?thesis using True step Inr m by (subst write_loop.simps) (auto split: nat.splits)
    qed
  qed
qed

section \<open>Properties\<close>

text \<open>The constant-time comparison that guards the TCP and HTTP tokens accepts exactly the equal
  tokens.\<close>

theorem token_eq_exact: "token_eq a b \<longleftrightarrow> a = b"
  by (rule token_eq_iff)

text \<open>C21: over a file whose positional reads may be short or interrupted, \<open>read_fully\<close> returns, and
  returns exactly the requested window of the file cut at its end.\<close>

theorem read_fully_complete:
  assumes "pread_ok read_at content patience" "unat off + len < 2 ^ 64"
  shows "\<exists>s'. read_fully read_at s len off = Some (Inr (take len (drop (unat off) (content s))), s')"
  using read_loop_complete [OF assms, of "[]"] by (simp add: read_fully_def)

text \<open>One byte per call, every call interrupted once first.\<close>

fun slow_read :: "bytes \<times> nat \<Rightarrow> nat \<Rightarrow> u64 \<Rightarrow> (IoKind + bytes) \<times> (bytes \<times> nat)" where
  "slow_read (c, Suc k) n off = (Inl IkInterrupted, (c, k))"
| "slow_read (c, 0) n off = (Inr (take 1 (drop (unat off) c)), (c, 1))"

theorem read_fully_complete_witness:
  "\<exists>s'. read_fully slow_read ([1, 2, 3, 4, 5], 1) 3 1 = Some (Inr [2, 3, 4], s')"
proof -
  have "pread_ok slow_read fst snd"
    unfolding pread_ok_def
  proof (intro allI impI)
    fix s :: "bytes \<times> nat" and n :: nat and off :: u64
    assume "n > 0"
    then show "case slow_read s n off of
        (Inr bs, s') \<Rightarrow> fst s' = fst s \<and> length bs \<le> n
          \<and> bs = take (length bs) (drop (unat off) (fst s))
          \<and> (bs = [] \<longrightarrow> length (fst s) \<le> unat off)
      | (Inl e, s') \<Rightarrow> e = IkInterrupted \<and> fst s' = fst s \<and> snd s' < snd s"
      by (cases "(s, n, off)" rule: slow_read.cases) (auto simp: min_def)
  qed
  then show ?thesis
    using read_fully_complete [of slow_read fst snd 1 3 "([1, 2, 3, 4, 5], 1)"] by simp
qed

text \<open>Over a file whose positional writes may be short or interrupted, \<open>write_fully\<close> returns
  success, and the file then holds the whole buffer at the offset and its old bytes elsewhere.\<close>

theorem write_fully_complete:
  assumes "pwrite_ok write_at content patience" "unat off + length buf < 2 ^ 64"
    and "unat off \<le> length (content s)"
  shows "\<exists>s'. write_fully write_at s buf off = Some (Inr (), s')
    \<and> content s' = put_at (unat off) buf (content s)"
  using write_loop_complete [OF assms(1,2), of 0 s "content s"] assms(3)
  by (simp add: write_fully_def put_at_Nil)

fun slow_write :: "bytes \<times> nat \<Rightarrow> bytes \<Rightarrow> u64 \<Rightarrow> (IoKind + nat) \<times> (bytes \<times> nat)" where
  "slow_write (c, Suc k) b off = (Inl IkInterrupted, (c, k))"
| "slow_write (c, 0) b off = (Inr 1, (put_at (unat off) (take 1 b) c, 1))"

theorem write_fully_complete_witness:
  "\<exists>s'. write_fully slow_write ([1, 2, 3], 0) [8, 9] 2 = Some (Inr (), s') \<and> fst s' = [1, 2, 8, 9]"
proof -
  have "pwrite_ok slow_write fst snd"
    unfolding pwrite_ok_def
  proof (intro allI impI)
    fix s :: "bytes \<times> nat" and b :: bytes and off :: u64
    assume "b \<noteq> []"
    then show "case slow_write s b off of
        (Inr n, s') \<Rightarrow> 0 < n \<and> n \<le> length b \<and> fst s' = put_at (unat off) (take n b) (fst s)
      | (Inl e, s') \<Rightarrow> e = IkInterrupted \<and> fst s' = fst s \<and> snd s' < snd s"
      by (cases "(s, b, off)" rule: slow_write.cases) (auto simp: Suc_le_eq)
  qed
  then show ?thesis
    using write_fully_complete [of slow_write fst snd 2 "[8, 9]" "([1, 2, 3], 0)"]
    by (simp add: put_at_def)
qed

end
