(* ===== verification/Exclude.thy ===== *)
theory Exclude
  imports Proto
begin

text \<open>
  \<^verbatim>\<open>crates/alloyfs-common/src/exclude.rs\<close>: the expansion of user patterns into globs and the
  exclusion test both ends of the wire share.

  The glob engine (globset) is outside the repository: a \<open>glob_lib\<close> value says which patterns
  compile and what each matches, with the case flag of the builder.  A compiled set is the list
  of its patterns.  \<open>glob_literal_ok\<close> is the part of globset's documentation the laws use.
\<close>

record glob_lib =
  glob_compiles :: "string \<Rightarrow> bool"
  glob_matches :: "bool \<Rightarrow> string \<Rightarrow> string \<Rightarrow> bool" \<comment> \<open>case-insensitive, pattern, path\<close>

type_synonym GlobSet = "(bool \<times> string) list"

record ExcludeSet =
  es_set :: GlobSet
  es_empty :: bool
  es_artifacts :: "GlobSet option"

datatype ExcludeError = EmptyPattern | BadPattern string

definition LOCAL_ARTIFACTS :: "string list" where
  "LOCAL_ARTIFACTS =
    [''System Volume Information'', ''$RECYCLE.BIN'', ''RECYCLER'', ''Thumbs.db'', ''ehthumbs.db'',
     ''desktop.ini'', ''.DS_Store'', ''.Spotlight-V100'', ''.Trashes'', ''.fseventsd'',
     ''.TemporaryItems'', ''.DocumentRevisions-V100'', ''.AppleDouble'', ''lost+found'', ''.Trash-*'']"

definition glob_set_match :: "glob_lib \<Rightarrow> GlobSet \<Rightarrow> string \<Rightarrow> bool" where
  "glob_set_match lib gs s = list_ex (\<lambda>(ci, p). glob_matches lib ci p s) gs"

definition variants :: "string \<Rightarrow> string list" where
  "variants p = [p, p @ ''/**''] @ (if CHR ''/'' \<notin> set p then [''**/'' @ p, ''**/'' @ p @ ''/**''] else [])"

fun compile_loop :: "glob_lib \<Rightarrow> bool \<Rightarrow> string list \<Rightarrow> GlobSet \<Rightarrow> ExcludeError + GlobSet" where
  "compile_loop lib ci [] acc = Inr acc"
| "compile_loop lib ci (p0 # ps) acc =
    (let p = trim_end (\<lambda>c. c = CHR ''/'') p0 in
     if p = [] then Inl EmptyPattern
     else if list_all (glob_compiles lib) (variants p)
     then compile_loop lib ci ps (acc @ map (Pair ci) (variants p))
     else Inl (BadPattern p))"

definition compile :: "glob_lib \<Rightarrow> string list \<Rightarrow> bool \<Rightarrow> ExcludeError + ExcludeSet" where
  "compile lib patterns case_insensitive =
    and_then (compile_loop lib case_insensitive patterns []) (\<lambda>gs.
      Inr \<lparr> es_set = gs, es_empty = (patterns = []), es_artifacts = None \<rparr>)"

definition compile_with_defaults :: "glob_lib \<Rightarrow> string list \<Rightarrow> bool \<Rightarrow> ExcludeError + ExcludeSet" where
  "compile_with_defaults lib patterns case_insensitive =
    and_then (compile lib patterns case_insensitive) (\<lambda>es.
      and_then (compile lib LOCAL_ARTIFACTS True) (\<lambda>art.
        Inr (es\<lparr>es_artifacts := Some (es_set art)\<rparr>)))"

definition is_excluded :: "glob_lib \<Rightarrow> ExcludeSet \<Rightarrow> RelPath \<Rightarrow> bool" where
  "is_excluded lib es path =
    (if is_root path then False
     else if (case es_artifacts es of Some a \<Rightarrow> glob_set_match lib a path | None \<Rightarrow> False) then True
     else if es_empty es then False
     else glob_set_match lib (es_set es) path)"

definition no_excludes :: ExcludeSet where
  "no_excludes = \<lparr> es_set = [], es_empty = True, es_artifacts = None \<rparr>"

section \<open>Documented behaviour of globset\<close>

text \<open>Patterns without metacharacters are literal; with \<^verbatim>\<open>literal_separator\<close> the \<^verbatim>\<open>**/\<close> prefix
  matches in every directory and the \<^verbatim>\<open>/**\<close> suffix every strict descendant.\<close>

definition literal :: "string \<Rightarrow> bool" where
  "literal p = (p \<noteq> [] \<and> list_all (\<lambda>c. c \<notin> {CHR ''*'', CHR ''?'', CHR ''['', CHR '']'', CHR ''{'', CHR ''}'', CHR '','', CHR 0x5C}) p)"

definition under :: "string \<Rightarrow> string \<Rightarrow> bool" where
  "under p s = (\<exists>r. r \<noteq> [] \<and> s = p @ CHR ''/'' # r)"

definition glob_literal_ok :: "glob_lib \<Rightarrow> bool" where
  "glob_literal_ok lib = (\<forall>p s. literal p \<longrightarrow>
      list_all (glob_compiles lib) [p, p @ ''/**'', ''**/'' @ p, ''**/'' @ p @ ''/**'']
    \<and> (glob_matches lib False p s \<longleftrightarrow> s = p)
    \<and> (glob_matches lib False (p @ ''/**'') s \<longleftrightarrow> under p s)
    \<and> (glob_matches lib False (''**/'' @ p) s \<longleftrightarrow> s = p \<or> (\<exists>q. s = q @ CHR ''/'' # p))
    \<and> (glob_matches lib False (''**/'' @ p @ ''/**'') s \<longleftrightarrow> under p s \<or> (\<exists>q. under (q @ CHR ''/'' # p) s)))"

section \<open>Laws\<close>

lemma is_excluded_root [simp]: "\<not> is_excluded lib es []"
  by (simp add: is_excluded_def is_root_def)

lemma no_excludes_none [simp]: "\<not> is_excluded lib no_excludes s"
  by (simp add: is_excluded_def no_excludes_def)

lemma compile_empty: "compile lib [] ci = Inr no_excludes"
  by (simp add: compile_def no_excludes_def)

lemma compile_loop_set:
  "compile_loop lib ci ps acc = Inr gs \<Longrightarrow>
   gs = acc @ concat (map (\<lambda>p. map (Pair ci) (variants (trim_end (\<lambda>c. c = CHR ''/'') p))) ps)"
proof (induction ps arbitrary: acc)
  case (Cons p ps)
  let ?v = "map (Pair ci) (variants (trim_end (\<lambda>c. c = CHR ''/'') p))"
  have "compile_loop lib ci ps (acc @ ?v) = Inr gs"
    using Cons.prems by (simp add: Let_def split: if_splits)
  then show ?case using Cons.IH [of "acc @ ?v"] by simp
qed simp

text \<open>Where a component sits in a path: at the start, in the middle or at the end.\<close>

lemma component_positions:
  assumes "CHR ''/'' \<notin> set n" "list_all (\<lambda>c. c \<noteq> []) (split_on CHR ''/'' s)" "n \<noteq> []"
  shows "n \<in> set (split_on CHR ''/'' s) \<longleftrightarrow>
    s = n \<or> under n s \<or> (\<exists>q. s = q @ CHR ''/'' # n) \<or> (\<exists>q. under (q @ CHR ''/'' # n) s)"
    (is "?l \<longleftrightarrow> ?r")
proof
  assume ?l
  then obtain xs ys where xy: "split_on CHR ''/'' s = xs @ n # ys" by (meson split_list)
  have s: "s = join_on CHR ''/'' (xs @ n # ys)" using join_split_on [of "CHR ''/''" s] xy by simp
  have ne: "join_on CHR ''/'' (y # ys') \<noteq> []" if "y \<noteq> []" for y ys'
    using that by (cases ys') auto
  have jn: "join_on CHR ''/'' (a # as @ b # bs) = join_on CHR ''/'' (a # as) @ CHR ''/'' # join_on CHR ''/'' (b # bs)" for a as b bs
    by (induction as arbitrary: a) auto
  show ?r
  proof (cases xs; cases ys)
    fix y ys' assume "xs = []" "ys = y # ys'"
    moreover then have "y \<noteq> []" using assms(2) xy by simp
    ultimately show ?r using s ne [of y ys'] by (auto simp: under_def)
  next
    fix x xs' assume "xs = x # xs'" "ys = []"
    then show ?r using s jn [of x xs' n "[]"] by auto
  next
    fix x xs' y ys' assume c: "xs = x # xs'" "ys = y # ys'"
    then have "y \<noteq> []" using assms(2) xy by simp
    then show ?r using s c jn [of x xs' n ys] ne [of y ys'] by (auto simp: under_def)
  qed (use s in auto)
next
  assume ?r
  then show ?l using assms(1)
    by (auto simp: under_def path_simps)
qed

lemma literal_no_slash_variants:
  "CHR ''/'' \<notin> set n \<Longrightarrow> variants n = [n, n @ ''/**'', ''**/'' @ n, ''**/'' @ n @ ''/**'']"
  by (simp add: variants_def)

lemma trim_end_no_slash: "CHR ''/'' \<notin> set n \<Longrightarrow> trim_end (\<lambda>c. c = CHR ''/'') n = n"
  by (cases n rule: rev_cases) (auto simp: trim_end_def)

lemma bare_name_match:
  assumes "glob_literal_ok lib" "literal n" "CHR ''/'' \<notin> set n" "valid s" "s \<noteq> []"
  shows "list_ex (\<lambda>p. glob_matches lib False p s) (variants n) \<longleftrightarrow> n \<in> set (components s)"
proof -
  have "n \<noteq> []" using assms(2) by (simp add: literal_def)
  moreover have "list_all (\<lambda>c. c \<noteq> []) (split_on CHR ''/'' s)"
    using assms(4,5) by (auto simp: valid_iff_components components_def list_all_iff name_ok_def)
  ultimately have "n \<in> set (components s) \<longleftrightarrow>
    s = n \<or> under n s \<or> (\<exists>q. s = q @ CHR ''/'' # n) \<or> (\<exists>q. under (q @ CHR ''/'' # n) s)"
    using component_positions [of n s] assms(3,5) by (simp add: components_def)
  moreover have "glob_matches lib False n s \<longleftrightarrow> s = n"
    "glob_matches lib False (n @ ''/**'') s \<longleftrightarrow> under n s"
    "glob_matches lib False (''**/'' @ n) s \<longleftrightarrow> s = n \<or> (\<exists>q. s = q @ CHR ''/'' # n)"
    "glob_matches lib False (''**/'' @ n @ ''/**'') s \<longleftrightarrow> under n s \<or> (\<exists>q. under (q @ CHR ''/'' # n) s)"
    using assms(1,2) unfolding glob_literal_ok_def by blast+
  ultimately show ?thesis
    unfolding literal_no_slash_variants [OF assms(3)] list_ex_iff by auto
qed

section \<open>Properties\<close>

text \<open>C20: a bare name in the exclude list hides exactly the paths that have that name as one of their
  components, at any depth and with everything below it, and never the export root.\<close>

theorem exclude_bare_names:
  assumes "glob_literal_ok lib" "list_all (\<lambda>n. literal n \<and> CHR ''/'' \<notin> set n) ns" "valid s"
  shows "\<exists>es. compile lib ns False = Inr es
    \<and> (is_excluded lib es s \<longleftrightarrow> set ns \<inter> set (components s) \<noteq> {})"
proof -
  have ok: "compile_loop lib False ms acc = Inr (acc @ concat (map (\<lambda>n. map (Pair False) (variants n)) ms))"
    if "set ms \<subseteq> set ns" for ms acc
    using that
  proof (induction ms arbitrary: acc)
    case (Cons m ms)
    then have m: "literal m" "CHR ''/'' \<notin> set m" using assms(2) by (auto simp: list_all_iff)
    then have "list_all (glob_compiles lib) (variants m)"
      unfolding literal_no_slash_variants [OF m(2)]
      using assms(1) m(1) unfolding glob_literal_ok_def by blast
    moreover have "m \<noteq> []" using m by (simp add: literal_def)
    ultimately show ?case using Cons m by (simp add: trim_end_no_slash Let_def)
  qed simp
  let ?gs = "concat (map (\<lambda>n. map (Pair False) (variants n)) ns)"
  have "glob_set_match lib ?gs s \<longleftrightarrow> (\<exists>n\<in>set ns. list_ex (\<lambda>p. glob_matches lib False p s) (variants n))"
    by (auto simp: glob_set_match_def list_ex_iff)
  also have "\<dots> \<longleftrightarrow> set ns \<inter> set (components s) \<noteq> {}" if "s \<noteq> []"
    using bare_name_match [OF assms(1) _ _ assms(3) that] assms(2) by (auto simp: list_all_iff)
  finally have "is_excluded lib \<lparr> es_set = ?gs, es_empty = (ns = []), es_artifacts = None \<rparr> s
      \<longleftrightarrow> set ns \<inter> set (components s) \<noteq> {}"
    by (auto simp: is_excluded_def is_root_def components_def)
  then show ?thesis using ok [of ns "[]"] by (simp add: compile_def)
qed

text \<open>A literal-only glob engine for the witness.\<close>

definition strip_suffix :: "string \<Rightarrow> string \<Rightarrow> string option" where
  "strip_suffix x s = map_option rev (strip_prefix (rev x) (rev s))"

definition literal_globs :: glob_lib where
  "literal_globs = \<lparr>
     glob_compiles = (\<lambda>_. True),
     glob_matches = (\<lambda>ci pat s.
       let (deep, rest) = (case strip_prefix ''**/'' pat of Some r \<Rightarrow> (True, r) | None \<Rightarrow> (False, pat));
           (below, core) = (case strip_suffix ''/**'' rest of Some r \<Rightarrow> (True, r) | None \<Rightarrow> (False, rest))
       in if below then under core s \<or> deep \<and> (\<exists>q. under (q @ CHR ''/'' # core) s)
          else s = core \<or> deep \<and> (\<exists>q. s = q @ CHR ''/'' # core)) \<rparr>"

lemma literal_no_deep: "literal p \<Longrightarrow> strip_prefix ''**/'' (p @ q) = None"
  by (cases p) (auto simp: literal_def)

lemma literal_no_below: "literal p \<Longrightarrow> strip_suffix ''/**'' p = None"
  by (cases p rule: rev_cases) (auto simp: literal_def strip_suffix_def)

lemma strip_suffix_append: "strip_suffix x (s @ x) = Some s"
  by (simp add: strip_suffix_def)

lemma literal_globs_ok: "glob_literal_ok literal_globs"
  unfolding glob_literal_ok_def
proof (intro allI impI)
  fix p s :: string
  assume p: "literal p"
  have "strip_prefix ''**/'' p = None" "strip_prefix ''**/'' (p @ ''/**'') = None"
    using literal_no_deep [OF p, of "[]"] literal_no_deep [OF p] by simp_all
  moreover have "strip_prefix ''**/'' (''**/'' @ q) = Some q" for q :: string by simp
  ultimately show "list_all (glob_compiles literal_globs) [p, p @ ''/**'', ''**/'' @ p, ''**/'' @ p @ ''/**'']
    \<and> (glob_matches literal_globs False p s \<longleftrightarrow> s = p)
    \<and> (glob_matches literal_globs False (p @ ''/**'') s \<longleftrightarrow> under p s)
    \<and> (glob_matches literal_globs False (''**/'' @ p) s \<longleftrightarrow> s = p \<or> (\<exists>q. s = q @ CHR ''/'' # p))
    \<and> (glob_matches literal_globs False (''**/'' @ p @ ''/**'') s \<longleftrightarrow>
         under p s \<or> (\<exists>q. under (q @ CHR ''/'' # p) s))"
    using literal_no_below [OF p] strip_suffix_append [of "''/**''" p]
    by (simp add: literal_globs_def)
qed

theorem exclude_bare_names_witness:
  "\<exists>es. compile literal_globs [''node_modules''] False = Inr es
     \<and> (is_excluded literal_globs es ''web/node_modules/x.js'' \<longleftrightarrow>
          set [''node_modules''] \<inter> set (components ''web/node_modules/x.js'') \<noteq> {})"
  by (rule exclude_bare_names [OF literal_globs_ok])
    (simp_all add: literal_def valid_iff_components components_def name_ok_def)

end
