(* ===== verification/Coalesce.thy ===== *)
theory Coalesce
  imports Exclude "HOL-Library.Multiset"
begin

text \<open>
  \<^verbatim>\<open>crates/alloyfs-common/src/coalesce.rs\<close>: the event coalescer shared by the agent's watcher and
  the sync engine.  The state is the source's struct; \<open>ingest\<close>, \<open>push\<close>, \<open>merge\<close>, \<open>take_batch\<close> and
  \<open>rel_of\<close> follow the code branch by branch.  The clock is an argument.

  The laws show that the table \<open>merge\<close> computes the net effect of a window on one path, that the
  whole coalescer refines a per-path specification (\<open>spec_batch\<close>), that excluded paths never
  leave it, and that a rename reported three times comes out once.
\<close>

section \<open>Raw events\<close>

text \<open>What the source distinguishes of the watcher library's events.  A path is its component list.\<close>

type_synonym abs_path = "string list"

datatype RenameMode = RmAny | RmTo | RmFrom | RmBoth | RmOther

datatype NotifyKind =
    NkAny | NkAccess | NkCreate | NkModifyName RenameMode | NkModifyMetadata | NkModifyOther
  | NkRemove | NkOther

record NotifyEvent =
  ne_kind :: NotifyKind
  ne_paths :: "abs_path list"

definition rel_of :: "abs_path \<Rightarrow> abs_path \<Rightarrow> RelPath option" where
  "rel_of root path =
    (case strip_prefix root path of
       None \<Rightarrow> None
     | Some rel \<Rightarrow>
         let s = join_on CHR ''/'' rel in
         if \<not> utf8_valid s then None
         else if s = [] then None
         else Some (map (\<lambda>c. if c = CHR 0x5C then CHR ''/'' else c) s))"

section \<open>State\<close>

record Pending =
  pe_kind :: EventKind
  pe_first_seen :: nat

record Coalescer =
  c_root :: abs_path
  c_exclude :: ExcludeSet
  c_pending :: "(RelPath, Pending) hmap"
  c_renames :: "(RelPath \<times> RelPath) list"
  c_renamed_from :: "RelPath set"
  c_renamed_to :: "RelPath set"

definition coalescer_new :: "abs_path \<Rightarrow> ExcludeSet \<Rightarrow> Coalescer" where
  "coalescer_new root exclude =
    \<lparr> c_root = root, c_exclude = exclude, c_pending = [], c_renames = [],
      c_renamed_from = {}, c_renamed_to = {} \<rparr>"

definition coalescer_is_empty :: "Coalescer \<Rightarrow> bool" where
  "coalescer_is_empty c = (c_pending c = [] \<and> c_renames c = [])"

definition coalescer_len :: "Coalescer \<Rightarrow> nat" where
  "coalescer_len c = length (c_pending c) + length (c_renames c)"

definition oldest_age :: "nat \<Rightarrow> Coalescer \<Rightarrow> nat option" where
  "oldest_age now c =
    (case map (\<lambda>(_, p). now - pe_first_seen p) (c_pending c) of
       [] \<Rightarrow> None
     | a # as \<Rightarrow> Some (foldl min a as))"

section \<open>Operations\<close>

fun merge :: "EventKind option \<Rightarrow> EventKind \<Rightarrow> EventKind option" where
  "merge (Some Created) Modified = Some Created"
| "merge (Some Created) AttrChanged = Some Created"
| "merge (Some Created) Removed = None"
| "merge (Some _) Removed = Some Removed"
| "merge (Some Removed) Created = Some Modified"
| "merge (Some AttrChanged) Modified = Some Modified"
| "merge (Some Modified) AttrChanged = Some Modified"
| "merge _ (RenamedFrom t) = Some (RenamedFrom t)"
| "merge _ ResyncRequired = Some ResyncRequired"
| "merge (Some old) _ = Some old"
| "merge None ev = Some ev"

definition push :: "glob_lib \<Rightarrow> nat \<Rightarrow> RelPath \<Rightarrow> EventKind \<Rightarrow> Coalescer \<Rightarrow> Coalescer" where
  "push lib now path kind c =
    (if is_excluded lib (c_exclude c) path then c
     else case merge (map_option pe_kind (hm_get (c_pending c) path)) kind of
            Some k \<Rightarrow>
              let first_seen = (case hm_get (c_pending c) path of Some p \<Rightarrow> pe_first_seen p | None \<Rightarrow> now)
              in c\<lparr>c_pending := hm_put path \<lparr>pe_kind = k, pe_first_seen = first_seen\<rparr> (c_pending c)\<rparr>
          | None \<Rightarrow> c\<lparr>c_pending := hm_del path (c_pending c)\<rparr>)"

text \<open>Drop a pending entry only when it is exactly the given half of a rename.\<close>

definition purge :: "RelPath \<Rightarrow> EventKind \<Rightarrow> (RelPath, Pending) hmap \<Rightarrow> (RelPath, Pending) hmap" where
  "purge path kind m =
    (case hm_get m path of
       Some p \<Rightarrow> if pe_kind p = kind then hm_del path m else m
     | None \<Rightarrow> m)"

fun push_all :: "glob_lib \<Rightarrow> nat \<Rightarrow> EventKind \<Rightarrow> abs_path list \<Rightarrow> Coalescer \<Rightarrow> Coalescer" where
  "push_all lib now kind [] c = c"
| "push_all lib now kind (p # ps) c =
    push_all lib now kind ps
      (case rel_of (c_root c) p of Some rel \<Rightarrow> push lib now rel kind c | None \<Rightarrow> c)"

definition ingest_both :: "glob_lib \<Rightarrow> nat \<Rightarrow> RelPath \<Rightarrow> RelPath \<Rightarrow> Coalescer \<Rightarrow> Coalescer" where
  "ingest_both lib now f t c =
    (let fx = is_excluded lib (c_exclude c) f;
         tx = is_excluded lib (c_exclude c) t
     in if fx \<and> tx then c
        else if fx then push lib now t Created c
        else if tx then push lib now f Removed c
        else c\<lparr>c_pending := purge t Created (purge f Removed (c_pending c)),
                c_renamed_from := insert f (c_renamed_from c),
                c_renamed_to := insert t (c_renamed_to c),
                c_renames := c_renames c @ [(f, t)]\<rparr>)"

definition ingest :: "glob_lib \<Rightarrow> nat \<Rightarrow> NotifyEvent \<Rightarrow> Coalescer \<Rightarrow> Coalescer" where
  "ingest lib now ev c =
    (case ne_kind ev of
       NkCreate \<Rightarrow> push_all lib now Created (ne_paths ev) c
     | NkModifyName mode \<Rightarrow>
         (case (mode, ne_paths ev) of
            (RmBoth, [from, to]) \<Rightarrow>
              (case (rel_of (c_root c) from, rel_of (c_root c) to) of
                 (Some f, Some t) \<Rightarrow> ingest_both lib now f t c
               | _ \<Rightarrow> c)
          | (RmFrom, [from]) \<Rightarrow>
              (case rel_of (c_root c) from of
                 Some f \<Rightarrow> if f \<notin> c_renamed_from c then push lib now f Removed c else c
               | None \<Rightarrow> c)
          | (RmTo, [to]) \<Rightarrow>
              (case rel_of (c_root c) to of
                 Some t \<Rightarrow> if t \<notin> c_renamed_to c then push lib now t Created c else c
               | None \<Rightarrow> c)
          | _ \<Rightarrow> push_all lib now Modified (ne_paths ev) c)
     | NkModifyMetadata \<Rightarrow> push_all lib now AttrChanged (ne_paths ev) c
     | NkModifyOther \<Rightarrow> push_all lib now Modified (ne_paths ev) c
     | NkRemove \<Rightarrow> push_all lib now Removed (ne_paths ev) c
     | NkAny \<Rightarrow> c | NkAccess \<Rightarrow> c | NkOther \<Rightarrow> c)"

fun drain_renames ::
  "(RelPath \<times> RelPath) list \<Rightarrow> (RelPath, Pending) hmap \<Rightarrow> (RelPath \<times> EventKind) list \<times> (RelPath, Pending) hmap" where
  "drain_renames [] m = ([], m)"
| "drain_renames ((from, to) # rs) m =
    (case drain_renames rs (purge to Created (purge from Removed m)) of
       (batch, m') \<Rightarrow> ((from, RenamedFrom to) # batch, m'))"

definition take_batch :: "Coalescer \<Rightarrow> (RelPath \<times> EventKind) list \<times> Coalescer" where
  "take_batch c =
    (case drain_renames (c_renames c) (c_pending c) of
       (batch, m) \<Rightarrow>
         (batch @ map (\<lambda>(path, p). (path, pe_kind p)) (hm_sorted m),
          c\<lparr>c_pending := [], c_renames := [], c_renamed_from := {}, c_renamed_to := {}\<rparr>))"

text \<open>A window: the timed raw events between two flushes.\<close>

definition ingest_all :: "glob_lib \<Rightarrow> (nat \<times> NotifyEvent) list \<Rightarrow> Coalescer \<Rightarrow> Coalescer" where
  "ingest_all lib evs c = foldl (\<lambda>c (now, ev). ingest lib now ev c) c evs"

section \<open>Specification: net effect on one path\<close>

text \<open>The truth about one path: whether it exists.  A raw event is possible in a state and leads to
  the next.\<close>

fun fs_step :: "bool \<Rightarrow> EventKind \<Rightarrow> bool option" where
  "fs_step False Created = Some True"
| "fs_step True Modified = Some True"
| "fs_step True AttrChanged = Some True"
| "fs_step True Removed = Some False"
| "fs_step _ _ = None"

fun fs_run :: "bool \<Rightarrow> EventKind list \<Rightarrow> bool option" where
  "fs_run b [] = Some b"
| "fs_run b (e # es) = (case fs_step b e of None \<Rightarrow> None | Some b' \<Rightarrow> fs_run b' es)"

definition merge_all :: "EventKind list \<Rightarrow> EventKind option" where
  "merge_all es = foldl merge None es"

text \<open>What an observer must be told about a run from \<open>before\<close> to \<open>after\<close>.\<close>

definition net_effect :: "bool \<Rightarrow> EventKind list \<Rightarrow> bool \<Rightarrow> EventKind option" where
  "net_effect before es after =
    (if \<not> before \<and> \<not> after then None
     else if \<not> before then Some Created
     else if \<not> after then Some Removed
     else if es = [] then None
     else if list_all (\<lambda>e. e = AttrChanged) es then Some AttrChanged
     else Some Modified)"

section \<open>Specification: the batch of a window without renames\<close>

text \<open>The per-path raw events of a window, in order, after translation to wire paths.\<close>

fun raw_kind :: "NotifyKind \<Rightarrow> EventKind option" where
  "raw_kind NkCreate = Some Created"
| "raw_kind NkModifyMetadata = Some AttrChanged"
| "raw_kind NkModifyOther = Some Modified"
| "raw_kind NkRemove = Some Removed"
| "raw_kind _ = None"

fun is_name_event :: "NotifyKind \<Rightarrow> bool" where
  "is_name_event (NkModifyName _) = True"
| "is_name_event _ = False"

definition raws :: "abs_path \<Rightarrow> NotifyEvent \<Rightarrow> (RelPath \<times> EventKind) list" where
  "raws root ev =
    (case raw_kind (ne_kind ev) of
       None \<Rightarrow> []
     | Some k \<Rightarrow> map (\<lambda>p. (p, k)) (List.map_filter (rel_of root) (ne_paths ev)))"

definition raws_of :: "abs_path \<Rightarrow> (nat \<times> NotifyEvent) list \<Rightarrow> RelPath \<Rightarrow> EventKind list" where
  "raws_of root evs p = map snd (filter (\<lambda>x. fst x = p) (concat (map (\<lambda>(_, ev). raws root ev) evs)))"

section \<open>Laws\<close>

definition pending_kind :: "Coalescer \<Rightarrow> RelPath \<Rightarrow> EventKind option" where
  "pending_kind c p = map_option pe_kind (hm_get (c_pending c) p)"

lemma rel_of_not_root: "rel_of root p = Some r \<Longrightarrow> r \<noteq> []"
  by (auto simp: rel_of_def Let_def split: option.splits if_splits)

lemma push_frame [simp]:
  "c_root (push lib now p k c) = c_root c" "c_exclude (push lib now p k c) = c_exclude c"
  "c_renames (push lib now p k c) = c_renames c"
  "c_renamed_from (push lib now p k c) = c_renamed_from c"
  "c_renamed_to (push lib now p k c) = c_renamed_to c"
  by (simp_all add: push_def Let_def split: option.splits)

lemma push_ok [simp]: "hm_ok (c_pending c) \<Longrightarrow> hm_ok (c_pending (push lib now p k c))"
  by (simp add: push_def Let_def split: option.splits)

lemma pending_kind_push:
  "pending_kind (push lib now p k c) q =
    (if q = p \<and> \<not> is_excluded lib (c_exclude c) p then merge (pending_kind c p) k else pending_kind c q)"
  by (auto simp: push_def pending_kind_def hmap_simps Let_def split: option.splits)

lemma push_keys:
  "fst ` set (c_pending (push lib now p k c)) \<subseteq>
   fst ` set (c_pending c) \<union> (if is_excluded lib (c_exclude c) p then {} else {p})"
  by (simp add: push_def Let_def keys_put keys_del split: option.splits) blast

definition pushes :: "glob_lib \<Rightarrow> nat \<Rightarrow> (RelPath \<times> EventKind) list \<Rightarrow> Coalescer \<Rightarrow> Coalescer" where
  "pushes lib now ps c = foldl (\<lambda>c (p, k). push lib now p k c) c ps"

lemma pushes_frame [simp]:
  "c_root (pushes lib now ps c) = c_root c" "c_exclude (pushes lib now ps c) = c_exclude c"
  "c_renames (pushes lib now ps c) = c_renames c"
  unfolding pushes_def by (induction ps arbitrary: c) (auto split: prod.splits)

lemma pushes_ok [simp]: "hm_ok (c_pending c) \<Longrightarrow> hm_ok (c_pending (pushes lib now ps c))"
  unfolding pushes_def by (induction ps arbitrary: c) (auto split: prod.splits)

lemma pending_kind_pushes:
  "pending_kind (pushes lib now ps c) q =
    (if is_excluded lib (c_exclude c) q then pending_kind c q
     else foldl merge (pending_kind c q) (map snd (filter (\<lambda>x. fst x = q) ps)))"
  unfolding pushes_def
  by (induction ps arbitrary: c) (auto simp: pending_kind_push split: prod.splits)

lemma push_all_pushes:
  "push_all lib now k ps c = pushes lib now (map (\<lambda>p. (p, k)) (List.map_filter (rel_of (c_root c)) ps)) c"
  by (induction ps arbitrary: c) (auto simp: pushes_def List.map_filter_simps split: option.splits)

lemma ingest_raws:
  "\<not> is_name_event (ne_kind ev) \<Longrightarrow> ingest lib now ev c = pushes lib now (raws (c_root c) ev) c"
  by (cases "ne_kind ev") (auto simp: ingest_def raws_def push_all_pushes pushes_def)

lemma window_state:
  assumes "\<forall>(now, ev)\<in>set evs. \<not> is_name_event (ne_kind ev)"
    and "c = ingest_all lib evs c0" "hm_ok (c_pending c0)"
  shows "c_exclude c = c_exclude c0 \<and> c_root c = c_root c0 \<and> c_renames c = c_renames c0
    \<and> hm_ok (c_pending c)
    \<and> (\<forall>q. pending_kind c q =
        (if is_excluded lib (c_exclude c0) q then pending_kind c0 q
         else foldl merge (pending_kind c0 q) (raws_of (c_root c0) evs q)))"
  using assms
proof (induction evs arbitrary: c0)
  case Nil
  then show ?case by (simp add: ingest_all_def raws_of_def)
next
  case (Cons e evs)
  obtain now ev where e: "e = (now, ev)" by fastforce
  let ?c1 = "pushes lib now (raws (c_root c0) ev) c0"
  have "c = ingest_all lib evs ?c1"
    using Cons.prems e by (simp add: ingest_all_def ingest_raws)
  then show ?case
    using Cons.IH [of ?c1] Cons.prems(1,3) e
    by (simp add: pending_kind_pushes raws_of_def)
qed

text \<open>The merge table is an exact account of one path's window.\<close>

lemma fs_run_snoc: "fs_run b (es @ [e]) = (case fs_run b es of None \<Rightarrow> None | Some b' \<Rightarrow> fs_step b' e)"
  by (induction es arbitrary: b) (auto split: option.splits)

lemma merge_net_step:
  "fs_step b' e = Some b'' \<Longrightarrow> (es = [] \<longrightarrow> b' = b) \<Longrightarrow>
   merge (net_effect b es b') e = net_effect b (es @ [e]) b''"
  by (cases b; cases b'; cases e) (auto simp: net_effect_def)

lemma merge_all_net: "fs_run b es = Some b' \<Longrightarrow> merge_all es = net_effect b es b'"
proof (induction es arbitrary: b' rule: rev_induct)
  case Nil
  then show ?case by (simp add: merge_all_def net_effect_def)
next
  case (snoc e es)
  then obtain b1 where b1: "fs_run b es = Some b1" "fs_step b1 e = Some b'"
    by (auto simp: fs_run_snoc split: option.splits)
  have "merge_all (es @ [e]) = merge (merge_all es) e" by (simp add: merge_all_def)
  moreover have "es = [] \<longrightarrow> b1 = b" using b1(1) by auto
  ultimately show ?case using snoc.IH [OF b1(1)] merge_net_step [OF b1(2)] by metis
qed

text \<open>Batches.\<close>

lemma take_batch_no_renames:
  "c_renames c = [] \<Longrightarrow>
   fst (take_batch c) = map (\<lambda>(path, p). (path, pe_kind p)) (hm_sorted (c_pending c))"
  by (simp add: take_batch_def)

lemma take_batch_empties: "coalescer_is_empty (snd (take_batch c))"
  by (simp add: take_batch_def coalescer_is_empty_def split: prod.splits)

lemma batch_keys: "map fst (map (\<lambda>(path, p). (path, pe_kind p)) xs) = map fst xs"
  by (induction xs) auto

lemma batch_lookup:
  assumes "hm_ok m"
  shows "map_of (map (\<lambda>(path, p). (path, pe_kind p)) (hm_sorted m)) q = map_option pe_kind (hm_get m q)"
proof -
  have "map_of (hm_sorted m) = map_of m"
    using assms hm_sorted_distinct [OF assms]
    by (intro ext) (metis hm_ok_def hm_sorted_set map_of_eq_Some_iff option.exhaust map_of_eq_None_iff set_map)
  then show ?thesis by (simp add: map_of_map)
qed

section \<open>No excluded path leaves the coalescer\<close>

definition visible :: "glob_lib \<Rightarrow> ExcludeSet \<Rightarrow> RelPath \<Rightarrow> bool" where
  "visible lib es p = (p \<noteq> [] \<and> \<not> is_excluded lib es p)"

fun plain :: "EventKind \<Rightarrow> bool" where
  "plain (RenamedFrom _) = False"
| "plain ResyncRequired = False"
| "plain _ = True"

definition plain_pending :: "(RelPath, Pending) hmap \<Rightarrow> bool" where
  "plain_pending m = (\<forall>p e. hm_get m p = Some e \<longrightarrow> plain (pe_kind e))"

definition coalescer_inv :: "glob_lib \<Rightarrow> Coalescer \<Rightarrow> bool" where
  "coalescer_inv lib c =
    (hm_ok (c_pending c) \<and> fst ` set (c_pending c) \<subseteq> Collect (visible lib (c_exclude c))
     \<and> plain_pending (c_pending c)
     \<and> list_all (\<lambda>(f, t). visible lib (c_exclude c) f \<and> visible lib (c_exclude c) t) (c_renames c))"

lemma merge_plain:
  "merge o1 k = Some k' \<Longrightarrow> plain k \<Longrightarrow> (\<And>x. o1 = Some x \<Longrightarrow> plain x) \<Longrightarrow> plain k'"
  by (cases o1; cases "the o1"; cases k) auto

lemma plain_push:
  "plain_pending (c_pending c) \<Longrightarrow> plain k \<Longrightarrow> plain_pending (c_pending (push lib now p k c))"
  by (auto simp: plain_pending_def push_def hmap_simps Let_def split: option.splits if_splits
      intro: merge_plain)

lemma plain_purge: "plain_pending m \<Longrightarrow> plain_pending (purge p k m)"
  by (auto simp: plain_pending_def purge_def hmap_simps split: option.splits if_splits)

lemma inv_push: "coalescer_inv lib c \<Longrightarrow> p \<noteq> [] \<Longrightarrow> plain k \<Longrightarrow> coalescer_inv lib (push lib now p k c)"
proof -
  assume inv: "coalescer_inv lib c" and p: "p \<noteq> []" and k: "plain k"
  have "fst ` set (c_pending c) \<union> (if is_excluded lib (c_exclude c) p then {} else {p})
      \<subseteq> Collect (visible lib (c_exclude c))"
    using inv p by (simp add: coalescer_inv_def visible_def)
  then have "fst ` set (c_pending (push lib now p k c)) \<subseteq> Collect (visible lib (c_exclude c))"
    by (rule order_trans [OF push_keys])
  then show ?thesis using inv k by (simp add: coalescer_inv_def plain_push)
qed

lemma inv_push_all: "coalescer_inv lib c \<Longrightarrow> plain k \<Longrightarrow> coalescer_inv lib (push_all lib now k ps c)"
  by (induction ps arbitrary: c) (auto simp: inv_push rel_of_not_root split: option.splits)

lemma purge_props:
  fixes m :: "(RelPath, Pending) hmap"
  shows "hm_ok m \<Longrightarrow> hm_ok (purge p k m)" "fst ` set (purge p k m) \<subseteq> fst ` set m"
  by (auto simp: purge_def keys_del simp del: image_iff split: option.splits)

lemma inv_ingest_both:
  "coalescer_inv lib c \<Longrightarrow> f \<noteq> [] \<Longrightarrow> t \<noteq> [] \<Longrightarrow> coalescer_inv lib (ingest_both lib now f t c)"
  using order_trans [OF purge_props(2) purge_props(2), of t Created f Removed "c_pending c"]
  by (simp add: ingest_both_def Let_def inv_push)
    (simp add: coalescer_inv_def visible_def purge_props(1) plain_purge order_trans)

lemma inv_ingest: "coalescer_inv lib c \<Longrightarrow> coalescer_inv lib (ingest lib now ev c)"
  by (auto simp: ingest_def inv_push_all inv_push inv_ingest_both rel_of_not_root
      split: NotifyKind.splits RenameMode.splits list.splits option.splits)

lemma inv_ingest_all: "coalescer_inv lib c \<Longrightarrow> coalescer_inv lib (ingest_all lib evs c)"
  unfolding ingest_all_def by (induction evs arbitrary: c) (auto simp: inv_ingest split: prod.splits)

lemma inv_new: "coalescer_inv lib (coalescer_new root ex)"
  by (simp add: coalescer_inv_def coalescer_new_def plain_pending_def)

lemma ingest_exclude: "c_exclude (ingest lib now ev c) = c_exclude c"
  by (auto simp: ingest_def ingest_both_def Let_def push_all_pushes
      split: NotifyKind.splits RenameMode.splits list.splits option.splits)

lemma ingest_all_exclude: "c_exclude (ingest_all lib evs c) = c_exclude c"
  unfolding ingest_all_def by (induction evs arbitrary: c) (auto simp: ingest_exclude split: prod.splits)

lemma drain_renames_spec:
  "drain_renames rs m = (batch, m') \<Longrightarrow>
   batch = map (\<lambda>(f, t). (f, RenamedFrom t)) rs \<and> fst ` set m' \<subseteq> fst ` set m
   \<and> (hm_ok m \<longrightarrow> hm_ok m') \<and> (plain_pending m \<longrightarrow> plain_pending m')"
proof (induction rs arbitrary: m batch)
  case (Cons r rs)
  obtain f t where r: "r = (f, t)" by fastforce
  let ?m = "purge t Created (purge f Removed m)"
  obtain b where b: "drain_renames rs ?m = (b, m')" "batch = (f, RenamedFrom t) # b"
    using Cons.prems r by (auto split: prod.splits)
  have "fst ` set ?m \<subseteq> fst ` set m" by (rule order_trans [OF purge_props(2) purge_props(2)])
  moreover have "hm_ok m \<longrightarrow> hm_ok ?m" using purge_props(1) by blast
  ultimately show ?case using Cons.IH [OF b(1)] b(2) r by (simp add: plain_purge) (meson order_trans)
qed simp

section \<open>Properties\<close>


definition no_globs :: glob_lib where
  "no_globs = \<lparr> glob_compiles = (\<lambda>_. True), glob_matches = (\<lambda>_ _ _. False) \<rparr>"


text \<open>Whatever the watcher reports, renames across the exclude boundary included, no batch entry
  and no rename target is the export root or an excluded path.\<close>

theorem coalesce_no_excluded_leak:
  assumes "(p, k) \<in> set (fst (take_batch (ingest_all lib evs (coalescer_new root ex))))"
  shows "p \<noteq> [] \<and> \<not> is_excluded lib ex p
    \<and> (case k of RenamedFrom t \<Rightarrow> t \<noteq> [] \<and> \<not> is_excluded lib ex t | _ \<Rightarrow> True)"
proof -
  define c where "c = ingest_all lib evs (coalescer_new root ex)"
  have inv: "coalescer_inv lib c" and ex: "c_exclude c = ex"
    using inv_ingest_all [OF inv_new] by (simp_all add: c_def ingest_all_exclude coalescer_new_def)
  obtain b m where d: "drain_renames (c_renames c) (c_pending c) = (b, m)" by fastforce
  note spec = drain_renames_spec [OF d]
  consider (rename) t where "(p, t) \<in> set (c_renames c)" "k = RenamedFrom t"
    | (pending) e where "(p, e) \<in> set m" "k = pe_kind e"
    using assms d spec by (auto simp: c_def [symmetric] take_batch_def)
  then show ?thesis
  proof cases
    case rename
    then show ?thesis using inv ex by (auto simp: coalescer_inv_def list_all_iff visible_def)
  next
    case pending
    then have "visible lib ex p" using inv ex spec by (force simp: coalescer_inv_def)
    moreover have "plain k"
      using pending inv spec hm_get_set [of m p e] by (auto simp: coalescer_inv_def plain_pending_def)
    ultimately show ?thesis by (cases k) (auto simp: visible_def)
  qed
qed

theorem coalesce_no_excluded_leak_witness:
  "(''a'', Created) \<in> set (fst (take_batch (ingest_all no_globs
       [(0, \<lparr>ne_kind = NkCreate, ne_paths = [[''r'', ''a'']]\<rparr>)] (coalescer_new [''r''] no_excludes))))
   \<and> \<not> is_excluded no_globs no_excludes ''a''"
proof -
  have m: "(''a'', Created) \<in> set (fst (take_batch (ingest_all no_globs
       [(0, \<lparr>ne_kind = NkCreate, ne_paths = [[''r'', ''a'']]\<rparr>)] (coalescer_new [''r''] no_excludes))))"
    by code_simp
  then show ?thesis using coalesce_no_excluded_leak [OF m] by simp
qed

abbreviation name_event :: "RenameMode \<Rightarrow> abs_path list \<Rightarrow> NotifyEvent" where
  "name_event mode ps \<equiv> \<lparr>ne_kind = NkModifyName mode, ne_paths = ps\<rparr>"

lemma three_arrangements:
  assumes "mset xs = {#a, b, c#}"
  shows "xs \<in> {[a, b, c], [a, c, b], [b, a, c], [b, c, a], [c, a, b], [c, b, a]}"
proof -
  have "length xs = 3"
    using assms by (metis One_nat_def add.commute numeral_3_eq_3 plus_1_eq_Suc size_add_mset size_empty size_mset)
  then obtain x y z where "xs = [x, y, z]" by (auto simp: numeral_3_eq_3 length_Suc_conv)
  then show ?thesis using assms by (auto simp: add_eq_conv_ex)
qed

lemma rename_halves_paired:
  assumes "rel_of root F = Some f" "rel_of root T = Some t" "f \<noteq> t"
    and "\<not> is_excluded lib ex f" "\<not> is_excluded lib ex t"
    and "mset (map snd evs) = {#name_event RmFrom [F], name_event RmTo [T], name_event RmBoth [F, T]#}"
  shows "ingest_all lib evs (coalescer_new root ex) =
    (coalescer_new root ex)\<lparr>c_renames := [(f, t)], c_renamed_from := {f}, c_renamed_to := {t}\<rparr>"
proof -
  have arr: "map snd evs \<in> {xs. \<exists>a b c. xs = [a, b, c] \<and> (a, b, c) \<in> {
      (name_event RmFrom [F], name_event RmTo [T], name_event RmBoth [F, T]),
      (name_event RmFrom [F], name_event RmBoth [F, T], name_event RmTo [T]),
      (name_event RmTo [T], name_event RmFrom [F], name_event RmBoth [F, T]),
      (name_event RmTo [T], name_event RmBoth [F, T], name_event RmFrom [F]),
      (name_event RmBoth [F, T], name_event RmFrom [F], name_event RmTo [T]),
      (name_event RmBoth [F, T], name_event RmTo [T], name_event RmFrom [F])}}"
    using three_arrangements [OF assms(6)] by auto
  then obtain n1 n2 n3 a b c where evs: "evs = [(n1, a), (n2, b), (n3, c)]"
    by (auto simp: map_eq_Cons_conv)
  then show ?thesis
    using arr assms(1-5)
    by (auto simp: ingest_all_def ingest_def ingest_both_def push_def purge_def coalescer_new_def Let_def)
qed

lemma ingest_modifications:
  assumes "rel_of (c_root c) T = Some t" "\<not> is_excluded lib (c_exclude c) t"
    and "\<forall>(now, ev)\<in>set mods. ev = \<lparr>ne_kind = NkModifyOther, ne_paths = [T]\<rparr>"
    and "c_pending c = [] \<or> (\<exists>n. c_pending c = [(t, \<lparr>pe_kind = Modified, pe_first_seen = n\<rparr>)])"
  shows "\<exists>m. ingest_all lib mods c = c\<lparr>c_pending := m\<rparr>
    \<and> (if mods = [] then m = c_pending c else \<exists>n. m = [(t, \<lparr>pe_kind = Modified, pe_first_seen = n\<rparr>)])"
  using assms
proof (induction mods arbitrary: c)
  case Nil
  then show ?case by (intro exI [of _ "c_pending c"]) (simp add: ingest_all_def)
next
  case (Cons e mods)
  obtain now where e: "e = (now, \<lparr>ne_kind = NkModifyOther, ne_paths = [T]\<rparr>)" using Cons.prems(3) by auto
  obtain n where c1: "ingest lib now (snd e) c = c\<lparr>c_pending := [(t, \<lparr>pe_kind = Modified, pe_first_seen = n\<rparr>)]\<rparr>"
    using Cons.prems e by (auto simp: ingest_def push_def Let_def)
  let ?c1 = "c\<lparr>c_pending := [(t, \<lparr>pe_kind = Modified, pe_first_seen = n\<rparr>)]\<rparr>"
  have step: "ingest_all lib (e # mods) c = ingest_all lib mods ?c1"
    using c1 e by (simp add: ingest_all_def)
  obtain m where m: "ingest_all lib mods ?c1 = ?c1\<lparr>c_pending := m\<rparr>"
    "if mods = [] then m = c_pending ?c1 else \<exists>n. m = [(t, \<lparr>pe_kind = Modified, pe_first_seen = n\<rparr>)]"
    using Cons.IH [of ?c1] Cons.prems by auto
  then show ?case using step by (intro exI [of _ m]) (auto split: if_splits)
qed

text \<open>C19: a rename that the backend reports three times (its two halves and the pair, in any order)
  is flushed once, as a rename; later modifications of the target survive as one Modified.\<close>

theorem rename_reported_once:
  assumes "rel_of root F = Some f" "rel_of root T = Some t" "f \<noteq> t"
    and "\<not> is_excluded lib ex f" "\<not> is_excluded lib ex t"
    and "mset (map snd evs) = {#name_event RmFrom [F], name_event RmTo [T], name_event RmBoth [F, T]#}"
    and "\<forall>(now, ev)\<in>set mods. ev = \<lparr>ne_kind = NkModifyOther, ne_paths = [T]\<rparr>"
  shows "fst (take_batch (ingest_all lib (evs @ mods) (coalescer_new root ex)))
    = (f, RenamedFrom t) # (if mods = [] then [] else [(t, Modified)])"
proof -
  let ?c = "(coalescer_new root ex)\<lparr>c_renames := [(f, t)], c_renamed_from := {f}, c_renamed_to := {t}\<rparr>"
  have fields: "c_root ?c = root" "c_exclude ?c = ex" "c_pending ?c = []"
    by (simp_all add: coalescer_new_def)
  have "ingest_all lib (evs @ mods) (coalescer_new root ex) = ingest_all lib mods ?c"
    using rename_halves_paired [OF assms(1-6)] by (simp add: ingest_all_def)
  moreover obtain m where "ingest_all lib mods ?c = ?c\<lparr>c_pending := m\<rparr>"
    "if mods = [] then m = [] else \<exists>n. m = [(t, \<lparr>pe_kind = Modified, pe_first_seen = n\<rparr>)]"
    using ingest_modifications [of ?c T t lib mods] assms(2,5,7) fields by auto
  ultimately show ?thesis
    using assms(3) by (auto simp: take_batch_def purge_def hm_sorted_def split: if_splits)
qed

theorem rename_reported_once_witness:
  "fst (take_batch (ingest_all no_globs
      ([(0, name_event RmFrom [[''r'', ''a'']]), (1, name_event RmTo [[''r'', ''b'']]),
        (2, name_event RmBoth [[''r'', ''a''], [''r'', ''b'']])]
       @ [(3, \<lparr>ne_kind = NkModifyOther, ne_paths = [[''r'', ''b'']]\<rparr>)])
      (coalescer_new [''r''] no_excludes))) = [(''a'', RenamedFrom ''b''), (''b'', Modified)]"
proof -
  have a: "rel_of [''r''] [''r'', ''a''] = Some ''a''" by code_simp
  have b: "rel_of [''r''] [''r'', ''b''] = Some ''b''" by code_simp
  show ?thesis by (subst rename_reported_once [OF a b]) simp_all
qed

lemma foldl_min_le: "foldl min a as \<le> a \<and> (\<forall>x\<in>set as. foldl min a as \<le> (x :: nat))"
proof (induction as arbitrary: a)
  case (Cons x xs)
  then show ?case using Cons.IH [of "min a x"] by simp
qed simp

lemma foldl_min_in: "foldl min a as \<in> insert (a :: nat) (set as)"
proof (induction as arbitrary: a)
  case (Cons x xs)
  then show ?case using Cons.IH [of "min a x"] by (auto simp: min_def split: if_splits)
qed simp

text \<open>The age the overflow flush consults is that of the youngest pending change, not of the
  oldest: it is the age of some pending change and no pending change is younger.\<close>

theorem oldest_age_is_youngest:
  assumes "oldest_age now c = Some a"
  shows "(\<exists>(p, e)\<in>set (c_pending c). a = now - pe_first_seen e)
    \<and> (\<forall>(p, e)\<in>set (c_pending c). a \<le> now - pe_first_seen e)"
proof -
  define ages where "ages = map (\<lambda>(_, e). now - pe_first_seen e) (c_pending c)"
  have "a \<in> set ages \<and> (\<forall>x\<in>set ages. a \<le> x)"
    using assms foldl_min_le foldl_min_in
    by (auto simp: oldest_age_def ages_def [symmetric] split: list.splits) blast+
  then show ?thesis by (auto simp: ages_def split: prod.splits)
qed

theorem oldest_age_is_youngest_witness:
  "let c = (coalescer_new [] no_excludes)\<lparr>c_pending :=
       [(''old'', \<lparr>pe_kind = Modified, pe_first_seen = 0\<rparr>), (''new'', \<lparr>pe_kind = Modified, pe_first_seen = 9\<rparr>)]\<rparr>
   in oldest_age 10 c = Some 1 \<and> (\<forall>(p, e)\<in>set (c_pending c). 1 \<le> 10 - pe_first_seen e)"
proof -
  let ?c = "(coalescer_new [] no_excludes)\<lparr>c_pending :=
       [(''old'', \<lparr>pe_kind = Modified, pe_first_seen = 0\<rparr>), (''new'', \<lparr>pe_kind = Modified, pe_first_seen = 9\<rparr>)]\<rparr>"
  have a: "oldest_age 10 ?c = Some 1" by (simp add: oldest_age_def)
  then show ?thesis using oldest_age_is_youngest [OF a] by (simp add: Let_def)
qed

end
