(* ===== verification/Locks.thy ===== *)
theory Locks
  imports Proto
begin

text \<open>
  \<^verbatim>\<open>crates/alloyfs-agent/src/locks.rs\<close>: whole-file advisory locks.

  \<open>lock_attempt\<close> is one turn of the loop in \<open>lock\<close> (the code under the mutex); the wait between
  two turns is a ticket, which stands for the one-shot channel of a waiter.  The step relation
  \<open>lock_step\<close> interleaves calls, retries of woken tasks, unlocks and session releases.

  The locale \<open>lock_table\<close> states what the rest of the agent relies on and derives mutual
  exclusion from it; it is interpreted on the model.
\<close>

section \<open>State\<close>

record Holder =
  h_session :: u64
  h_fh :: u64
  h_kind :: LockKind

record Waiter =
  w_session :: u64
  w_kind :: LockKind
  w_wake :: nat

record LockEntry =
  le_holders :: "Holder list"
  le_waiters :: "Waiter list"

type_synonym LockManager = "(RelPath, LockEntry) hmap"

definition entry_default :: LockEntry where
  "entry_default = \<lparr> le_holders = [], le_waiters = [] \<rparr>"

definition compatible :: "Holder list \<Rightarrow> LockKind \<Rightarrow> bool" where
  "compatible holders kind =
    (case kind of
       Shared \<Rightarrow> list_all (\<lambda>h. h_kind h = Shared) holders
     | Exclusive \<Rightarrow> holders = [])"

definition owned :: "u64 \<Rightarrow> u64 \<Rightarrow> Holder \<Rightarrow> bool" where
  "owned session fh h = (h_session h = session \<and> h_fh h = fh)"

section \<open>Operations\<close>

datatype LockOutcome = Granted | Refused ErrorCode | Parked

definition lock_attempt ::
  "LockManager \<Rightarrow> RelPath \<Rightarrow> u64 \<Rightarrow> u64 \<Rightarrow> LockKind \<Rightarrow> bool \<Rightarrow> nat \<Rightarrow> LockOutcome \<times> LockManager" where
  "lock_attempt m path session fh kind wait ticket =
    (let entry = (case hm_get m path of Some e \<Rightarrow> e | None \<Rightarrow> entry_default);
         holders = filter (\<lambda>h. \<not> owned session fh h) (le_holders entry);
         entry = entry\<lparr>le_holders := holders\<rparr>
     in if compatible holders kind then
          (Granted, hm_put path (entry\<lparr>le_holders := holders @
             [\<lparr>h_session = session, h_fh = fh, h_kind = kind\<rparr>]\<rparr>) m)
        else if \<not> wait then (Refused WouldBlock, hm_put path entry m)
        else (Parked, hm_put path (entry\<lparr>le_waiters := le_waiters entry @
             [\<lparr>w_session = session, w_kind = kind, w_wake = ticket\<rparr>]\<rparr>) m))"

fun wake_loop :: "Holder list \<Rightarrow> Waiter list \<Rightarrow> nat list \<times> Waiter list" where
  "wake_loop holders [] = ([], [])"
| "wake_loop holders (w # ws) =
    (if compatible holders (w_kind w) then
       (if w_kind w = Exclusive then ([w_wake w], ws)
        else case wake_loop holders ws of (woken, rest) \<Rightarrow> (w_wake w # woken, rest))
     else ([], w # ws))"

definition wake_waiters :: "LockEntry \<Rightarrow> nat list \<times> LockEntry" where
  "wake_waiters e =
    (case wake_loop (le_holders e) (le_waiters e) of
       (woken, rest) \<Rightarrow> (woken, e\<lparr>le_waiters := rest\<rparr>))"

definition unlock :: "LockManager \<Rightarrow> RelPath \<Rightarrow> u64 \<Rightarrow> u64 \<Rightarrow> nat list \<times> LockManager" where
  "unlock m path session fh =
    (case hm_get m path of
       None \<Rightarrow> ([], m)
     | Some entry \<Rightarrow>
         (case wake_waiters (entry\<lparr>le_holders := filter (\<lambda>h. \<not> owned session fh h) (le_holders entry)\<rparr>) of
            (woken, entry) \<Rightarrow>
              (woken, if le_holders entry = [] \<and> le_waiters entry = [] then hm_del path m
                      else hm_put path entry m)))"

text \<open>What releasing a session does to one entry: the tickets it drops or wakes, how many holds it
  frees, and the entry left.\<close>

definition release_entry :: "u64 \<Rightarrow> LockEntry \<Rightarrow> nat list \<times> nat \<times> LockEntry" where
  "release_entry session entry =
    (let holders = filter (\<lambda>h. h_session h \<noteq> session) (le_holders entry);
         released = length (le_holders entry) - length holders;
         dropped = map w_wake (filter (\<lambda>w. w_session w = session) (le_waiters entry));
         waiters = filter (\<lambda>w. w_session w \<noteq> session) (le_waiters entry)
     in case wake_waiters (entry\<lparr>le_holders := holders, le_waiters := waiters\<rparr>) of
          (woken, entry) \<Rightarrow> (dropped @ woken, released, entry))"

fun release_session :: "LockManager \<Rightarrow> u64 \<Rightarrow> nat list \<times> nat \<times> LockManager" where
  "release_session [] session = ([], 0, [])"
| "release_session ((path, entry) # m) session =
    (case release_entry session entry of
       (resolved, released, entry) \<Rightarrow>
         (case release_session m session of
            (resolved', released', m') \<Rightarrow>
              (resolved @ resolved', released + released',
               if le_holders entry = [] \<and> le_waiters entry = [] then m' else (path, entry) # m')))"

section \<open>Interleavings\<close>

text \<open>A task inside \<open>lock\<close> is parked on a ticket until its channel resolves (woken, or its sender
  dropped); then it is ready and takes another turn.\<close>

record LockTask =
  lt_path :: RelPath
  lt_session :: u64
  lt_fh :: u64
  lt_kind :: LockKind

record LockSys =
  ls_locks :: LockManager
  ls_parked :: "(nat \<times> LockTask) list"
  ls_ready :: "LockTask list"
  ls_next :: nat

definition sys_init :: LockSys where
  "sys_init = \<lparr> ls_locks = [], ls_parked = [], ls_ready = [], ls_next = 0 \<rparr>"

definition resolve_tickets :: "nat list \<Rightarrow> LockSys \<Rightarrow> LockSys" where
  "resolve_tickets ts s =
    s\<lparr>ls_parked := filter (\<lambda>(t, _). t \<notin> set ts) (ls_parked s),
      ls_ready := ls_ready s @ map snd (filter (\<lambda>(t, _). t \<in> set ts) (ls_parked s))\<rparr>"

definition take_turn :: "LockTask \<Rightarrow> bool \<Rightarrow> LockSys \<Rightarrow> LockOutcome \<times> LockSys" where
  "take_turn t wait s =
    (case lock_attempt (ls_locks s) (lt_path t) (lt_session t) (lt_fh t) (lt_kind t) wait (ls_next s) of
       (Parked, m) \<Rightarrow> (Parked, s\<lparr>ls_locks := m, ls_parked := (ls_next s, t) # ls_parked s, ls_next := Suc (ls_next s)\<rparr>)
     | (out, m) \<Rightarrow> (out, s\<lparr>ls_locks := m\<rparr>))"

datatype LockAct =
    ActLock LockTask bool LockOutcome
  | ActRetry LockTask LockOutcome
  | ActUnlock RelPath u64 u64
  | ActRelease u64 nat

inductive lock_step :: "LockSys \<Rightarrow> LockAct \<Rightarrow> LockSys \<Rightarrow> bool" where
  call: "take_turn t wait s = (out, s') \<Longrightarrow> lock_step s (ActLock t wait out) s'"
| retry: "ls_ready s = xs @ t # ys \<Longrightarrow> take_turn t True (s\<lparr>ls_ready := xs @ ys\<rparr>) = (out, s') \<Longrightarrow>
    lock_step s (ActRetry t out) s'"
| unlock: "unlock (ls_locks s) p ses fh = (woken, m) \<Longrightarrow>
    lock_step s (ActUnlock p ses fh) (resolve_tickets woken (s\<lparr>ls_locks := m\<rparr>))"
| release: "release_session (ls_locks s) ses = (resolved, n, m) \<Longrightarrow>
    lock_step s (ActRelease ses n) (resolve_tickets resolved (s\<lparr>ls_locks := m\<rparr>))"

inductive lock_run :: "LockSys \<Rightarrow> LockAct list \<Rightarrow> LockSys \<Rightarrow> bool" where
  run_nil: "lock_run s [] s"
| run_snoc: "lock_run s acts s' \<Longrightarrow> lock_step s' a s'' \<Longrightarrow> lock_run s (acts @ [a]) s''"

section \<open>Specification\<close>

text \<open>Who holds what: the abstract view of a lock manager.\<close>

type_synonym owner = "u64 \<times> u64"

definition holder_of :: "owner \<Rightarrow> Holder \<Rightarrow> bool" where
  "holder_of ow h = owned (fst ow) (snd ow) h"

definition holds :: "LockManager \<Rightarrow> RelPath \<Rightarrow> owner \<Rightarrow> LockKind option" where
  "holds m p ow =
    (case hm_get m p of
       None \<Rightarrow> None
     | Some e \<Rightarrow> map_option h_kind (find (holder_of ow) (le_holders e)))"

definition try_lock :: "LockManager \<Rightarrow> RelPath \<Rightarrow> owner \<Rightarrow> LockKind \<Rightarrow> bool \<times> LockManager" where
  "try_lock m p ow k =
    (case lock_attempt m p (fst ow) (snd ow) k False 0 of (out, m') \<Rightarrow> (out = Granted, m'))"

definition free_lock :: "LockManager \<Rightarrow> RelPath \<Rightarrow> owner \<Rightarrow> LockManager" where
  "free_lock m p ow = snd (unlock m p (fst ow) (snd ow))"

definition holders_ok :: "Holder list \<Rightarrow> bool" where
  "holders_ok hs = (distinct (map (\<lambda>h. (h_session h, h_fh h)) hs)
    \<and> (list_all (\<lambda>h. h_kind h = Shared) hs \<or> length hs = 1))"

definition manager_ok :: "LockManager \<Rightarrow> bool" where
  "manager_ok m = (hm_ok m \<and> (\<forall>(p, e)\<in>set m. holders_ok (le_holders e)))"

locale lock_table =
  fixes ok :: "'m \<Rightarrow> bool"
    and held :: "'m \<Rightarrow> 'p \<Rightarrow> 'o \<Rightarrow> LockKind option"
    and acquire :: "'m \<Rightarrow> 'p \<Rightarrow> 'o \<Rightarrow> LockKind \<Rightarrow> bool \<times> 'm"
    and free :: "'m \<Rightarrow> 'p \<Rightarrow> 'o \<Rightarrow> 'm"
  assumes ok_acquire: "ok m \<Longrightarrow> ok (snd (acquire m p w k))"
    and ok_free: "ok m \<Longrightarrow> ok (free m p w)"
    and acquire_iff: "ok m \<Longrightarrow> fst (acquire m p w k) \<longleftrightarrow>
      (\<forall>x k'. x \<noteq> w \<longrightarrow> held m p x = Some k' \<longrightarrow> k = Shared \<and> k' = Shared)"
    and held_acquire: "ok m \<Longrightarrow> held (snd (acquire m p w k)) q x =
      (if q = p \<and> x = w then (if fst (acquire m p w k) then Some k else None) else held m q x)"
    and held_free: "ok m \<Longrightarrow> held (free m p w) q x = (if q = p \<and> x = w then None else held m q x)"
begin

definition exclusive :: "'m \<Rightarrow> bool" where
  "exclusive m = (\<forall>p x y k k'. x \<noteq> y \<longrightarrow> held m p x = Some k \<longrightarrow> held m p y = Some k' \<longrightarrow> k = Shared \<and> k' = Shared)"

lemma acquire_exclusive: "ok m \<Longrightarrow> exclusive m \<Longrightarrow> exclusive (snd (acquire m p w k))"
  unfolding exclusive_def using acquire_iff [of m p w k] held_acquire [of m p w k]
  by (auto split: if_splits) metis+

lemma free_exclusive: "ok m \<Longrightarrow> exclusive m \<Longrightarrow> exclusive (free m p w)"
  unfolding exclusive_def using held_free [of m p w] by (auto split: if_splits)

lemma acquire_free_again:
  "ok m \<Longrightarrow> fst (acquire m p w k) \<Longrightarrow> held m p w = None \<Longrightarrow> held (free (snd (acquire m p w k)) p w) = held m"
  using held_free [OF ok_acquire] held_acquire by (auto intro!: ext)

end

section \<open>Laws of one entry\<close>

lemma compatible_Nil [simp]: "compatible [] k"
  by (cases k) (simp_all add: compatible_def)

lemma holders_ok_Nil [simp]: "holders_ok []"
  by (simp add: holders_ok_def)

lemma holders_ok_filter: "holders_ok hs \<Longrightarrow> holders_ok (filter P hs)"
  by (cases hs; cases "tl hs") (auto simp: holders_ok_def list_all_iff distinct_map inj_on_def)

lemma holders_ok_snoc:
  assumes "holders_ok hs" "compatible (filter (\<lambda>h. \<not> owned ses fh h) hs) k"
  shows "holders_ok (filter (\<lambda>h. \<not> owned ses fh h) hs @ [\<lparr>h_session = ses, h_fh = fh, h_kind = k\<rparr>])"
  using holders_ok_filter [OF assms(1), of "\<lambda>h. \<not> owned ses fh h"] assms(2)
  by (cases k) (auto simp: holders_ok_def compatible_def owned_def)

lemma wake_loop_split:
  "wake_loop hs ws = (woken, rest) \<Longrightarrow> \<exists>pre. ws = pre @ rest \<and> woken = map w_wake pre"
proof (induction ws arbitrary: woken)
  case (Cons w ws)
  then show ?case by (auto split: if_splits prod.splits)
qed simp

lemma wake_loop_progress:
  "wake_loop [] ws = (woken, rest) \<Longrightarrow> rest \<noteq> [] \<Longrightarrow> woken \<noteq> []"
  by (cases ws) (auto split: if_splits prod.splits)

lemma wake_waiters_spec:
  assumes "wake_waiters e = (woken, e')"
  shows "le_holders e' = le_holders e"
    and "\<exists>pre. le_waiters e = pre @ le_waiters e' \<and> woken = map w_wake pre"
    and "le_waiters e' \<noteq> [] \<Longrightarrow> le_holders e' \<noteq> [] \<or> woken \<noteq> []"
proof -
  obtain rest where r: "wake_loop (le_holders e) (le_waiters e) = (woken, rest)" "e' = e\<lparr>le_waiters := rest\<rparr>"
    using assms by (auto simp: wake_waiters_def split: prod.splits)
  then show "le_holders e' = le_holders e" by simp
  show "\<exists>pre. le_waiters e = pre @ le_waiters e' \<and> woken = map w_wake pre"
    using wake_loop_split [OF r(1)] r(2) by simp
  show "le_waiters e' \<noteq> [] \<Longrightarrow> le_holders e' \<noteq> [] \<or> woken \<noteq> []"
    using wake_loop_progress r by (cases "le_holders e") auto
qed

section \<open>The model is a lock table\<close>

lemma manager_ok_get: "manager_ok m \<Longrightarrow> hm_get m p = Some e \<Longrightarrow> holders_ok (le_holders e)"
  using hm_get_set [of m p e] by (auto simp: manager_ok_def)

lemma manager_okI: "hm_ok m \<Longrightarrow> (\<And>p e. hm_get m p = Some e \<Longrightarrow> holders_ok (le_holders e)) \<Longrightarrow> manager_ok m"
  using hm_get_set [of m] by (auto simp: manager_ok_def)

definition entry_of :: "LockManager \<Rightarrow> RelPath \<Rightarrow> LockEntry" where
  "entry_of m p = (case hm_get m p of Some e \<Rightarrow> e | None \<Rightarrow> entry_default)"

definition others :: "LockManager \<Rightarrow> RelPath \<Rightarrow> u64 \<Rightarrow> u64 \<Rightarrow> Holder list" where
  "others m p ses fh = filter (\<lambda>h. \<not> owned ses fh h) (le_holders (entry_of m p))"

lemma lock_attempt_cases:
  obtains (granted) "compatible (others m p ses fh) k"
      "lock_attempt m p ses fh k wait t = (Granted, hm_put p ((entry_of m p)\<lparr>le_holders :=
         others m p ses fh @ [\<lparr>h_session = ses, h_fh = fh, h_kind = k\<rparr>]\<rparr>) m)"
    | (refused) "\<not> compatible (others m p ses fh) k" "\<not> wait"
      "lock_attempt m p ses fh k wait t = (Refused WouldBlock, hm_put p ((entry_of m p)\<lparr>le_holders := others m p ses fh\<rparr>) m)"
    | (parked) "\<not> compatible (others m p ses fh) k" "wait"
      "lock_attempt m p ses fh k wait t = (Parked, hm_put p ((entry_of m p)\<lparr>le_holders := others m p ses fh,
         le_waiters := le_waiters (entry_of m p) @ [\<lparr>w_session = ses, w_kind = k, w_wake = t\<rparr>]\<rparr>) m)"
  unfolding others_def entry_of_def lock_attempt_def Let_def by (auto split: if_splits)

lemma entry_of_ok: "manager_ok m \<Longrightarrow> holders_ok (le_holders (entry_of m p))"
  by (auto simp: entry_of_def entry_default_def manager_ok_get split: option.splits)

lemma others_ok: "manager_ok m \<Longrightarrow> holders_ok (others m p ses fh)"
  by (simp add: others_def holders_ok_filter entry_of_ok)

lemma manager_ok_put: "manager_ok m \<Longrightarrow> holders_ok (le_holders e) \<Longrightarrow> manager_ok (hm_put p e m)"
  using manager_ok_get by (intro manager_okI) (auto simp: manager_ok_def hmap_simps split: if_splits)

lemma manager_ok_del: "manager_ok m \<Longrightarrow> manager_ok (hm_del p m)"
  using manager_ok_get by (intro manager_okI) (auto simp: manager_ok_def hmap_simps split: if_splits)

lemma lock_attempt_ok: "manager_ok m \<Longrightarrow> manager_ok (snd (lock_attempt m p ses fh k wait t))"
  using others_ok [of m p ses fh] holders_ok_snoc [OF entry_of_ok, of m ses fh p k]
  by (cases rule: lock_attempt_cases [of m p ses fh k wait t]) (auto simp: manager_ok_put others_def [symmetric])

lemma unlock_entry:
  "hm_get m p = Some e \<Longrightarrow> \<exists>woken e'. wake_waiters (e\<lparr>le_holders := filter (\<lambda>h. \<not> owned ses fh h) (le_holders e)\<rparr>) = (woken, e')
     \<and> le_holders e' = filter (\<lambda>h. \<not> owned ses fh h) (le_holders e)
     \<and> unlock m p ses fh = (woken, if le_holders e' = [] \<and> le_waiters e' = [] then hm_del p m else hm_put p e' m)"
  using wake_waiters_spec(1) by (fastforce simp: unlock_def split: prod.splits)

lemma unlock_ok: "manager_ok m \<Longrightarrow> manager_ok (snd (unlock m p ses fh))"
  using unlock_entry [of m p _ ses fh] manager_ok_get [of m p] holders_ok_filter
  by (cases "hm_get m p") (fastforce simp: unlock_def manager_ok_put manager_ok_del)+

lemma holder_of_iff: "holder_of x h \<longleftrightarrow> (h_session h, h_fh h) = x"
  by (cases x) (simp add: holder_of_def owned_def)

lemma owned_iff: "owned ses fh h \<longleftrightarrow> (h_session h, h_fh h) = (ses, fh)"
  by (simp add: owned_def)

lemma find_filter_same: "(\<And>h. P h \<Longrightarrow> Q h) \<Longrightarrow> find P (filter Q hs) = find P hs"
  by (induction hs) auto

lemma find_filter_none: "(\<And>h. P h \<Longrightarrow> \<not> Q h) \<Longrightarrow> find P (filter Q hs) = None"
  by (induction hs) auto

lemma find_others:
  "find (holder_of x) (filter (\<lambda>h. \<not> owned ses fh h) hs) = (if x = (ses, fh) then None else find (holder_of x) hs)"
proof (cases "x = (ses, fh)")
  case True
  then show ?thesis by (simp, intro find_filter_none) (auto simp: holder_of_iff owned_iff)
next
  case False
  then show ?thesis by (simp, intro find_filter_same) (auto simp: holder_of_iff owned_iff)
qed

lemma find_snoc: "find P (xs @ [y]) = (case find P xs of Some x \<Rightarrow> Some x | None \<Rightarrow> if P y then Some y else None)"
  by (induction xs) auto

lemma holds_entry: "holds m p x = map_option h_kind (find (holder_of x) (le_holders (entry_of m p)))"
  by (simp add: holds_def entry_of_def entry_default_def split: option.splits)

lemma entry_of_put: "entry_of (hm_put p e m) q = (if q = p then e else entry_of m q)"
  by (simp add: entry_of_def hmap_simps)

lemma entry_of_del: "entry_of (hm_del p m) q = (if q = p then entry_default else entry_of m q)"
  by (simp add: entry_of_def hmap_simps)

lemma try_lock_holders:
  "le_holders (entry_of (snd (try_lock m p w k)) q) =
    (if q = p then others m p (fst w) (snd w) @
       (if fst (try_lock m p w k) then [\<lparr>h_session = fst w, h_fh = snd w, h_kind = k\<rparr>] else [])
     else le_holders (entry_of m q))"
  by (cases rule: lock_attempt_cases [of m p "fst w" "snd w" k False 0])
    (simp_all add: try_lock_def entry_of_put)

lemma holds_try_lock:
  "holds (snd (try_lock m p w k)) q x =
    (if q = p \<and> x = w then (if fst (try_lock m p w k) then Some k else None) else holds m q x)"
proof (cases "q = p")
  case True
  have new: "holder_of x \<lparr>h_session = fst w, h_fh = snd w, h_kind = k\<rparr> \<longleftrightarrow> x = w"
    by (auto simp: holder_of_iff)
  show ?thesis
    unfolding holds_entry try_lock_holders others_def using True new
    by (cases "x = w"; cases "fst (try_lock m p w k)"; cases "find (holder_of x) (le_holders (entry_of m p))")
      (simp_all add: find_snoc find_others)
qed (simp add: holds_entry try_lock_holders)

lemma holds_free_lock: "holds (free_lock m p w) q x = (if q = p \<and> x = w then None else holds m q x)"
proof (cases "hm_get m p")
  case None
  then show ?thesis by (auto simp: free_lock_def unlock_def holds_def)
next
  case (Some e)
  then have e: "entry_of m p = e" by (simp add: entry_of_def)
  have "le_holders (entry_of (free_lock m p w) q) =
      (if q = p then filter (\<lambda>h. \<not> owned (fst w) (snd w) h) (le_holders e) else le_holders (entry_of m q))"
    using unlock_entry [OF Some, of "fst w" "snd w"]
    by (auto simp: free_lock_def entry_of_put entry_of_del entry_default_def)
  then show ?thesis by (simp add: holds_entry find_others e)
qed

lemma compatible_iff_holds:
  assumes "manager_ok m"
  shows "compatible (others m p ses fh) k \<longleftrightarrow>
    (\<forall>x k'. x \<noteq> (ses, fh) \<longrightarrow> holds m p x = Some k' \<longrightarrow> k = Shared \<and> k' = Shared)"
proof -
  let ?hs = "le_holders (entry_of m p)"
  have dist: "distinct (map (\<lambda>h. (h_session h, h_fh h)) ?hs)"
    using entry_of_ok [OF assms] by (simp add: holders_ok_def)
  have found: "find (holder_of x) hs = Some h \<longleftrightarrow> h \<in> set hs \<and> (h_session h, h_fh h) = x"
    if "distinct (map (\<lambda>h. (h_session h, h_fh h)) hs)" for x h hs
    using that by (induction hs) (auto simp: holder_of_iff image_iff)
  have held: "holds m p x = Some k' \<longleftrightarrow> (\<exists>h\<in>set ?hs. (h_session h, h_fh h) = x \<and> h_kind h = k')" for x k'
    using found [OF dist] by (auto simp: holds_entry)
  show ?thesis
    by (cases k) (auto simp: compatible_def others_def list_all_iff owned_def held filter_empty_conv)
qed

lemma try_lock_iff:
  assumes "manager_ok m"
  shows "fst (try_lock m p w k) \<longleftrightarrow>
    (\<forall>x k'. x \<noteq> w \<longrightarrow> holds m p x = Some k' \<longrightarrow> k = Shared \<and> k' = Shared)"
  using compatible_iff_holds [OF assms, of p "fst w" "snd w" k]
  by (cases rule: lock_attempt_cases [of m p "fst w" "snd w" k False 0])
    (simp_all add: try_lock_def)

interpretation lt: lock_table manager_ok holds try_lock free_lock
proof
  show "manager_ok m \<Longrightarrow> manager_ok (snd (try_lock m p w k))" for m p w k
    using lock_attempt_ok [of m p "fst w" "snd w" k False 0] by (auto simp: try_lock_def split: prod.splits)
  show "manager_ok m \<Longrightarrow> manager_ok (free_lock m p w)" for m p w
    by (simp add: free_lock_def unlock_ok)
qed (simp_all add: try_lock_iff holds_try_lock holds_free_lock)

section \<open>Invariants of the interleavings\<close>

definition queued :: "LockEntry \<Rightarrow> nat set" where
  "queued e = w_wake ` set (le_waiters e)"

text \<open>Queues and parked tasks describe each other, tickets are unique, and no entry is empty.\<close>

definition base_inv :: "LockSys \<Rightarrow> bool" where
  "base_inv s =
    (manager_ok (ls_locks s)
     \<and> distinct (map fst (ls_parked s)) \<and> (\<forall>k t. (k, t) \<in> set (ls_parked s) \<longrightarrow> k < ls_next s)
     \<and> (\<forall>p e. hm_get (ls_locks s) p = Some e \<longrightarrow>
          distinct (map w_wake (le_waiters e)) \<and> (le_holders e \<noteq> [] \<or> le_waiters e \<noteq> [])
          \<and> (\<forall>k\<in>queued e. \<exists>t. (k, t) \<in> set (ls_parked s) \<and> lt_path t = p))
     \<and> (\<forall>k t. (k, t) \<in> set (ls_parked s) \<longrightarrow>
          (\<exists>e. hm_get (ls_locks s) (lt_path t) = Some e \<and> k \<in> queued e)))"

text \<open>Nobody sleeps on a free lock: a queue is backed by a holder or by a task about to retry.\<close>

definition wake_inv :: "LockSys \<Rightarrow> RelPath \<Rightarrow> bool" where
  "wake_inv s p =
    (\<forall>e. hm_get (ls_locks s) p = Some e \<longrightarrow> le_waiters e \<noteq> [] \<longrightarrow>
      le_holders e \<noteq> [] \<or> (\<exists>t\<in>set (ls_ready s). lt_path t = p))"

definition sys_inv :: "LockSys \<Rightarrow> bool" where
  "sys_inv s = (base_inv s \<and> (\<forall>p. wake_inv s p))"

lemma entry_of_waiters:
  "base_inv s \<Longrightarrow> k \<in> queued (entry_of (ls_locks s) p) \<Longrightarrow> \<exists>t. (k, t) \<in> set (ls_parked s) \<and> lt_path t = p"
  by (auto simp: base_inv_def entry_of_def entry_default_def queued_def split: option.splits)

lemma entry_of_distinct: "base_inv s \<Longrightarrow> distinct (map w_wake (le_waiters (entry_of (ls_locks s) p)))"
  by (auto simp: base_inv_def entry_of_def entry_default_def split: option.splits)

lemma parked_at_path:
  assumes "base_inv s" "(k, t) \<in> set (ls_parked s)"
  shows "k \<in> queued (entry_of (ls_locks s) (lt_path t))" "k < ls_next s"
proof -
  obtain e where "hm_get (ls_locks s) (lt_path t) = Some e" "k \<in> queued e"
    using assms unfolding base_inv_def by blast
  then show "k \<in> queued (entry_of (ls_locks s) (lt_path t))" by (simp add: entry_of_def)
  show "k < ls_next s" using assms unfolding base_inv_def by blast
qed

text \<open>A turn that keeps the queue, or appends its own ticket, keeps the invariant.\<close>

lemma base_inv_same_queue:
  assumes "base_inv s" "le_waiters e = le_waiters (entry_of (ls_locks s) p)"
    and "le_holders e \<noteq> []" "holders_ok (le_holders e)"
  shows "base_inv (s\<lparr>ls_locks := hm_put p e (ls_locks s)\<rparr>)"
proof -
  have q: "queued e = queued (entry_of (ls_locks s) p)" using assms(2) by (simp add: queued_def)
  have "\<exists>e'. hm_get (hm_put p e (ls_locks s)) (lt_path t) = Some e' \<and> k \<in> queued e'"
    if "(k, t) \<in> set (ls_parked s)" for k t
    using that assms(1) parked_at_path [OF assms(1) that] q
    by (auto simp: base_inv_def hmap_simps)
  then show ?thesis
    using assms entry_of_waiters [OF assms(1), of _ p] entry_of_distinct [OF assms(1), of p] q
    unfolding base_inv_def by (auto simp: hmap_simps manager_ok_put)
qed

lemma base_inv_enqueue:
  assumes "base_inv s" "le_waiters e = le_waiters (entry_of (ls_locks s) p) @ [w]"
    and "w_wake w = ls_next s" "holders_ok (le_holders e)" "lt_path t = p"
  shows "base_inv (s\<lparr>ls_locks := hm_put p e (ls_locks s),
    ls_parked := (ls_next s, t) # ls_parked s, ls_next := Suc (ls_next s)\<rparr>)"
proof -
  have q: "queued e = insert (ls_next s) (queued (entry_of (ls_locks s) p))"
    using assms(2,3) by (auto simp: queued_def)
  have fresh: "k \<noteq> ls_next s" if "k \<in> queued (entry_of (ls_locks s) p')" for k p'
    using entry_of_waiters [OF assms(1) that] parked_at_path(2) [OF assms(1)] by fastforce
  have fresh': "ls_next s \<notin> fst ` set (ls_parked s)"
    using parked_at_path(2) [OF assms(1)] by fastforce
  have "distinct (map w_wake (le_waiters e))"
    using assms(2,3) entry_of_distinct [OF assms(1), of p] fresh [of _ p] by (auto simp: queued_def)
  moreover have "\<exists>e'. hm_get (hm_put p e (ls_locks s)) (lt_path t') = Some e' \<and> k \<in> queued e'"
    if "(k, t') \<in> set (ls_parked s)" for k t'
    using that assms(1) parked_at_path [OF assms(1) that] q
    by (auto simp: base_inv_def hmap_simps)
  ultimately show ?thesis
    using assms entry_of_waiters [OF assms(1), of _ p] q fresh'
    unfolding base_inv_def by (auto simp: hmap_simps manager_ok_put less_SucI) blast+
qed

lemma take_turn_inv:
  assumes "base_inv s" "\<And>p. p \<noteq> lt_path t \<Longrightarrow> wake_inv s p" "take_turn t wait s = (out, s')"
  shows "sys_inv s'"
proof -
  let ?m = "ls_locks s" and ?p = "lt_path t"
  let ?oth = "others ?m ?p (lt_session t) (lt_fh t)"
  have mok: "manager_ok ?m" using assms(1) by (simp add: base_inv_def)
  have "base_inv s' \<and> ls_ready s' = ls_ready s \<and> (\<forall>q. q \<noteq> ?p \<longrightarrow> hm_get (ls_locks s') q = hm_get ?m q)
      \<and> (\<forall>e. hm_get (ls_locks s') ?p = Some e \<longrightarrow> le_holders e \<noteq> [])"
  proof (cases rule: lock_attempt_cases [of ?m ?p "lt_session t" "lt_fh t" "lt_kind t" wait "ls_next s"])
    case granted
    then show ?thesis
      using assms(1,3) holders_ok_snoc [OF entry_of_ok [OF mok], of "lt_session t" "lt_fh t" ?p "lt_kind t"]
      by (auto simp: take_turn_def others_def hmap_simps intro!: base_inv_same_queue)
  next
    case refused
    then have "?oth \<noteq> []" by auto
    then show ?thesis
      using assms(1,3) refused others_ok [OF mok]
      by (auto simp: take_turn_def hmap_simps intro!: base_inv_same_queue)
  next
    case parked
    then have "?oth \<noteq> []" by auto
    then show ?thesis
      using assms(1,3) parked others_ok [OF mok]
      by (auto simp: take_turn_def hmap_simps intro!: base_inv_enqueue)
  qed
  then show ?thesis
    using assms(2) unfolding sys_inv_def wake_inv_def by metis
qed

text \<open>Resolving tickets: what happens to one entry when a set of tickets is resolved.\<close>

definition settles :: "nat set \<Rightarrow> LockEntry \<Rightarrow> LockEntry \<Rightarrow> bool" where
  "settles ts e e' =
    (holders_ok (le_holders e') \<and> distinct (map w_wake (le_waiters e'))
     \<and> queued e' = queued e - ts
     \<and> (le_waiters e' \<noteq> [] \<longrightarrow> le_holders e' \<noteq> [] \<or> queued e \<inter> ts \<noteq> {} \<or> e' = e))"

lemma resolve_inv:
  assumes inv: "sys_inv s" and ok: "hm_ok m'"
    and gone: "\<And>p. hm_get (ls_locks s) p = None \<Longrightarrow> hm_get m' p = None"
    and entries: "\<And>p e. hm_get (ls_locks s) p = Some e \<Longrightarrow> \<exists>e'. settles (set ts) e e'
          \<and> hm_get m' p = (if le_holders e' = [] \<and> le_waiters e' = [] then None else Some e')"
  shows "sys_inv (resolve_tickets ts (s\<lparr>ls_locks := m'\<rparr>))" (is "sys_inv ?s'")
proof -
  have base: "base_inv s" and wake: "\<And>p. wake_inv s p" using inv by (simp_all add: sys_inv_def)
  have parked: "set (ls_parked ?s') = {(k, t). (k, t) \<in> set (ls_parked s) \<and> k \<notin> set ts}"
    and ready: "set (ls_ready ?s') = set (ls_ready s) \<union> {t. \<exists>k\<in>set ts. (k, t) \<in> set (ls_parked s)}"
    and locks: "ls_locks ?s' = m'" "ls_next ?s' = ls_next s"
    by (auto simp: resolve_tickets_def image_iff)
  have old: "\<exists>e. hm_get (ls_locks s) p = Some e \<and> settles (set ts) e e'" if "hm_get m' p = Some e'" for p e'
    using gone [of p] entries [of p] that by (cases "hm_get (ls_locks s) p") (auto split: if_splits)
  have "base_inv ?s'"
    unfolding base_inv_def locks
  proof (intro conjI allI impI)
    show "manager_ok m'" using old ok by (intro manager_okI) (auto simp: settles_def)
    have "distinct (map fst (filter P ps))" if "distinct (map fst ps)" for P and ps :: "(nat \<times> LockTask) list"
      using that by (rule distinct_map_filter)
    then show "distinct (map fst (ls_parked ?s'))"
      using base by (simp add: resolve_tickets_def base_inv_def)
    show "k < ls_next s" if "(k, t) \<in> set (ls_parked ?s')" for k t
      using that parked parked_at_path(2) [OF base] by auto
    fix p e' assume e': "hm_get m' p = Some e'"
    then obtain e where e: "hm_get (ls_locks s) p = Some e" "settles (set ts) e e'" using old by blast
    show "distinct (map w_wake (le_waiters e'))" using e by (simp add: settles_def)
    show "le_holders e' \<noteq> [] \<or> le_waiters e' \<noteq> []"
      using entries [OF e(1)] e' by (auto split: if_splits)
    show "\<forall>k\<in>queued e'. \<exists>t. (k, t) \<in> set (ls_parked ?s') \<and> lt_path t = p"
      using e base parked unfolding base_inv_def settles_def by blast
  next
    fix k t assume k: "(k, t) \<in> set (ls_parked ?s')"
    then obtain e where e: "hm_get (ls_locks s) (lt_path t) = Some e" "k \<in> queued e" "k \<notin> set ts"
      using parked base unfolding base_inv_def by blast
    then obtain e' where e': "settles (set ts) e e'"
      "hm_get m' (lt_path t) = (if le_holders e' = [] \<and> le_waiters e' = [] then None else Some e')"
      using entries [OF e(1)] by blast
    then have "k \<in> queued e'" using e by (simp add: settles_def)
    moreover then have "le_waiters e' \<noteq> []" by (auto simp: queued_def)
    ultimately show "\<exists>e. hm_get m' (lt_path t) = Some e \<and> k \<in> queued e" using e' by simp
  qed
  moreover have "wake_inv ?s' p" for p
    unfolding wake_inv_def locks
  proof (intro allI impI)
    fix e' assume e': "hm_get m' p = Some e'" "le_waiters e' \<noteq> []"
    then obtain e where e: "hm_get (ls_locks s) p = Some e" "settles (set ts) e e'" using old by blast
    have "\<exists>t\<in>set (ls_ready ?s'). lt_path t = p" if "queued e \<inter> set ts \<noteq> {}"
      using that e(1) base ready unfolding base_inv_def by blast
    moreover have "le_holders e' \<noteq> [] \<or> (\<exists>t\<in>set (ls_ready ?s'). lt_path t = p)" if "e' = e"
      using that wake [of p] e(1) e'(2) ready unfolding wake_inv_def by blast
    ultimately show "le_holders e' \<noteq> [] \<or> (\<exists>t\<in>set (ls_ready ?s'). lt_path t = p)"
      using e(2) e'(2) unfolding settles_def by blast
  qed
  ultimately show ?thesis by (simp add: sys_inv_def)
qed

lemma settles_cong: "queued e \<inter> ts = queued e \<inter> ts' \<Longrightarrow> settles ts e e' \<Longrightarrow> settles ts' e e'"
  unfolding settles_def by blast

lemma settles_refl:
  "holders_ok (le_holders e) \<Longrightarrow> distinct (map w_wake (le_waiters e)) \<Longrightarrow> queued e \<inter> ts = {} \<Longrightarrow> settles ts e e"
  unfolding settles_def by blast

lemma wake_settles:
  assumes "wake_waiters e0 = (woken, e')" "le_waiters e0 = filter P (le_waiters e)"
    and "distinct (map w_wake (le_waiters e))" "holders_ok (le_holders e0)"
  shows "settles (set (map w_wake (filter (\<lambda>w. \<not> P w) (le_waiters e)) @ woken)) e e'"
proof -
  obtain pre where pre: "filter P (le_waiters e) = pre @ le_waiters e'" "woken = map w_wake pre"
    using wake_waiters_spec(2) [OF assms(1)] assms(2) by auto
  let ?no = "filter (\<lambda>w. \<not> P w) (le_waiters e)"
  have dist: "distinct (map w_wake (pre @ le_waiters e'))"
    unfolding pre(1) [symmetric] using assms(3) by (rule distinct_map_filter)
  have "set (le_waiters e) = set ?no \<union> set (filter P (le_waiters e))" by auto
  then have all: "set (le_waiters e) = set ?no \<union> set pre \<union> set (le_waiters e')"
    unfolding pre(1) by (simp only: set_append Un_assoc)
  have inj: "inj_on w_wake (set (le_waiters e))" using assms(3) by (simp add: distinct_map)
  define A B C where "A = w_wake ` set ?no" and "B = w_wake ` set pre" and "C = w_wake ` set (le_waiters e')"
  have "set (filter P (le_waiters e)) \<subseteq> Collect P" by auto
  then have "set (le_waiters e') \<subseteq> Collect P" unfolding pre(1) by simp
  then have "set ?no \<inter> set (le_waiters e') = {}" by auto
  moreover have "set ?no \<subseteq> set (le_waiters e)" "set (le_waiters e') \<subseteq> set (le_waiters e)"
    using all by blast+
  then have "w_wake ` (set ?no \<inter> set (le_waiters e')) = A \<inter> C"
    unfolding A_def C_def by (rule inj_on_image_Int [OF inj])
  ultimately have "A \<inter> C = {}" by simp
  moreover have "B \<inter> C = {}" using dist unfolding B_def C_def by simp
  moreover have qe: "queued e = A \<union> B \<union> C"
    unfolding queued_def all A_def B_def C_def by (simp only: image_Un)
  moreover have ts: "set (map w_wake ?no @ woken) = A \<union> B" unfolding A_def B_def pre(2) by simp
  ultimately have "queued e' = queued e - set (map w_wake ?no @ woken)"
    unfolding queued_def [of e'] C_def [symmetric] by blast
  moreover have "queued e \<inter> set (map w_wake ?no @ woken) \<noteq> {}" if "woken \<noteq> []"
  proof -
    have "B \<noteq> {}" using that unfolding pre(2) B_def by simp
    then show ?thesis unfolding qe ts by blast
  qed
  ultimately show ?thesis
    using wake_waiters_spec(1,3) [OF assms(1)] assms(4) dist unfolding settles_def by (metis distinct_append map_append)
qed

lemma queues_disjoint:
  assumes "base_inv s" "hm_get (ls_locks s) p = Some e" "hm_get (ls_locks s) q = Some e'" "p \<noteq> q"
  shows "queued e \<inter> queued e' = {}"
proof -
  have uniq: "t = t'" if "(k, t) \<in> set (ls_parked s)" "(k, t') \<in> set (ls_parked s)" for k t t'
    using that assms(1) unfolding base_inv_def by (meson eq_key_imp_eq_value)
  have tasks: "\<exists>t. (k, t) \<in> set (ls_parked s) \<and> lt_path t = r"
    if "k \<in> queued e''" "hm_get (ls_locks s) r = Some e''" for k r e''
    using that assms(1) unfolding base_inv_def by blast
  show ?thesis
  proof (rule ccontr)
    assume "queued e \<inter> queued e' \<noteq> {}"
    then obtain k where "k \<in> queued e" "k \<in> queued e'" by blast
    then obtain t t' where "(k, t) \<in> set (ls_parked s)" "lt_path t = p" "(k, t') \<in> set (ls_parked s)" "lt_path t' = q"
      using tasks assms(2,3) by blast
    then show False using uniq assms(4) by blast
  qed
qed

lemma unlock_inv:
  assumes "sys_inv s" "unlock (ls_locks s) p ses fh = (woken, m)"
  shows "sys_inv (resolve_tickets woken (s\<lparr>ls_locks := m\<rparr>))"
proof -
  have base: "base_inv s" and mok: "manager_ok (ls_locks s)"
    using assms(1) by (simp_all add: sys_inv_def base_inv_def)
  have fine: "settles {} e e" if "hm_get (ls_locks s) q = Some e" for q e
    using base that manager_ok_get [OF mok that] by (intro settles_refl) (auto simp: base_inv_def)
  have nonempty: "le_holders e \<noteq> [] \<or> le_waiters e \<noteq> []" if "hm_get (ls_locks s) q = Some e" for q e
    using base that unfolding base_inv_def by blast
  show ?thesis
  proof (cases "hm_get (ls_locks s) p")
    case None
    then have "woken = []" "m = ls_locks s" using assms(2) by (simp_all add: unlock_def)
    then show ?thesis using assms(1) by (simp add: resolve_tickets_def)
  next
    case (Some e)
    let ?e0 = "e\<lparr>le_holders := filter (\<lambda>h. \<not> owned ses fh h) (le_holders e)\<rparr>"
    obtain e' where e': "wake_waiters ?e0 = (woken, e')"
      "m = (if le_holders e' = [] \<and> le_waiters e' = [] then hm_del p (ls_locks s) else hm_put p e' (ls_locks s))"
      using unlock_entry [OF Some, of ses fh] assms(2) by auto
    have "settles (set woken) e e'"
      using wake_settles [OF e'(1), of "\<lambda>_. True" e] base Some holders_ok_filter manager_ok_get [OF mok Some]
      by (auto simp: base_inv_def)
    moreover have "set woken \<subseteq> queued e"
      using wake_waiters_spec(2) [OF e'(1)] by (auto simp: queued_def)
    then have "settles (set woken) e2 e2" if "hm_get (ls_locks s) q = Some e2" "q \<noteq> p" for q e2
      using settles_cong [OF _ fine [OF that(1)], of "set woken"] queues_disjoint [OF base that(1) Some that(2)] by auto
    ultimately have settle: "\<exists>e'. settles (set woken) e2 e'
        \<and> hm_get m q = (if le_holders e' = [] \<and> le_waiters e' = [] then None else Some e')"
      if "hm_get (ls_locks s) q = Some e2" for q e2
      using that Some e'(2) nonempty by (cases "q = p") (fastforce simp: hmap_simps)+
    show ?thesis
      by (rule resolve_inv [OF assms(1) _ _ settle])
        (use Some e'(2) mok in \<open>auto simp: manager_ok_def hmap_simps\<close>)
  qed
qed

definition left_over :: "u64 \<Rightarrow> LockEntry \<Rightarrow> LockEntry option" where
  "left_over ses e = (let e' = snd (snd (release_entry ses e)) in
     if le_holders e' = [] \<and> le_waiters e' = [] then None else Some e')"

lemma release_session_Cons:
  assumes "release_session ((q, e) # m) ses = (ts, n, m')"
  obtains ts1 n1 m1 where "release_session m ses = (ts1, n1, m1)"
    "ts = fst (release_entry ses e) @ ts1" "n = fst (snd (release_entry ses e)) + n1"
    "m' = (case left_over ses e of None \<Rightarrow> m1 | Some e' \<Rightarrow> (q, e') # m1)"
  using assms by (auto simp: left_over_def Let_def split: prod.splits if_splits)

lemma freed_holds:
  "fst (snd (release_entry ses e)) = length (filter (\<lambda>h. h_session h = ses) (le_holders e))"
proof -
  have "length xs - length (filter (\<lambda>h. h_session h \<noteq> ses) xs) = length (filter (\<lambda>h. h_session h = ses) xs)" for xs
    using sum_length_filter_compl [of "\<lambda>h. h_session h = ses" xs] by simp
  then show ?thesis by (simp add: release_entry_def Let_def split: prod.splits)
qed

lemma release_session_spec:
  assumes "release_session m ses = (ts, n, m')" "hm_ok m"
  shows "set ts = (\<Union>(p, e)\<in>set m. set (fst (release_entry ses e)))
    \<and> n = sum_list (map (\<lambda>(p, e). length (filter (\<lambda>h. h_session h = ses) (le_holders e))) m)
    \<and> fst ` set m' \<subseteq> fst ` set m \<and> hm_ok m'
    \<and> (\<forall>p. hm_get m' p = (case hm_get m p of None \<Rightarrow> None | Some e \<Rightarrow> left_over ses e))"
  using assms
proof (induction m arbitrary: ts n m')
  case (Cons x m)
  obtain q e where x: "x = (q, e)" by fastforce
  obtain ts1 n1 m1 where rs: "release_session m ses = (ts1, n1, m1)"
    and out: "ts = fst (release_entry ses e) @ ts1" "n = fst (snd (release_entry ses e)) + n1"
      "m' = (case left_over ses e of None \<Rightarrow> m1 | Some e' \<Rightarrow> (q, e') # m1)"
    using release_session_Cons Cons.prems(1) unfolding x by blast
  have ok: "hm_ok m" "q \<notin> fst ` set m" using Cons.prems(2) x by (simp_all add: hm_ok_def)
  have ts1: "set ts1 = (\<Union>(p, e)\<in>set m. set (fst (release_entry ses e)))"
    and n1: "n1 = sum_list (map (\<lambda>(p, e). length (filter (\<lambda>h. h_session h = ses) (le_holders e))) m)"
    and keys: "fst ` set m1 \<subseteq> fst ` set m" and ok1: "hm_ok m1"
    and get: "\<And>p. hm_get m1 p = (case hm_get m p of None \<Rightarrow> None | Some e \<Rightarrow> left_over ses e)"
    using Cons.IH [OF rs ok(1)] by simp_all
  have q: "q \<notin> fst ` set m1" "hm_get m q = None" using ok(2) keys by (auto simp: map_of_eq_None_iff)
  have q1: "hm_get m1 q = None" using get [of q] q(2) by simp
  have "fst ` set m' \<subseteq> fst ` set (x # m)"
    using keys unfolding out x by (cases "left_over ses e") (simp_all add: subset_insertI2)
  moreover have "hm_ok m'"
    using ok1 q(1) unfolding out by (cases "left_over ses e") (simp_all add: hm_ok_def)
  moreover have "hm_get m' p = (case hm_get (x # m) p of None \<Rightarrow> None | Some e \<Rightarrow> left_over ses e)" for p
    unfolding out x using get [of p] q1 by (cases "left_over ses e"; cases "p = q") simp_all
  moreover have "set ts = (\<Union>(p, e)\<in>set (x # m). set (fst (release_entry ses e)))"
    unfolding out x using ts1 by simp
  moreover have "n = sum_list (map (\<lambda>(p, e). length (filter (\<lambda>h. h_session h = ses) (le_holders e))) (x # m))"
    unfolding out x using n1 by (simp add: freed_holds)
  ultimately show ?case by blast
qed simp

lemma release_entry_parts:
  assumes "release_entry ses e = (ts, n, e')"
  obtains woken where "ts = map w_wake (filter (\<lambda>w. \<not> w_session w \<noteq> ses) (le_waiters e)) @ woken"
    "wake_waiters (e\<lparr>le_holders := filter (\<lambda>h. h_session h \<noteq> ses) (le_holders e),
       le_waiters := filter (\<lambda>w. w_session w \<noteq> ses) (le_waiters e)\<rparr>) = (woken, e')"
  using assms by (auto simp: release_entry_def Let_def split: prod.splits)

lemma release_entry_frees:
  assumes "release_entry ses e = (ts, n, e')"
  shows "le_holders e' = filter (\<lambda>h. h_session h \<noteq> ses) (le_holders e)"
    and "set (le_waiters e') \<subseteq> {w \<in> set (le_waiters e). w_session w \<noteq> ses}"
    and "set ts \<subseteq> queued e"
proof -
  obtain woken where w: "ts = map w_wake (filter (\<lambda>w. \<not> w_session w \<noteq> ses) (le_waiters e)) @ woken"
    "wake_waiters (e\<lparr>le_holders := filter (\<lambda>h. h_session h \<noteq> ses) (le_holders e),
       le_waiters := filter (\<lambda>w. w_session w \<noteq> ses) (le_waiters e)\<rparr>) = (woken, e')"
    using release_entry_parts [OF assms] .
  show "le_holders e' = filter (\<lambda>h. h_session h \<noteq> ses) (le_holders e)"
    using wake_waiters_spec(1) [OF w(2)] by simp
  obtain pre where pre: "filter (\<lambda>w. w_session w \<noteq> ses) (le_waiters e) = pre @ le_waiters e'" "woken = map w_wake pre"
    using wake_waiters_spec(2) [OF w(2)] by auto
  then have sets: "set pre \<union> set (le_waiters e') = {w \<in> set (le_waiters e). w_session w \<noteq> ses}"
    by (metis set_append set_filter)
  then show "set (le_waiters e') \<subseteq> {w \<in> set (le_waiters e). w_session w \<noteq> ses}" by blast
  have "set pre \<subseteq> set (le_waiters e)" using sets by blast
  then show "set ts \<subseteq> queued e" unfolding w(1) pre(2) queued_def by (simp add: image_mono subset_iff) blast
qed

lemma release_inv:
  assumes "sys_inv s" "release_session (ls_locks s) ses = (ts, n, m)"
  shows "sys_inv (resolve_tickets ts (s\<lparr>ls_locks := m\<rparr>))"
proof -
  let ?m = "ls_locks s"
  have base: "base_inv s" and mok: "manager_ok ?m" and hm: "hm_ok ?m"
    using assms(1) by (simp_all add: sys_inv_def base_inv_def manager_ok_def)
  have ts: "set ts = (\<Union>(p, e)\<in>set ?m. set (fst (release_entry ses e)))" and ok: "hm_ok m"
    and get: "\<And>p. hm_get m p = (case hm_get ?m p of None \<Rightarrow> None | Some e \<Rightarrow> left_over ses e)"
    using release_session_spec [OF assms(2) hm] by simp_all
  have sub: "set (fst (release_entry ses e)) \<subseteq> queued e" for e
    using release_entry_frees(3) [of ses e] by (metis prod.collapse)
  have "\<exists>e'. settles (set ts) e e' \<and> hm_get m p = (if le_holders e' = [] \<and> le_waiters e' = [] then None else Some e')"
    if e: "hm_get ?m p = Some e" for p e
  proof (intro exI conjI)
    obtain r k e' where re: "release_entry ses e = (r, k, e')" by (metis prod_cases3)
    obtain woken where w: "r = map w_wake (filter (\<lambda>w. \<not> w_session w \<noteq> ses) (le_waiters e)) @ woken"
      "wake_waiters (e\<lparr>le_holders := filter (\<lambda>h. h_session h \<noteq> ses) (le_holders e),
         le_waiters := filter (\<lambda>w. w_session w \<noteq> ses) (le_waiters e)\<rparr>) = (woken, e')"
      using release_entry_parts [OF re] .
    have "settles (set r) e e'"
      unfolding w(1)
      using base e holders_ok_filter [OF manager_ok_get [OF mok e]]
      by (intro wake_settles [OF w(2)]) (simp_all add: base_inv_def)
    moreover have "queued e \<inter> set ts = queued e \<inter> set r"
    proof -
      have "queued e \<inter> queued e2 = {}" if "(q, e2) \<in> set ?m" "q \<noteq> p" for q e2
        using queues_disjoint [OF base e _ that(2) [symmetric]] that(1) hm_get_set [OF hm, of q e2] by blast
      moreover have "e2 = e" if "(p, e2) \<in> set ?m" for e2
        using that e hm_get_set [OF hm, of p e2] by simp
      ultimately have "k \<in> set r" if "k \<in> queued e" "(q, e2) \<in> set ?m" "k \<in> set (fst (release_entry ses e2))" for k q e2
        using that sub [of e2] re by (cases "q = p") (simp, blast)
      moreover have "(p, e) \<in> set ?m" using e hm_get_set [OF hm, of p e] by simp
      then have "set r \<subseteq> set ts" unfolding ts using re by force
      ultimately show ?thesis unfolding ts by blast
    qed
    ultimately show "settles (set ts) e (snd (snd (release_entry ses e)))"
      using settles_cong re by (metis snd_conv)
    show "hm_get m p = (if le_holders (snd (snd (release_entry ses e))) = []
        \<and> le_waiters (snd (snd (release_entry ses e))) = [] then None else Some (snd (snd (release_entry ses e))))"
      using get [of p] e by (simp add: left_over_def Let_def)
  qed
  then show ?thesis using get ok by (intro resolve_inv [OF assms(1)]) auto
qed

lemma lock_step_inv: "lock_step s a s' \<Longrightarrow> sys_inv s \<Longrightarrow> sys_inv s'"
proof (induction rule: lock_step.induct)
  case (call t wait s out s')
  then show ?case using take_turn_inv [of s t wait out s'] by (simp add: sys_inv_def)
next
  case (retry s xs t ys out s')
  let ?s = "s\<lparr>ls_ready := xs @ ys\<rparr>"
  have "base_inv ?s" using retry.prems by (simp add: sys_inv_def base_inv_def)
  moreover have "wake_inv ?s p" if "p \<noteq> lt_path t" for p
    using retry that by (auto simp: sys_inv_def wake_inv_def)
  ultimately show ?case using take_turn_inv retry.hyps(2) by blast
next
  case (unlock s p ses fh woken m)
  then show ?case by (simp add: unlock_inv)
next
  case (release s ses resolved n m)
  then show ?case by (simp add: release_inv)
qed

lemma sys_init_inv: "sys_inv sys_init"
  by (simp add: sys_inv_def base_inv_def wake_inv_def sys_init_def manager_ok_def)

lemma lock_run_inv: "lock_run s acts s' \<Longrightarrow> sys_inv s \<Longrightarrow> sys_inv s'"
  by (induction rule: lock_run.induct) (simp_all add: lock_step_inv)

section \<open>Properties\<close>

text \<open>C3: mutual exclusion.  After any interleaving of lock calls, retries of woken waiters, unlocks
  and session releases, an owner appears at most once among the holders of a path, and a path is
  held either by shared holders only or by exactly one holder.\<close>

theorem lock_mutual_exclusion:
  assumes "lock_run sys_init acts s" "hm_get (ls_locks s) p = Some e"
  shows "distinct (map (\<lambda>h. (h_session h, h_fh h)) (le_holders e))
    \<and> (list_all (\<lambda>h. h_kind h = Shared) (le_holders e) \<or> length (le_holders e) = 1)"
  using lock_run_inv [OF assms(1) sys_init_inv] manager_ok_get [OF _ assms(2)]
  by (simp add: sys_inv_def base_inv_def holders_ok_def)

abbreviation task :: "string \<Rightarrow> u64 \<Rightarrow> u64 \<Rightarrow> LockKind \<Rightarrow> LockTask" where
  "task p ses fh k \<equiv> \<lparr>lt_path = p, lt_session = ses, lt_fh = fh, lt_kind = k\<rparr>"

text \<open>Runs for the witnesses: session 1 takes \<open>a\<close> exclusively, session 2 waits for it and is released
  while waiting, session 1 unlocks, and the task of session 2 retries.\<close>

definition demo1 :: LockSys where "demo1 = snd (take_turn (task ''a'' 1 1 Exclusive) False sys_init)"
definition demo2 :: LockSys where "demo2 = snd (take_turn (task ''a'' 2 1 Shared) True demo1)"
definition demo3 :: LockSys where
  "demo3 = (case release_session (ls_locks demo2) 2 of (ts, n, m) \<Rightarrow> resolve_tickets ts (demo2\<lparr>ls_locks := m\<rparr>))"
definition demo4 :: LockSys where
  "demo4 = (case unlock (ls_locks demo3) ''a'' 1 1 of (ts, m) \<Rightarrow> resolve_tickets ts (demo3\<lparr>ls_locks := m\<rparr>))"
definition demo5 :: LockSys where
  "demo5 = snd (take_turn (task ''a'' 2 1 Shared) True (demo4\<lparr>ls_ready := []\<rparr>))"

definition demo_acts :: "LockAct list" where
  "demo_acts = [ActLock (task ''a'' 1 1 Exclusive) False Granted, ActLock (task ''a'' 2 1 Shared) True Parked]"

lemma demo_run: "lock_run sys_init demo_acts demo2"
proof -
  have "take_turn (task ''a'' 1 1 Exclusive) False sys_init = (Granted, demo1)"
    "take_turn (task ''a'' 2 1 Shared) True demo1 = (Parked, demo2)" by code_simp+
  then have "lock_run sys_init (([] @ [ActLock (task ''a'' 1 1 Exclusive) False Granted])
      @ [ActLock (task ''a'' 2 1 Shared) True Parked]) demo2"
    by (intro run_snoc [OF run_snoc [OF run_nil]] call)
  then show ?thesis by (simp add: demo_acts_def)
qed

lemma demo_state:
  "ls_parked demo2 = [(0, task ''a'' 2 1 Shared)]"
  "hm_get (ls_locks demo2) ''a'' = Some \<lparr>le_holders = [\<lparr>h_session = 1, h_fh = 1, h_kind = Exclusive\<rparr>],
     le_waiters = [\<lparr>w_session = 2, w_kind = Shared, w_wake = 0\<rparr>]\<rparr>"
  by code_simp+

theorem lock_mutual_exclusion_witness:
  "\<exists>e. lock_run sys_init demo_acts demo2 \<and> hm_get (ls_locks demo2) ''a'' = Some e
    \<and> (list_all (\<lambda>h. h_kind h = Shared) (le_holders e) \<or> length (le_holders e) = 1)"
  using lock_mutual_exclusion [OF demo_run demo_state(2)] demo_run demo_state(2) by blast

text \<open>C18: no lost wakeup.  In every reachable state each task parked inside \<open>lock\<close> is queued, under its
  ticket, at the path it asked for, and a path with queued waiters has a holder (whose release will
  wake them) or a woken task that is about to retry: nobody sleeps on a free lock.\<close>

theorem lock_no_lost_wakeup:
  assumes "lock_run sys_init acts s" "(k, t) \<in> set (ls_parked s)"
  shows "\<exists>e. hm_get (ls_locks s) (lt_path t) = Some e \<and> k \<in> w_wake ` set (le_waiters e)
    \<and> (le_holders e \<noteq> [] \<or> (\<exists>t'\<in>set (ls_ready s). lt_path t' = lt_path t))"
proof -
  have inv: "base_inv s" "wake_inv s (lt_path t)"
    using lock_run_inv [OF assms(1) sys_init_inv] by (simp_all add: sys_inv_def)
  then obtain e where e: "hm_get (ls_locks s) (lt_path t) = Some e" "k \<in> queued e"
    using assms(2) unfolding base_inv_def by blast
  then have "le_waiters e \<noteq> []" by (auto simp: queued_def)
  then show ?thesis using e inv(2) unfolding wake_inv_def queued_def by blast
qed

theorem lock_no_lost_wakeup_witness:
  "\<exists>e. lock_run sys_init demo_acts demo2 \<and> hm_get (ls_locks demo2) ''a'' = Some e
    \<and> 0 \<in> w_wake ` set (le_waiters e) \<and> le_holders e \<noteq> []"
proof -
  have "(0, task ''a'' 2 1 Shared) \<in> set (ls_parked demo2)" by (simp add: demo_state(1))
  from lock_no_lost_wakeup [OF demo_run this] show ?thesis
    using demo_run demo_state(2) by auto
qed

text \<open>Releasing a session (disconnect or lease expiry) frees everything it holds or waits for, on
  every path, returns how many holds that was, and leaves the holds of every other session as they
  were.\<close>

theorem release_session_frees:
  assumes "hm_ok m" "release_session m ses = (ts, n, m')"
  shows "(\<forall>p e. hm_get m' p = Some e \<longrightarrow>
      list_all (\<lambda>h. h_session h \<noteq> ses) (le_holders e) \<and> list_all (\<lambda>w. w_session w \<noteq> ses) (le_waiters e))
    \<and> n = sum_list (map (\<lambda>(p, e). length (filter (\<lambda>h. h_session h = ses) (le_holders e))) m)
    \<and> (\<forall>p x. fst x \<noteq> ses \<longrightarrow> holds m' p x = holds m p x)"
proof -
  have get: "\<And>p. hm_get m' p = (case hm_get m p of None \<Rightarrow> None | Some e \<Rightarrow> left_over ses e)"
    and n: "n = sum_list (map (\<lambda>(p, e). length (filter (\<lambda>h. h_session h = ses) (le_holders e))) m)"
    using release_session_spec [OF assms(2,1)] by simp_all
  have left: "le_holders (snd (snd (release_entry ses e))) = filter (\<lambda>h. h_session h \<noteq> ses) (le_holders e)"
    "list_all (\<lambda>w. w_session w \<noteq> ses) (le_waiters (snd (snd (release_entry ses e))))" for e
    using release_entry_frees(1,2) [of ses e "fst (release_entry ses e)"
        "fst (snd (release_entry ses e))" "snd (snd (release_entry ses e))"]
    by (auto simp: list_all_iff)
  have none: "list_all (\<lambda>h. h_session h \<noteq> ses) (le_holders e) \<and> list_all (\<lambda>w. w_session w \<noteq> ses) (le_waiters e)"
    if "hm_get m' p = Some e" for p e
    using that get [of p] left by (auto simp: left_over_def Let_def list_all_iff split: option.splits if_splits)
  have "le_holders (entry_of m' p) = filter (\<lambda>h. h_session h \<noteq> ses) (le_holders (entry_of m p))" for p
    using get [of p] left by (auto simp: entry_of_def entry_default_def left_over_def Let_def split: option.splits)
  moreover have "find (holder_of x) (filter (\<lambda>h. h_session h \<noteq> ses) hs) = find (holder_of x) hs" if "fst x \<noteq> ses" for x hs
    using that by (intro find_filter_same) (auto simp: holder_of_iff)
  ultimately have "holds m' p x = holds m p x" if "fst x \<noteq> ses" for p x using that by (simp add: holds_entry)
  then show ?thesis using none n by blast
qed

theorem release_session_frees_witness:
  "\<exists>ts m'. release_session (ls_locks demo2) 1 = (ts, 1, m')
    \<and> (\<forall>p e. hm_get m' p = Some e \<longrightarrow> list_all (\<lambda>h. h_session h \<noteq> 1) (le_holders e))"
proof -
  have ok: "hm_ok (ls_locks demo2)" by code_simp
  have "fst (snd (release_session (ls_locks demo2) 1)) = 1" by code_simp
  then obtain ts m' where r: "release_session (ls_locks demo2) 1 = (ts, 1, m')"
    by (metis prod.collapse)
  then show ?thesis using release_session_frees [OF ok r] by blast
qed

text \<open>A lock call on a handle that already holds the lock gives the old hold up before it is
  decided: when the new request is refused with WouldBlock, the handle is left with no lock.\<close>

theorem refused_relock_drops_hold:
  assumes "lock_attempt m p ses fh k wait t = (Refused c, m')"
  shows "c = WouldBlock \<and> holds m' p (ses, fh) = None
    \<and> (\<forall>q x. (q, x) \<noteq> (p, (ses, fh)) \<longrightarrow> holds m' q x = holds m q x)"
proof (cases rule: lock_attempt_cases [of m p ses fh k wait t])
  case refused
  then have "le_holders (entry_of m' q) = (if q = p then others m p ses fh else le_holders (entry_of m q))" for q
    using assms by (auto simp: entry_of_put)
  then show ?thesis using assms refused by (auto simp: holds_entry others_def find_others)
qed (use assms in simp_all)

theorem refused_relock_drops_hold_witness:
  "let m = snd (lock_attempt (snd (lock_attempt [] ''a'' 1 1 Shared False 0)) ''a'' 2 1 Shared False 0);
       (out, m') = lock_attempt m ''a'' 1 1 Exclusive False 0
   in holds m ''a'' (1, 1) = Some Shared \<and> out = Refused WouldBlock \<and> holds m' ''a'' (1, 1) = None"
proof -
  let ?m = "snd (lock_attempt (snd (lock_attempt [] ''a'' 1 1 Shared False 0)) ''a'' 2 1 Shared False 0)"
  have "holds ?m ''a'' (1, 1) = Some Shared" by code_simp
  moreover have "fst (lock_attempt ?m ''a'' 1 1 Exclusive False 0) = Refused WouldBlock" by code_simp
  then obtain m' where r: "lock_attempt ?m ''a'' 1 1 Exclusive False 0 = (Refused WouldBlock, m')"
    by (metis prod.collapse)
  ultimately show ?thesis using refused_relock_drops_hold [OF r] r by simp
qed

text \<open>A session that was released while one of its tasks waited can hold a lock afterwards.  The
  task is resolved by the release, retries, and is granted the lock; nothing in the manager ties it
  to the live sessions, so the lock of a gone session stays.\<close>

theorem released_session_reacquires:
  "\<exists>n s. lock_run sys_init (demo_acts @ [ActRelease 2 n, ActUnlock ''a'' 1 1,
      ActRetry (task ''a'' 2 1 Shared) Granted]) s
    \<and> holds (ls_locks s) ''a'' (2, 1) = Some Shared \<and> ls_ready s = [] \<and> ls_parked s = []"
proof -
  obtain ts n m where r: "release_session (ls_locks demo2) 2 = (ts, n, m)" by (metis prod_cases3)
  obtain ts' m' where u: "unlock (ls_locks demo3) ''a'' 1 1 = (ts', m')" by fastforce
  have "lock_step demo2 (ActRelease 2 n) demo3" using release [OF r] r by (simp add: demo3_def)
  moreover have "lock_step demo3 (ActUnlock ''a'' 1 1) demo4" using unlock [OF u] u by (simp add: demo4_def)
  moreover have woken: "ls_ready demo4 = [] @ task ''a'' 2 1 Shared # []" by code_simp
  have "take_turn (task ''a'' 2 1 Shared) True (demo4\<lparr>ls_ready := [] @ []\<rparr>) = (Granted, demo5)" by code_simp
  then have "lock_step demo4 (ActRetry (task ''a'' 2 1 Shared) Granted) demo5" by (rule retry [OF woken])
  ultimately have "lock_run sys_init (((demo_acts @ [ActRelease 2 n]) @ [ActUnlock ''a'' 1 1])
      @ [ActRetry (task ''a'' 2 1 Shared) Granted]) demo5"
    using demo_run by (intro run_snoc)
  moreover have "holds (ls_locks demo5) ''a'' (2, 1) = Some Shared" "ls_ready demo5 = []" "ls_parked demo5 = []"
    by code_simp+
  ultimately show ?thesis by (intro exI [of _ n] exI [of _ demo5]) simp
qed

end
