(* ===== verification/Watch.thy ===== *)
theory Watch
  imports Proto
begin

text \<open>
  The event hub of \<^verbatim>\<open>crates/alloyfs-agent/src/watch.rs\<close>: sequence numbers, the bounded catch-up
  ring, echo origins and the subscription.

  Sequence numbers are 64-bit words.  The broadcast channel is the list of batches sent so far; a
  receiver is the number of batches that preceded it.  Time is in milliseconds and an argument.
  The laws relate the ring to the unbounded history of published events, so that the catch-up of a
  subscription is compared with what was really published.
\<close>

section \<open>State\<close>

definition EVENT_LOG_CAP :: nat where "EVENT_LOG_CAP = 8192"
definition BATCH_MAX :: nat where "BATCH_MAX = 512"
definition MAX_LATENCY :: nat where "MAX_LATENCY = 1000"
definition ORIGIN_TTL :: nat where "ORIGIN_TTL = 2000"

record EventHub =
  eh_seq :: u64
  eh_log :: "FsEvent list"
  eh_log_cap :: nat
  eh_sent :: "FsEvent list list"
  eh_recent_local :: "(RelPath, u64 \<times> nat) hmap"

definition hub_with_capacity :: "nat \<Rightarrow> EventHub" where
  "hub_with_capacity cap =
    \<lparr> eh_seq = 0, eh_log = [], eh_log_cap = cap, eh_sent = [], eh_recent_local = [] \<rparr>"

definition hub_new :: EventHub where
  "hub_new = hub_with_capacity EVENT_LOG_CAP"

section \<open>Operations\<close>

definition note_local_write :: "nat \<Rightarrow> RelPath \<Rightarrow> u64 \<Rightarrow> EventHub \<Rightarrow> EventHub" where
  "note_local_write now path session hub =
    hub\<lparr>eh_recent_local := hm_put path (session, now) (eh_recent_local hub)\<rparr>"

definition last_seq :: "EventHub \<Rightarrow> u64" where
  "last_seq hub = eh_seq hub"

text \<open>The part of \<open>subscribe\<close> under the log's mutex.\<close>

definition catch_up :: "EventHub \<Rightarrow> u64 option \<Rightarrow> ErrorCode + FsEvent list" where
  "catch_up hub since =
    (case since of
       None \<Rightarrow> Inr []
     | Some since \<Rightarrow>
         (case eh_log hub of
            head # _ \<Rightarrow> if ev_seq head > since + 1 then Inl TooOld
                        else Inr (filter (\<lambda>e. ev_seq e > since) (eh_log hub))
          | [] \<Rightarrow> Inr (filter (\<lambda>e. ev_seq e > since) (eh_log hub))))"

definition hub_subscribe :: "EventHub \<Rightarrow> u64 option \<Rightarrow> ErrorCode + (FsEvent list \<times> nat)" where
  "hub_subscribe hub since = and_then (catch_up hub since) (\<lambda>c. Inr (c, length (eh_sent hub)))"

definition origin_of :: "nat \<Rightarrow> EventHub \<Rightarrow> RelPath \<Rightarrow> u64 option" where
  "origin_of now hub path =
    (case hm_get (eh_recent_local hub) path of
       Some (session, noted) \<Rightarrow> if now - noted < ORIGIN_TTL then Some session else None
     | None \<Rightarrow> None)"

fun publish_loop :: "nat \<Rightarrow> (RelPath \<times> EventKind) list \<Rightarrow> EventHub \<Rightarrow> FsEvent list \<Rightarrow> EventHub \<times> FsEvent list" where
  "publish_loop now [] hub batch = (hub, batch)"
| "publish_loop now ((path, kind) # raw) hub batch =
    (let event = \<lparr> ev_seq = eh_seq hub + 1, ev_kind = kind, ev_path = path,
                   ev_new_version = None, ev_origin = origin_of now hub path \<rparr>;
         log = (if length (eh_log hub) = eh_log_cap hub then tl (eh_log hub) else eh_log hub)
     in publish_loop now raw (hub\<lparr>eh_seq := eh_seq hub + 1, eh_log := log @ [event]\<rparr>) (batch @ [event]))"

definition publish :: "nat \<Rightarrow> (RelPath \<times> EventKind) list \<Rightarrow> EventHub \<Rightarrow> EventHub" where
  "publish now raw hub =
    (if raw = [] then hub
     else case publish_loop now raw hub [] of
            (hub, batch) \<Rightarrow> hub\<lparr>eh_sent := eh_sent hub @ [batch]\<rparr>)"

section \<open>Specification: the unbounded history\<close>

definition history :: "EventHub \<Rightarrow> FsEvent list" where
  "history hub = concat (eh_sent hub)"

text \<open>The events so far are numbered 1, 2, 3, \<dots> and the ring is their tail.\<close>

definition ring_ok :: "nat \<Rightarrow> FsEvent list \<Rightarrow> FsEvent list \<Rightarrow> u64 \<Rightarrow> bool" where
  "ring_ok cap past log seq =
    (0 < cap \<and> map (\<lambda>e. unat (ev_seq e)) past = [1 ..< Suc (length past)]
     \<and> length past = unat seq \<and> log = drop (length past - cap) past)"

definition hub_ok :: "EventHub \<Rightarrow> bool" where
  "hub_ok hub = ring_ok (eh_log_cap hub) (history hub) (eh_log hub) (eh_seq hub)"

datatype HubAct = HubPublish nat "(RelPath \<times> EventKind) list" | HubNote nat RelPath u64

fun hub_act :: "HubAct \<Rightarrow> EventHub \<Rightarrow> EventHub" where
  "hub_act (HubPublish now raw) hub = publish now raw hub"
| "hub_act (HubNote now p s) hub = note_local_write now p s hub"

fun act_size :: "HubAct \<Rightarrow> nat" where
  "act_size (HubPublish now raw) = length raw"
| "act_size (HubNote now p s) = 0"

definition hub_run :: "HubAct list \<Rightarrow> EventHub \<Rightarrow> EventHub" where
  "hub_run acts hub = fold hub_act acts hub"

section \<open>Laws\<close>

lemma unat_Suc_u64: "Suc (unat (w :: u64)) < 2 ^ 64 \<Longrightarrow> unat (w + 1) = Suc (unat w)"
  by (simp add: unat_word_ariths)

lemma ring_ok_length: "ring_ok cap past log seq \<Longrightarrow> length log = min cap (length past)"
  by (auto simp: ring_ok_def)

lemma ring_ok_push:
  assumes "ring_ok cap past log seq" "Suc (length past) < 2 ^ 64" "ev_seq e = seq + 1"
  shows "ring_ok cap (past @ [e]) ((if length log = cap then tl log else log) @ [e]) (seq + 1)"
proof -
  have s: "unat (seq + 1) = Suc (length past)"
    using assms(1,2) unat_Suc_u64 [of seq] by (simp add: ring_ok_def)
  have log: "log = drop (length past - cap) past" "0 < cap" using assms(1) by (simp_all add: ring_ok_def)
  have "(if length log = cap then tl log else log) @ [e] = drop (Suc (length past) - cap) (past @ [e])"
  proof (cases "cap \<le> length past")
    case True
    then have "length log = cap" using log by simp
    moreover have "tl log = drop (Suc (length past - cap)) past" using log(1) by (simp add: tl_drop drop_Suc)
    moreover have "Suc (length past) - cap = Suc (length past - cap)" using True by simp
    ultimately show ?thesis using log(2) by simp
  next
    case False
    then show ?thesis using log by auto
  qed
  moreover have "map (\<lambda>e. unat (ev_seq e)) (past @ [e]) = [1 ..< Suc (length (past @ [e]))]"
    using assms(1,3) s by (simp add: ring_ok_def)
  ultimately show ?thesis using s log(2) by (simp add: ring_ok_def)
qed

lemma publish_loop_spec:
  "publish_loop now raw hub b = (hub', b') \<Longrightarrow>
   \<exists>es. b' = b @ es \<and> map (\<lambda>e. (ev_path e, ev_kind e)) es = raw
     \<and> list_all (\<lambda>e. ev_origin e = origin_of now hub (ev_path e)) es
     \<and> eh_sent hub' = eh_sent hub \<and> eh_log_cap hub' = eh_log_cap hub \<and> eh_recent_local hub' = eh_recent_local hub
     \<and> (\<forall>past. ring_ok (eh_log_cap hub) past (eh_log hub) (eh_seq hub) \<longrightarrow> length past + length raw < 2 ^ 64 \<longrightarrow>
          ring_ok (eh_log_cap hub) (past @ es) (eh_log hub') (eh_seq hub'))"
proof (induction now raw hub b rule: publish_loop.induct)
  case (2 now path kind raw hub b)
  define e where "e = \<lparr> ev_seq = eh_seq hub + 1, ev_kind = kind, ev_path = path,
      ev_new_version = None, ev_origin = origin_of now hub path \<rparr>"
  define log where "log = (if length (eh_log hub) = eh_log_cap hub then tl (eh_log hub) else eh_log hub)"
  define hub1 where "hub1 = hub\<lparr>eh_seq := eh_seq hub + 1, eh_log := log @ [e]\<rparr>"
  have run: "publish_loop now raw hub1 (b @ [e]) = (hub', b')"
    using 2(2) by (simp add: Let_def e_def log_def hub1_def)
  have fields: "eh_sent hub1 = eh_sent hub" "eh_log_cap hub1 = eh_log_cap hub" "eh_recent_local hub1 = eh_recent_local hub"
    "eh_log hub1 = log @ [e]" "eh_seq hub1 = eh_seq hub + 1" "origin_of now hub1 = origin_of now hub"
    by (simp_all add: hub1_def origin_of_def fun_eq_iff)
  obtain es where es: "b' = (b @ [e]) @ es" "map (\<lambda>e. (ev_path e, ev_kind e)) es = raw"
    "list_all (\<lambda>e. ev_origin e = origin_of now hub (ev_path e)) es"
    "eh_sent hub' = eh_sent hub" "eh_log_cap hub' = eh_log_cap hub" "eh_recent_local hub' = eh_recent_local hub"
    and ring: "\<And>past. ring_ok (eh_log_cap hub) past (log @ [e]) (eh_seq hub + 1) \<Longrightarrow> length past + length raw < 2 ^ 64 \<Longrightarrow>
      ring_ok (eh_log_cap hub) (past @ es) (eh_log hub') (eh_seq hub')"
    using 2(1) [OF e_def log_def] run unfolding hub1_def [symmetric] fields by blast
  have "ring_ok (eh_log_cap hub) (past @ e # es) (eh_log hub') (eh_seq hub')"
    if "ring_ok (eh_log_cap hub) past (eh_log hub) (eh_seq hub)" "length past + length ((path, kind) # raw) < 2 ^ 64" for past
    using ring [of "past @ [e]"] ring_ok_push [OF that(1), of e] that(2) by (simp add: e_def log_def)
  then show ?case using es by (intro exI [of _ "e # es"]) (simp add: e_def)
qed simp

lemma publish_spec:
  "\<exists>es. history (publish now raw hub) = history hub @ es \<and> map (\<lambda>e. (ev_path e, ev_kind e)) es = raw
     \<and> list_all (\<lambda>e. ev_origin e = origin_of now hub (ev_path e)) es
     \<and> eh_sent (publish now raw hub) = eh_sent hub @ (if raw = [] then [] else [es])
     \<and> eh_log_cap (publish now raw hub) = eh_log_cap hub
     \<and> (hub_ok hub \<longrightarrow> length (history hub) + length raw < 2 ^ 64 \<longrightarrow> hub_ok (publish now raw hub))"
proof (cases "raw = []")
  case True
  then show ?thesis by (intro exI [of _ "[]"]) (simp add: publish_def)
next
  case False
  obtain hub' b where run: "publish_loop now raw hub [] = (hub', b)" by fastforce
  have pub: "publish now raw hub = hub'\<lparr>eh_sent := eh_sent hub' @ [b]\<rparr>"
    using False run by (simp add: publish_def)
  show ?thesis
    using publish_loop_spec [OF run] False unfolding pub
    by (auto simp: history_def hub_ok_def)
qed

lemma note_spec:
  "history (note_local_write now p ses hub) = history hub" "eh_sent (note_local_write now p ses hub) = eh_sent hub"
  "hub_ok (note_local_write now p ses hub) = hub_ok hub" "eh_log_cap (note_local_write now p ses hub) = eh_log_cap hub"
  by (simp_all add: note_local_write_def history_def hub_ok_def)

lemma hub_run_spec:
  assumes "hub_ok hub" "length (history hub) + sum_list (map act_size acts) < 2 ^ 64"
  shows "hub_ok (hub_run acts hub) \<and> eh_log_cap (hub_run acts hub) = eh_log_cap hub
    \<and> (\<exists>es batches. length es = sum_list (map act_size acts) \<and> history (hub_run acts hub) = history hub @ es
         \<and> eh_sent (hub_run acts hub) = eh_sent hub @ batches \<and> concat batches = es)"
  using assms
proof (induction acts arbitrary: hub)
  case Nil
  then show ?case by (simp add: hub_run_def)
next
  case (Cons a acts)
  let ?h = "hub_act a hub"
  have "\<exists>es batches. length es = act_size a \<and> history ?h = history hub @ es \<and> eh_sent ?h = eh_sent hub @ batches
      \<and> concat batches = es \<and> hub_ok ?h \<and> eh_log_cap ?h = eh_log_cap hub"
  proof (cases a)
    case (HubPublish now raw)
    then obtain es where es: "history ?h = history hub @ es" "map (\<lambda>e. (ev_path e, ev_kind e)) es = raw"
      "eh_sent ?h = eh_sent hub @ (if raw = [] then [] else [es])" "hub_ok ?h" "eh_log_cap ?h = eh_log_cap hub"
      using publish_spec [of now raw hub] Cons.prems by auto
    have "length es = length raw" using arg_cong [OF es(2), of length] by simp
    then show ?thesis using es HubPublish by (intro exI [of _ es] exI [of _ "if raw = [] then [] else [es]"]) auto
  next
    case (HubNote now p ses)
    then show ?thesis using Cons.prems by (simp add: note_spec)
  qed
  then obtain es bs where step: "length es = act_size a" "history ?h = history hub @ es"
    "eh_sent ?h = eh_sent hub @ bs" "concat bs = es" "hub_ok ?h" "eh_log_cap ?h = eh_log_cap hub" by blast
  have "length (history ?h) + sum_list (map act_size acts) < 2 ^ 64" using Cons.prems(2) step by simp
  then obtain es' bs' where rest: "hub_ok (hub_run acts ?h)" "eh_log_cap (hub_run acts ?h) = eh_log_cap ?h" "length es' = sum_list (map act_size acts)"
    "history (hub_run acts ?h) = history ?h @ es'" "eh_sent (hub_run acts ?h) = eh_sent ?h @ bs'" "concat bs' = es'"
    using Cons.IH [OF step(5)] by blast
  have run: "hub_run (a # acts) hub = hub_run acts ?h" by (simp add: hub_run_def)
  show ?case
    unfolding run using step rest by (intro conjI exI [of _ "es @ es'"] exI [of _ "bs @ bs'"]) auto
qed

lemma hub_ok_new: "0 < cap \<Longrightarrow> hub_ok (hub_with_capacity cap)"
  by (simp add: hub_ok_def ring_ok_def hub_with_capacity_def history_def)

text \<open>Selecting by sequence number is dropping a prefix.\<close>

lemma filter_numbered:
  "map (\<lambda>e. unat (ev_seq e)) xs = [Suc k ..< Suc k + length xs] \<Longrightarrow>
   filter (\<lambda>e. ev_seq e > since) xs = drop (unat since - k) xs"
proof (induction xs arbitrary: k)
  case (Cons x xs)
  have x: "unat (ev_seq x) = Suc k" and xs: "map (\<lambda>e. unat (ev_seq e)) xs = [Suc (Suc k) ..< Suc (Suc k) + length xs]"
    using Cons.prems by (simp_all add: upt_conv_Cons del: upt_Suc)
  note IH = Cons.IH [OF xs]
  show ?case
  proof (cases "unat since \<le> k")
    case True
    then show ?thesis using IH x by (simp add: word_less_nat_alt)
  next
    case False
    then have "unat since - k = Suc (unat since - Suc k)" by simp
    then show ?thesis using IH x False by (simp add: word_less_nat_alt)
  qed
qed simp

lemma ring_numbered:
  assumes "ring_ok cap past log seq"
  shows "map (\<lambda>e. unat (ev_seq e)) log = [Suc (length past - cap) ..< Suc (length past - cap) + length log]"
proof -
  have past: "map (\<lambda>e. unat (ev_seq e)) past = [1 ..< Suc (length past)]" "log = drop (length past - cap) past"
    using assms by (simp_all add: ring_ok_def del: upt_Suc)
  have "map (\<lambda>e. unat (ev_seq e)) log = drop (length past - cap) [1 ..< Suc (length past)]"
    unfolding past(2) past(1) [symmetric] by (simp only: drop_map)
  also have "\<dots> = [Suc (length past - cap) ..< Suc (length past)]" by (simp add: drop_upt del: upt_Suc)
  finally show ?thesis using assms by (simp add: ring_ok_def del: upt_Suc)
qed

lemma catch_up_exact:
  assumes "hub_ok hub" "unat since \<le> length (history hub)" "Suc (length (history hub)) < 2 ^ 64"
  shows "catch_up hub (Some since) =
    (if unat since < length (history hub) - eh_log_cap hub then Inl TooOld else Inr (drop (unat since) (history hub)))"
proof -
  let ?d = "length (history hub) - eh_log_cap hub"
  have ring: "ring_ok (eh_log_cap hub) (history hub) (eh_log hub) (eh_seq hub)" using assms(1) by (simp add: hub_ok_def)
  have log: "eh_log hub = drop ?d (history hub)" "0 < eh_log_cap hub" using ring by (simp_all add: ring_ok_def)
  have sel: "filter (\<lambda>e. ev_seq e > since) (eh_log hub) = drop (unat since - ?d) (eh_log hub)"
    using filter_numbered [OF ring_numbered [OF ring]] .
  have suc: "unat (since + 1) = Suc (unat since)" using assms(2,3) by (intro unat_Suc_u64) simp
  show ?thesis
  proof (cases "eh_log hub")
    case Nil
    then have "length (history hub) \<le> ?d" using log(1) by simp
    then have "history hub = []" using log(2) by (cases "history hub") auto
    then show ?thesis using Nil by (simp add: catch_up_def)
  next
    case (Cons h t)
    then have "unat (ev_seq h) = Suc ?d"
      using ring_numbered [OF ring] by (simp add: upt_conv_Cons del: upt_Suc)
    then have "ev_seq h > since + 1 \<longleftrightarrow> unat since < ?d" using suc by (simp add: word_less_nat_alt)
    moreover have "drop (unat since - ?d) (eh_log hub) = drop (unat since) (history hub)" if "\<not> unat since < ?d"
      using that log(1) by simp
    ultimately show ?thesis using Cons sel by (simp add: catch_up_def)
  qed
qed

section \<open>Properties\<close>

text \<open>C15: the bounded ring answers for the unbounded history.  After any sequence of publications and
  write notes, the events published so far are numbered 1, 2, 3, ... without gap, the ring keeps at
  most its capacity of them, and a subscription from any sequence number already reached gets
  exactly the events after it, or TooOld precisely when one of those events has left the ring.\<close>

theorem subscribe_exact:
  assumes "0 < cap" "Suc (sum_list (map act_size acts)) < 2 ^ 64"
    and "hub = hub_run acts (hub_with_capacity cap)" "since \<le> last_seq hub"
  shows "map (\<lambda>e. unat (ev_seq e)) (history hub) = [1 ..< Suc (length (history hub))]
    \<and> length (eh_log hub) \<le> cap
    \<and> catch_up hub (Some since) =
      (if unat since < length (history hub) - cap then Inl TooOld else Inr (drop (unat since) (history hub)))"
proof -
  have h0: "history (hub_with_capacity cap) = []" "eh_log_cap (hub_with_capacity cap) = cap"
    by (simp_all add: history_def hub_with_capacity_def)
  have run: "hub_ok hub" "length (history hub) = sum_list (map act_size acts)" "eh_log_cap hub = cap"
    using hub_run_spec [OF hub_ok_new [OF assms(1)], of acts] assms(2) h0 unfolding assms(3) by auto
  then have ring: "ring_ok cap (history hub) (eh_log hub) (eh_seq hub)" by (simp add: hub_ok_def)
  then have "unat since \<le> length (history hub)" "length (eh_log hub) \<le> cap"
    "map (\<lambda>e. unat (ev_seq e)) (history hub) = [1 ..< Suc (length (history hub))]"
    using assms(4) by (simp_all add: last_seq_def ring_ok_def word_le_nat_alt del: upt_Suc)
  moreover have "Suc (length (history hub)) < 2 ^ 64" using run(2) assms(2) by simp
  ultimately show ?thesis using catch_up_exact [OF run(1), of since] run(3) by (simp del: upt_Suc)
qed

theorem subscribe_exact_witness:
  "let hub = hub_run [HubPublish 0 [(''a'', Created), (''b'', Created)], HubPublish 1 [(''c'', Removed)]] (hub_with_capacity 2)
   in catch_up hub (Some 1) = Inr (drop 1 (history hub)) \<and> catch_up hub (Some 0) = Inl TooOld
      \<and> map ev_path (history hub) = [''a'', ''b'', ''c'']"
proof -
  let ?acts = "[HubPublish 0 [(''a'', Created), (''b'', Created)], HubPublish 1 [(''c'', Removed)]]"
  let ?hub = "hub_run ?acts (hub_with_capacity 2)"
  have paths: "map ev_path (history ?hub) = [''a'', ''b'', ''c'']" and seq: "last_seq ?hub = 3" by code_simp+
  have len: "length (history ?hub) = 3" using arg_cong [OF paths, of length] by simp
  have "catch_up ?hub (Some 1) = Inr (drop 1 (history ?hub))"
    using subscribe_exact [of 2 ?acts ?hub 1] seq len by simp
  moreover have "catch_up ?hub (Some 0) = Inl TooOld"
    using subscribe_exact [of 2 ?acts ?hub 0] seq len by simp
  ultimately show ?thesis using paths by (simp add: Let_def)
qed

text \<open>No event falls between catch-up and live stream.  The receiver is created first, other
  publications may happen, then the ring is read, then more publications follow: every event after
  the requested number is in the catch-up or in the batches the receiver gets.\<close>

theorem subscribe_no_gap:
  assumes "hub_ok hub0" "length (history hub0) + sum_list (map act_size (before @ after)) + 1 < 2 ^ 64"
    and "hub1 = hub_run before hub0" "hub2 = hub_run after hub1" "since \<le> last_seq hub0"
    and "catch_up hub1 (Some since) = Inr c" "e \<in> set (history hub2)" "ev_seq e > since"
  shows "e \<in> set c \<or> e \<in> set (concat (drop (length (eh_sent hub0)) (eh_sent hub2)))"
proof -
  have "length (history hub0) + sum_list (map act_size before) < 2 ^ 64" using assms(2) by simp
  from hub_run_spec [OF assms(1) this] obtain es bs where one: "hub_ok hub1" "history hub1 = history hub0 @ es"
    "length es = sum_list (map act_size before)" "eh_sent hub1 = eh_sent hub0 @ bs"
    using assms(3) by blast
  have "length (history hub1) + sum_list (map act_size after) < 2 ^ 64" using assms(2) one by simp
  from hub_run_spec [OF one(1) this] obtain es' bs' where two: "hub_ok hub2" "history hub2 = history hub1 @ es'"
    "eh_sent hub2 = eh_sent hub1 @ bs'" "concat bs' = es'"
    using assms(4) by blast
  have live: "es' = concat bs'" using two by simp
  have "unat since \<le> length (history hub1)"
    using assms(1,5) one(2) by (simp add: last_seq_def hub_ok_def ring_ok_def word_le_nat_alt)
  moreover have "Suc (length (history hub1)) < 2 ^ 64" using assms(2) one by simp
  ultimately have "c = drop (unat since) (history hub1)"
    using catch_up_exact [OF one(1), of since] assms(6) by (simp split: if_splits)
  also have "\<dots> = filter (\<lambda>e. ev_seq e > since) (history hub1)"
    using filter_numbered [of "history hub1" 0 since] one(1) by (simp add: hub_ok_def ring_ok_def del: upt_Suc)
  finally show ?thesis using assms(7,8) two(2,3) one(4) live by auto
qed

theorem subscribe_no_gap_witness:
  "let hub0 = hub_with_capacity 4;
       hub1 = hub_run [HubPublish 0 [(''a'', Created)]] hub0;
       hub2 = hub_run [HubPublish 1 [(''b'', Created)]] hub1
   in \<forall>e\<in>set (history hub2). e \<in> set (concat (drop (length (eh_sent hub0)) (eh_sent hub2))) \<or> catch_up hub1 (Some 0) = Inr [e]"
proof -
  let ?h0 = "hub_with_capacity 4" and ?b = "[HubPublish 0 [(''a'', Created)]]" and ?a = "[HubPublish 1 [(''b'', Created)]]"
  let ?h1 = "hub_run ?b ?h0"
  let ?h2 = "hub_run ?a ?h1"
  obtain x where c: "catch_up ?h1 (Some 0) = Inr [x]"
  proof -
    have "catch_up ?h1 (Some 0) = Inr [hd (eh_log ?h1)]" by code_simp
    then show thesis using that by blast
  qed
  have big: "length (history ?h0) + sum_list (map act_size (?b @ ?a)) + 1 < 2 ^ 64"
    by (simp add: history_def hub_with_capacity_def)
  have pos: "list_all (\<lambda>e. ev_seq e > 0) (history ?h2)" by code_simp
  have "e \<in> set [x] \<or> e \<in> set (concat (drop (length (eh_sent ?h0)) (eh_sent ?h2)))" if "e \<in> set (history ?h2)" for e
    using subscribe_no_gap [OF hub_ok_new big refl refl _ c that] that pos by (simp add: list_all_iff)
  then show ?thesis using c by (auto simp: Let_def)
qed

text \<open>A subscriber that asks for events after a number the hub has not reached (a client that
  outlived a server restart) is answered with an empty catch-up, not with TooOld, although the
  history it missed is not the one it knows.\<close>

theorem subscribe_from_the_future:
  assumes "hub_ok hub" "last_seq hub < since" "Suc (unat since) < 2 ^ 64"
  shows "catch_up hub (Some since) = Inr []"
proof -
  have ring: "ring_ok (eh_log_cap hub) (history hub) (eh_log hub) (eh_seq hub)" using assms(1) by (simp add: hub_ok_def)
  have le: "unat (ev_seq e) \<le> unat (eh_seq hub)" if "e \<in> set (eh_log hub)" for e
  proof -
    have "e \<in> set (history hub)" using that ring by (auto simp: ring_ok_def dest: in_set_dropD)
    then have "unat (ev_seq e) \<in> set [1 ..< Suc (length (history hub))]"
      using ring by (metis (mono_tags) imageI list.set_map ring_ok_def)
    then show ?thesis using ring by (simp add: ring_ok_def del: upt_Suc)
  qed
  have seq: "unat (eh_seq hub) < unat since" using assms(2) by (simp add: last_seq_def word_less_nat_alt)
  have "unat (since + 1) = Suc (unat since)"
    using assms(3) by (rule unat_Suc_u64)
  then have "\<not> ev_seq e > since + 1" "\<not> ev_seq e > since" if "e \<in> set (eh_log hub)" for e
    using le [OF that] seq by (simp_all add: word_less_nat_alt)
  then show ?thesis by (auto simp: catch_up_def filter_empty_conv split: list.splits)
qed

theorem subscribe_from_the_future_witness:
  "catch_up (hub_run [HubPublish 0 [(''a'', Created)]] (hub_with_capacity 4)) (Some 900) = Inr []"
proof (rule subscribe_from_the_future)
  show "hub_ok (hub_run [HubPublish 0 [(''a'', Created)]] (hub_with_capacity 4))"
    using hub_run_spec [OF hub_ok_new, of 4 "[HubPublish 0 [(''a'', Created)]]"]
    by (simp add: history_def hub_with_capacity_def)
  show "last_seq (hub_run [HubPublish 0 [(''a'', Created)]] (hub_with_capacity 4)) < 900" by code_simp
qed simp

end
