(* ===== verification/Agent_Export.thy ===== *)
theory Agent_Export
  imports Common Coalesce Locks Watch
begin

text \<open>
  \<^verbatim>\<open>crates/alloyfs-agent/src/fsutil.rs\<close>, the \<^verbatim>\<open>Export\<close> and registry half of \<^verbatim>\<open>ops.rs\<close>, and the
  configuration of \<^verbatim>\<open>config.rs\<close>: path resolution inside an export, the lexical symlink check,
  version counters, the directory listing and start-up.

  The operating system's file system is a value of \<open>('s, 'f) os\<close>: its calls over an abstract state
  \<open>'s\<close> with open files \<open>'f\<close>.  Absolute paths are component lists.
\<close>

section \<open>The file-system calls of the operating system\<close>

record OpenOpts =
  oo_read :: bool
  oo_write :: bool
  oo_truncate :: bool
  oo_create :: bool
  oo_create_new :: bool

record RawDirent =
  rd_name :: string
  rd_metadata :: "IoKind + Metadata"
  rd_lstat :: "IoKind + Metadata"

record ('s, 'f) os =
  os_canonicalize :: "'s \<Rightarrow> abs_path \<Rightarrow> IoKind + abs_path"
  os_metadata :: "'s \<Rightarrow> abs_path \<Rightarrow> IoKind + Metadata"
  os_symlink_metadata :: "'s \<Rightarrow> abs_path \<Rightarrow> IoKind + Metadata"
  os_exists :: "'s \<Rightarrow> abs_path \<Rightarrow> bool"
  os_read_dir :: "'s \<Rightarrow> abs_path \<Rightarrow> IoKind + (IoKind + RawDirent) list"
  os_open :: "'s \<Rightarrow> abs_path \<Rightarrow> OpenOpts \<Rightarrow> (IoKind + 'f) \<times> 's"
  os_file_metadata :: "'s \<Rightarrow> 'f \<Rightarrow> IoKind + Metadata"
  os_set_permissions :: "'s \<Rightarrow> 'f \<Rightarrow> u32 \<Rightarrow> 's"
  os_set_len :: "'s \<Rightarrow> 'f \<Rightarrow> u64 \<Rightarrow> (IoKind + unit) \<times> 's"
  os_set_modified :: "'s \<Rightarrow> 'f \<Rightarrow> SystemTime \<Rightarrow> (IoKind + unit) \<times> 's"
  os_pread :: "'f \<Rightarrow> 's \<Rightarrow> nat \<Rightarrow> u64 \<Rightarrow> (IoKind + bytes) \<times> 's"
  os_pwrite :: "'f \<Rightarrow> 's \<Rightarrow> bytes \<Rightarrow> u64 \<Rightarrow> (IoKind + nat) \<times> 's"
  os_create_dir :: "'s \<Rightarrow> abs_path \<Rightarrow> (IoKind + unit) \<times> 's"
  os_remove_file :: "'s \<Rightarrow> abs_path \<Rightarrow> (IoKind + unit) \<times> 's"
  os_remove_dir :: "'s \<Rightarrow> abs_path \<Rightarrow> (IoKind + unit) \<times> 's"
  os_rename :: "'s \<Rightarrow> abs_path \<Rightarrow> abs_path \<Rightarrow> (IoKind + unit) \<times> 's"
  os_hard_link :: "'s \<Rightarrow> abs_path \<Rightarrow> abs_path \<Rightarrow> (IoKind + unit) \<times> 's"
  os_symlink :: "'s \<Rightarrow> string \<Rightarrow> abs_path \<Rightarrow> (IoKind + unit) \<times> 's"
  os_read_link :: "'s \<Rightarrow> abs_path \<Rightarrow> IoKind + string"
  os_statvfs :: "'s \<Rightarrow> abs_path \<Rightarrow> (u64 \<times> u64 \<times> u64 \<times> u64) option"

definition slashes :: "string \<Rightarrow> string" where
  "slashes s = map (\<lambda>c. if c = CHR 0x5C then CHR ''/'' else c) s"

definition path_to_str :: "abs_path \<Rightarrow> string option" where
  "path_to_str p = (let s = join_on CHR ''/'' p in if utf8_valid s then Some s else None)"

section \<open>Path resolution\<close>

definition resolve_unchecked :: "('s, 'f) os \<Rightarrow> 's \<Rightarrow> abs_path \<Rightarrow> RelPath \<Rightarrow> ErrorCode + abs_path" where
  "resolve_unchecked os s root rel =
    and_then (validate rel) (\<lambda>_.
      if is_root rel then Inr root
      else case os_canonicalize os s (root @ split_on CHR ''/'' rel) of
             Inl e \<Rightarrow> Inl (io_to_code e)
           | Inr canon \<Rightarrow> if strip_prefix root canon = None then Inl PermissionDenied else Inr canon)"

fun lands_loop :: "string list \<Rightarrow> string list \<Rightarrow> string list option" where
  "lands_loop stack [] = Some stack"
| "lands_loop stack (c # cs) =
    (if c = [] \<or> c = ''.'' then lands_loop stack cs
     else if c = ''..'' then (if stack = [] then None else lands_loop (butlast stack) cs)
     else lands_loop (stack @ [c]) cs)"

definition is_ascii_alphabetic :: "char \<Rightarrow> bool" where
  "is_ascii_alphabetic c = (CHR ''A'' \<le> c \<and> c \<le> CHR ''Z'' \<or> CHR ''a'' \<le> c \<and> c \<le> CHR ''z'')"

text \<open>Splitting at either separator is splitting at slashes after turning backslashes into them.\<close>

definition symlink_lands_inside :: "RelPath \<Rightarrow> string \<Rightarrow> string option" where
  "symlink_lands_inside link target =
    (case target of
       [] \<Rightarrow> None
     | c # rest \<Rightarrow>
         if c = CHR ''/'' \<or> c = CHR 0x5C then None
         else if (case rest of d # _ \<Rightarrow> d = CHR '':'' \<and> is_ascii_alphabetic c | [] \<Rightarrow> False) then None
         else (case split link of
                 None \<Rightarrow> None
               | Some (parent, _) \<Rightarrow>
                   let stack = (if is_root parent then [] else split_on CHR ''/'' parent)
                   in map_option (join_on CHR ''/'') (lands_loop stack (split_on CHR ''/'' (slashes target)))))"

definition fs_space :: "('s, 'f) os \<Rightarrow> 's \<Rightarrow> abs_path \<Rightarrow> (u32 \<times> u64 \<times> u64) option" where
  "fs_space os s path =
    (case os_statvfs os s path of
       None \<Rightarrow> None
     | Some (frsize, bsize, blocks, bavail) \<Rightarrow>
         let bs = (if frsize > 0 then frsize else bsize) in Some (ucast bs, blocks, bavail))"

section \<open>Exports\<close>

record MountDefaults =
  mdf_exclude :: "string list"
  mdf_pin :: "string list"
  mdf_auto_cache_max :: "u64 option"
  mdf_auto_cache_budget :: "u64 option"

record Export =
  ex_name :: string
  ex_root :: abs_path
  ex_read_only :: bool
  ex_versions :: "(RelPath, u64) hmap"
  ex_vclock :: u64
  ex_events :: EventHub
  ex_locks :: LockManager
  ex_exclude :: ExcludeSet
  ex_mount_defaults :: MountDefaults

definition resolve :: "('s, 'f) os \<Rightarrow> glob_lib \<Rightarrow> 's \<Rightarrow> Export \<Rightarrow> RelPath \<Rightarrow> ErrorCode + abs_path" where
  "resolve os lib s ex rel =
    (if is_excluded lib (ex_exclude ex) rel then Inl NotFound
     else and_then (resolve_unchecked os s (ex_root ex) rel) (\<lambda>full.
       if \<not> es_empty (ex_exclude ex) \<and>
          (case strip_prefix (ex_root ex) full of
             None \<Rightarrow> False
           | Some stripped \<Rightarrow>
               (case path_to_str stripped of
                  None \<Rightarrow> False
                | Some t \<Rightarrow> is_excluded lib (ex_exclude ex) (slashes t)))
       then Inl NotFound
       else Inr full))"

definition resolve_new :: "('s, 'f) os \<Rightarrow> glob_lib \<Rightarrow> 's \<Rightarrow> Export \<Rightarrow> RelPath \<Rightarrow> ErrorCode + abs_path" where
  "resolve_new os lib s ex rel =
    (if is_excluded lib (ex_exclude ex) rel then Inl NotFound
     else and_then (validate rel) (\<lambda>_.
       and_then (ok_or InvalidPath (split rel)) (\<lambda>(parent, leaf).
         and_then (resolve os lib s ex parent) (\<lambda>parent_full. Inr (parent_full @ [leaf])))))"

definition version_of :: "Export \<Rightarrow> RelPath \<Rightarrow> u64" where
  "version_of ex path = (case hm_get (ex_versions ex) path of Some v \<Rightarrow> v | None \<Rightarrow> 0)"

definition bump :: "RelPath \<Rightarrow> Export \<Rightarrow> u64 \<times> Export" where
  "bump path ex =
    (let v = ex_vclock ex + 1
     in (v, ex\<lparr>ex_vclock := v, ex_versions := hm_put path v (ex_versions ex)\<rparr>))"

definition rename_version :: "RelPath \<Rightarrow> RelPath \<Rightarrow> Export \<Rightarrow> u64 \<times> Export" where
  "rename_version from to ex = bump to (ex\<lparr>ex_versions := hm_del from (ex_versions ex)\<rparr>)"

text \<open>The loop \<open>browse\<close> and \<open>readdir\<close> share: skip unreadable names and entries, hide excluded ones.\<close>

fun list_entries ::
  "glob_lib \<Rightarrow> Export \<Rightarrow> RelPath \<Rightarrow> (IoKind + RawDirent) list \<Rightarrow> DirEntry list \<Rightarrow> ErrorCode + DirEntry list" where
  "list_entries lib ex rel [] acc = Inr acc"
| "list_entries lib ex rel (Inl e # items) acc = Inl (io_to_code e)"
| "list_entries lib ex rel (Inr item # items) acc =
    (if \<not> utf8_valid (rd_name item) then list_entries lib ex rel items acc
     else let child = join rel (rd_name item) in
       if is_excluded lib (ex_exclude ex) child then list_entries lib ex rel items acc
       else case (case rd_metadata item of Inr md \<Rightarrow> Inr md | Inl _ \<Rightarrow> rd_lstat item) of
              Inl _ \<Rightarrow> list_entries lib ex rel items acc
            | Inr md \<Rightarrow> list_entries lib ex rel items
                (acc @ [\<lparr>de_name = rd_name item, de_attr = attr_from_metadata md (version_of ex child)\<rparr>]))"

definition listing :: "('s, 'f) os \<Rightarrow> glob_lib \<Rightarrow> 's \<Rightarrow> Export \<Rightarrow> RelPath \<Rightarrow> ErrorCode + DirEntry list" where
  "listing os lib s ex rel =
    and_then (resolve os lib s ex rel) (\<lambda>full.
      and_then (or_code (os_read_dir os s full)) (\<lambda>items.
        and_then (list_entries lib ex rel items []) (\<lambda>entries. Inr (sort_key de_name entries))))"

definition browse :: "('s, 'f) os \<Rightarrow> glob_lib \<Rightarrow> 's \<Rightarrow> Export \<Rightarrow> RelPath \<Rightarrow> ErrorCode + DirEntry list" where
  "browse os lib s ex rel = listing os lib s ex rel"

section \<open>Configuration and start-up\<close>

record ClientDefaults =
  cd_exclude :: "string list"
  cd_pin :: "string list"
  cd_auto_cache_max :: "SizeField option"
  cd_auto_cache_budget :: "SizeField option"

record ExportConfig =
  ec_path :: abs_path
  ec_read_only :: bool
  ec_exclude :: "string list"
  ec_default_excludes :: bool
  ec_client :: "ClientDefaults option"

definition export_config_default :: ExportConfig where
  "export_config_default =
    \<lparr> ec_path = [], ec_read_only = False, ec_exclude = [], ec_default_excludes = True, ec_client = None \<rparr>"

record AgentSection =
  as_tcp_listen :: "string option"
  as_tcp_token :: "string option"
  as_http_listen :: "string option"
  as_http_token :: "string option"

record AgentConfig =
  cfg_agent :: AgentSection
  cfg_exports :: "(string \<times> ExportConfig) list" \<comment> \<open>a BTreeMap: ascending names\<close>

datatype StartupError =
    CannotResolve string IoKind | NotADir string | BadExclude string ExcludeError
  | BadSizeField string SizeError | NoExports

fun transpose_size :: "SizeField option \<Rightarrow> SizeError + u64 option" where
  "transpose_size None = Inr None"
| "transpose_size (Some f) = (case size_to_bytes f of Inl e \<Rightarrow> Inl e | Inr n \<Rightarrow> Inr (Some n))"

definition resolve_defaults :: "string \<Rightarrow> ClientDefaults option \<Rightarrow> StartupError + MountDefaults" where
  "resolve_defaults name client =
    (case client of
       None \<Rightarrow> Inr \<lparr> mdf_exclude = [], mdf_pin = [], mdf_auto_cache_max = None, mdf_auto_cache_budget = None \<rparr>
     | Some c \<Rightarrow>
         and_then (map_err (BadSizeField name) (transpose_size (cd_auto_cache_max c))) (\<lambda>mx.
         and_then (map_err (BadSizeField name) (transpose_size (cd_auto_cache_budget c))) (\<lambda>budget.
           Inr \<lparr> mdf_exclude = cd_exclude c, mdf_pin = cd_pin c,
                 mdf_auto_cache_max = mx, mdf_auto_cache_budget = budget \<rparr>)))"

definition export_from_config ::
  "('s, 'f) os \<Rightarrow> glob_lib \<Rightarrow> 's \<Rightarrow> string \<Rightarrow> ExportConfig \<Rightarrow> StartupError + Export" where
  "export_from_config os lib s name ec =
    and_then (map_err (CannotResolve name) (os_canonicalize os s (ec_path ec))) (\<lambda>root.
      if \<not> (case os_metadata os s root of Inr md \<Rightarrow> md_is_dir md | Inl _ \<Rightarrow> False) then Inl (NotADir name)
      else and_then (map_err (BadExclude name)
             (if ec_default_excludes ec then compile_with_defaults lib (ec_exclude ec) False
              else compile lib (ec_exclude ec) False)) (\<lambda>exclude.
           and_then (resolve_defaults name (ec_client ec)) (\<lambda>defaults.
             Inr \<lparr> ex_name = name, ex_root = root, ex_read_only = ec_read_only ec, ex_versions = [],
                   ex_vclock = 0, ex_events = hub_new, ex_locks = [], ex_exclude = exclude,
                   ex_mount_defaults = defaults \<rparr>)))"

fun exports_from_config ::
  "('s, 'f) os \<Rightarrow> glob_lib \<Rightarrow> 's \<Rightarrow> (string \<times> ExportConfig) list \<Rightarrow> StartupError + (string, Export) hmap" where
  "exports_from_config os lib s [] = Inr []"
| "exports_from_config os lib s ((name, ec) # cs) =
    and_then (export_from_config os lib s name ec) (\<lambda>ex.
      and_then (exports_from_config os lib s cs) (\<lambda>exs. Inr ((name, ex) # exs)))"

definition registry_from_config ::
  "('s, 'f) os \<Rightarrow> glob_lib \<Rightarrow> 's \<Rightarrow> AgentConfig \<Rightarrow> StartupError + (string, Export) hmap" where
  "registry_from_config os lib s cfg =
    and_then (exports_from_config os lib s (cfg_exports cfg)) (\<lambda>exs.
      if exs = [] then Inl NoExports else Inr exs)"

section \<open>Laws: resolution stays inside\<close>

lemma and_then_Inr: "and_then r f = Inr b \<longleftrightarrow> (\<exists>a. r = Inr a \<and> f a = Inr b)"
  by (cases r) auto

lemma ok_or_Inr: "ok_or e r = Inr a \<longleftrightarrow> r = Some a"
  by (cases r) auto

lemma resolve_unchecked_inside:
  "resolve_unchecked os s root rel = Inr p \<Longrightarrow> valid rel \<and> (\<exists>rest. p = root @ rest)"
  by (auto simp: resolve_unchecked_def and_then_Inr valid_def strip_prefix_Some split: if_splits sum.splits)

lemma resolve_inside:
  assumes "resolve os lib s ex rel = Inr p"
  shows "valid rel \<and> \<not> is_excluded lib (ex_exclude ex) rel \<and> (\<exists>rest. p = ex_root ex @ rest
    \<and> (\<forall>t. \<not> es_empty (ex_exclude ex) \<longrightarrow> path_to_str rest = Some t \<longrightarrow> \<not> is_excluded lib (ex_exclude ex) (slashes t)))"
proof -
  have "\<not> is_excluded lib (ex_exclude ex) rel" and u: "resolve_unchecked os s (ex_root ex) rel = Inr p"
    using assms by (auto simp: resolve_def and_then_Inr split: if_splits)
  moreover obtain rest where rest: "p = ex_root ex @ rest" "valid rel" using resolve_unchecked_inside [OF u] by blast
  ultimately show ?thesis using assms by (auto simp: resolve_def split: option.splits if_splits)
qed

lemma resolve_new_inside:
  assumes "resolve_new os lib s ex rel = Inr p"
  shows "valid rel \<and> \<not> is_excluded lib (ex_exclude ex) rel \<and> (\<exists>par leaf full. split rel = Some (par, leaf) \<and> name_ok leaf
    \<and> resolve os lib s ex par = Inr full \<and> p = full @ [leaf])"
proof -
  obtain par leaf full where *: "\<not> is_excluded lib (ex_exclude ex) rel" "validate rel = Inr ()"
    "split rel = Some (par, leaf)" "resolve os lib s ex par = Inr full" "p = full @ [leaf]"
    using assms by (auto simp: resolve_new_def and_then_Inr ok_or_Inr split: if_splits)
  then show ?thesis using split_parts(3) [of rel par leaf] by (auto simp: valid_def)
qed

section \<open>Laws: the lexical symlink check\<close>

text \<open>A walk over the whole machine, where going up from the file-system root stays there, and the
  places it passes.\<close>

fun walk_step :: "abs_path \<Rightarrow> string \<Rightarrow> abs_path" where
  "walk_step at c = (if c = [] \<or> c = ''.'' then at else if c = ''..'' then butlast at else at @ [c])"

fun walk_places :: "abs_path \<Rightarrow> string list \<Rightarrow> abs_path list" where
  "walk_places at [] = [at]"
| "walk_places at (c # cs) = at # walk_places (walk_step at c) cs"

definition walk :: "abs_path \<Rightarrow> string list \<Rightarrow> abs_path" where
  "walk at cs = foldl walk_step at cs"

lemma lands_loop_walk:
  "lands_loop stack cs = Some out \<Longrightarrow>
   walk (root @ stack) cs = root @ out \<and> (\<forall>q\<in>set (walk_places (root @ stack) cs). \<exists>r. q = root @ r)"
proof (induction stack cs rule: lands_loop.induct)
  case (1 stack)
  then show ?case by (auto simp: walk_def)
next
  case (2 stack c cs)
  show ?case
  proof (cases "c = ''..''")
    case True
    then have "stack \<noteq> []" "lands_loop (butlast stack) cs = Some out" using 2(4) by (auto split: if_splits)
    then show ?thesis using 2(2) True by (auto simp: walk_def butlast_append)
  next
    case False
    then show ?thesis using 2 by (auto simp: walk_def)
  qed
qed

lemma lands_loop_components:
  "lands_loop stack cs = Some out \<Longrightarrow> list_all Q stack \<Longrightarrow>
   (\<And>c. c \<in> set cs \<Longrightarrow> c \<noteq> [] \<Longrightarrow> c \<noteq> ''.'' \<Longrightarrow> c \<noteq> ''..'' \<Longrightarrow> Q c) \<Longrightarrow> list_all Q out"
proof (induction stack cs rule: lands_loop.induct)
  case (2 stack c cs)
  have "list_all Q (butlast stack)" using 2(5) by (auto simp: list_all_iff dest: in_set_butlastD)
  then show ?case using 2 by (auto split: if_splits)
qed simp

lemma symlink_lands_Some:
  assumes "symlink_lands_inside link target = Some p"
  obtains parent name out where "split link = Some (parent, name)"
    "lands_loop (components parent) (split_on CHR ''/'' (slashes target)) = Some out" "p = join_on CHR ''/'' out"
  using assms by (auto simp: symlink_lands_inside_def components_def is_root_def Let_def
      split: list.splits if_splits option.splits)

lemma components_join_on:
  "list_all name_ok out \<Longrightarrow> components (join_on CHR ''/'' out) = out"
proof (cases out)
  case (Cons x xs)
  assume ok: "list_all name_ok out"
  then have "join_on CHR ''/'' out \<noteq> []" using Cons by (cases xs) (auto simp: name_ok_def)
  moreover have "split_on CHR ''/'' (join_on CHR ''/'' out) = out"
    using ok Cons by (intro split_join_on) (auto simp: list_all_iff name_ok_def)
  ultimately show ?thesis by (simp add: components_def)
qed (simp add: components_def)

lemma slashes_no_backslash: "c \<in> set (split_on CHR ''/'' (slashes t)) \<Longrightarrow> CHR 0x5C \<notin> set c"
proof -
  have "set c \<subseteq> set t" if "c \<in> set (split_on d t)" for d :: char and t c
    using that
  proof (induction t arbitrary: c)
    case (Cons x xs)
    then show ?case by (cases "split_on d xs") (fastforce split: if_splits)+
  qed simp
  then show "c \<in> set (split_on CHR ''/'' (slashes t)) \<Longrightarrow> CHR 0x5C \<notin> set c"
    by (fastforce simp: slashes_def)
qed

lemma symlink_lands_valid:
  assumes "valid link" "symlink_lands_inside link target = Some p"
  shows "valid p"
    and "walk (root @ components (fst (the (split link)))) (split_on CHR ''/'' (slashes target)) = root @ components p"
    and "\<forall>q\<in>set (walk_places (root @ components (fst (the (split link)))) (split_on CHR ''/'' (slashes target))). \<exists>r. q = root @ r"
proof -
  obtain par name out where o: "split link = Some (par, name)"
    "lands_loop (components par) (split_on CHR ''/'' (slashes target)) = Some out" "p = join_on CHR ''/'' out"
    using symlink_lands_Some [OF assms(2)] .
  have "list_all name_ok (components par)"
    using split_parts(2) [OF assms(1) o(1)] by (simp add: valid_iff_components)
  then have ok: "list_all name_ok out"
    using slashes_no_backslash [of _ target]
    by (intro lands_loop_components [OF o(2)]) (auto simp: name_ok_def dest: split_on_no_sep)
  then have p: "components p = out" using o(3) by (simp add: components_join_on)
  then show "valid p" using ok by (simp add: valid_iff_components)
  show "walk (root @ components (fst (the (split link)))) (split_on CHR ''/'' (slashes target)) = root @ components p"
    "\<forall>q\<in>set (walk_places (root @ components (fst (the (split link)))) (split_on CHR ''/'' (slashes target))). \<exists>r. q = root @ r"
    using lands_loop_walk [OF o(2), of root] o(1) p by simp_all
qed

end
