(* ===== verification/Agent_Session.thy ===== *)
theory Agent_Session
  imports Agent_Export
begin

text \<open>
  The per-connection half of \<^verbatim>\<open>crates/alloyfs-agent/src/ops.rs\<close>: sessions, one operation per
  request, the dispatcher, the authentication gate and the release of everything a session held.

  An operation runs over \<open>Ctx\<close>: the state all sessions share (the file system, the exports, lock
  tickets) and the session it serves.  \<open>read\<close> and \<open>write\<close> loop over interrupted system calls, so
  \<open>handle\<close> is an option: \<^const>\<open>None\<close> is a call that never returns.
\<close>

section \<open>State\<close>

record 'f OpenFile =
  op_file :: 'f
  op_path :: RelPath
  op_writable :: bool

text \<open>A forwarding task of \<open>subscribe\<close>: the catch-up still to push and its place in the broadcast.\<close>

record Forwarder =
  fw_export :: string
  fw_catchup :: "FsEvent list"
  fw_next :: nat

record 'f Session =
  se_id :: u64
  se_attached :: "string option"
  se_handles :: "(u64, 'f OpenFile) hmap"
  se_next_fh :: u64
  se_push :: bool
  se_last_seen :: nat
  se_required_token :: "string option"
  se_authed :: bool
  se_registered :: bool
  se_forwarders :: "Forwarder list"

record ('s, 'f) Ctx =
  cx_fs :: 's
  cx_exports :: "(string, Export) hmap"
  cx_next_ticket :: nat
  cx_woken :: "nat list"
  cx_me :: "'f Session"

definition session_with_token :: "nat \<Rightarrow> u64 \<Rightarrow> string option \<Rightarrow> 'f Session" where
  "session_with_token now sid token =
    \<lparr> se_id = sid, se_attached = None, se_handles = [], se_next_fh = 1, se_push = False,
      se_last_seen = now, se_required_token = token, se_authed = (token = None),
      se_registered = True, se_forwarders = [] \<rparr>"

section \<open>Operations over the context\<close>

type_synonym ('s, 'f, 'a) agent_op = "('s, 'f) Ctx \<Rightarrow> (ErrorCode + 'a) \<times> ('s, 'f) Ctx"

definition bindA :: "('s, 'f, 'a) agent_op \<Rightarrow> ('a \<Rightarrow> ('s, 'f, 'b) agent_op) \<Rightarrow> ('s, 'f, 'b) agent_op" where
  "bindA m k c = (case m c of (Inl e, c') \<Rightarrow> (Inl e, c') | (Inr x, c') \<Rightarrow> k x c')"

definition retA :: "'a \<Rightarrow> ('s, 'f, 'a) agent_op" where
  "retA x c = (Inr x, c)"

definition failA :: "ErrorCode \<Rightarrow> ('s, 'f, 'a) agent_op" where
  "failA e c = (Inl e, c)"

definition readA :: "(('s, 'f) Ctx \<Rightarrow> ErrorCode + 'a) \<Rightarrow> ('s, 'f, 'a) agent_op" where
  "readA f c = (f c, c)"

definition sysA :: "('s \<Rightarrow> (IoKind + 'a) \<times> 's) \<Rightarrow> ('s, 'f, 'a) agent_op" where
  "sysA f c = (case f (cx_fs c) of (r, s) \<Rightarrow> (or_code r, c\<lparr>cx_fs := s\<rparr>))"

definition meA :: "('f Session \<Rightarrow> 'a \<times> 'f Session) \<Rightarrow> ('s, 'f, 'a) agent_op" where
  "meA f c = (case f (cx_me c) of (x, me) \<Rightarrow> (Inr x, c\<lparr>cx_me := me\<rparr>))"

definition attached_export :: "('s, 'f) Ctx \<Rightarrow> Export option" where
  "attached_export c = Option.bind (se_attached (cx_me c)) (hm_get (cx_exports c))"

definition export_of :: "('s, 'f, Export) agent_op" where
  "export_of = readA (\<lambda>c. ok_or NotAttached (attached_export c))"

definition writable_export :: "('s, 'f, Export) agent_op" where
  "writable_export = bindA export_of (\<lambda>ex. if ex_read_only ex then failA ReadOnly else retA ex)"

text \<open>An update of the attached export, in place in the registry every session shares.\<close>

definition set_export :: "Export \<Rightarrow> ('s, 'f) Ctx \<Rightarrow> ('s, 'f) Ctx" where
  "set_export ex c = c\<lparr>cx_exports := hm_put (the (se_attached (cx_me c))) ex (cx_exports c)\<rparr>"

definition exA :: "(Export \<Rightarrow> 'a \<times> Export) \<Rightarrow> ('s, 'f, 'a) agent_op" where
  "exA f = bindA export_of (\<lambda>ex. case f ex of (x, ex') \<Rightarrow> (\<lambda>c. (Inr x, set_export ex' c)))"

definition noteA :: "nat \<Rightarrow> RelPath \<Rightarrow> ('s, 'f, unit) agent_op" where
  "noteA now path c =
    exA (\<lambda>ex. ((), ex\<lparr>ex_events := note_local_write now path (se_id (cx_me c)) (ex_events ex)\<rparr>)) c"

definition bumpA :: "RelPath \<Rightarrow> ('s, 'f, u64) agent_op" where
  "bumpA path = exA (bump path)"

definition handle_of :: "u64 \<Rightarrow> ('s, 'f, 'f OpenFile) agent_op" where
  "handle_of fh = readA (\<lambda>c. ok_or BadHandle (hm_get (se_handles (cx_me c)) fh))"

definition insert_handle :: "'f \<Rightarrow> RelPath \<Rightarrow> bool \<Rightarrow> ('s, 'f, u64) agent_op" where
  "insert_handle file path writable =
    meA (\<lambda>me. (se_next_fh me,
      me\<lparr>se_next_fh := se_next_fh me + 1,
         se_handles := hm_put (se_next_fh me) \<lparr> op_file = file, op_path = path, op_writable = writable \<rparr> (se_handles me)\<rparr>))"

definition resolveA :: "('s, 'f) os \<Rightarrow> glob_lib \<Rightarrow> Export \<Rightarrow> RelPath \<Rightarrow> ('s, 'f, abs_path) agent_op" where
  "resolveA os lib ex path = readA (\<lambda>c. resolve os lib (cx_fs c) ex path)"

definition resolve_newA :: "('s, 'f) os \<Rightarrow> glob_lib \<Rightarrow> Export \<Rightarrow> RelPath \<Rightarrow> ('s, 'f, abs_path) agent_op" where
  "resolve_newA os lib ex path = readA (\<lambda>c. resolve_new os lib (cx_fs c) ex path)"

definition metadataA :: "('s, 'f) os \<Rightarrow> abs_path \<Rightarrow> ('s, 'f, Metadata) agent_op" where
  "metadataA os p = readA (\<lambda>c. or_code (os_metadata os (cx_fs c) p))"

definition symlink_metadataA :: "('s, 'f) os \<Rightarrow> abs_path \<Rightarrow> ('s, 'f, Metadata) agent_op" where
  "symlink_metadataA os p = readA (\<lambda>c. or_code (os_symlink_metadata os (cx_fs c) p))"

definition file_metadataA :: "('s, 'f) os \<Rightarrow> 'f \<Rightarrow> ('s, 'f, Metadata) agent_op" where
  "file_metadataA os f = readA (\<lambda>c. or_code (os_file_metadata os (cx_fs c) f))"

definition openA :: "('s, 'f) os \<Rightarrow> abs_path \<Rightarrow> OpenOpts \<Rightarrow> ('s, 'f, 'f) agent_op" where
  "openA os p opts = sysA (\<lambda>s. os_open os s p opts)"

definition set_mode :: "('s, 'f) os \<Rightarrow> 'f \<Rightarrow> u32 \<Rightarrow> ('s, 'f, unit) agent_op" where
  "set_mode os f mode c = (Inr (), c\<lparr>cx_fs := os_set_permissions os (cx_fs c) f (and mode 0xFFF)\<rparr>)"

section \<open>Requests that only look\<close>

definition attach :: "('s, 'f) os \<Rightarrow> string \<Rightarrow> ('s, 'f, Response) agent_op" where
  "attach os name =
    bindA (readA (\<lambda>c. case attached_export c of
                        Some current \<Rightarrow> if ex_name current \<noteq> name then Inl AlreadyExists else Inr ()
                      | None \<Rightarrow> Inr ())) (\<lambda>_.
    bindA (readA (\<lambda>c. ok_or NoSuchExport (hm_get (cx_exports c) name))) (\<lambda>ex.
    bindA (metadataA os (ex_root ex)) (\<lambda>md.
    bindA (meA (\<lambda>me. ((), if se_attached me = None then me\<lparr>se_attached := Some name\<rparr> else me))) (\<lambda>_.
      retA (RspAttachOk 0 (attr_from_metadata md 0))))))"

definition getattr :: "('s, 'f) os \<Rightarrow> glob_lib \<Rightarrow> RelPath \<Rightarrow> ('s, 'f, Response) agent_op" where
  "getattr os lib path =
    bindA export_of (\<lambda>ex.
    bindA (resolveA os lib ex path) (\<lambda>full.
    bindA (metadataA os full) (\<lambda>md.
      retA (RspAttr (attr_from_metadata md (version_of ex path))))))"

definition READDIR_PAGE :: nat where "READDIR_PAGE = 1024"

definition page_of :: "'a list \<Rightarrow> u64 \<Rightarrow> 'a list \<times> u64 option" where
  "page_of entries cursor =
    (let start = unat cursor;
         total = length entries;
         page = take READDIR_PAGE (drop start entries)
     in (page, if start + length page < total then Some (of_nat (start + length page)) else None))"

definition readdir :: "('s, 'f) os \<Rightarrow> glob_lib \<Rightarrow> RelPath \<Rightarrow> u64 \<Rightarrow> ('s, 'f, Response) agent_op" where
  "readdir os lib path cursor =
    bindA export_of (\<lambda>ex.
    bindA (readA (\<lambda>c. listing os lib (cx_fs c) ex path)) (\<lambda>entries.
      case page_of entries cursor of (page, next_cursor) \<Rightarrow> retA (RspDir page next_cursor)))"

definition readlink :: "('s, 'f) os \<Rightarrow> glob_lib \<Rightarrow> RelPath \<Rightarrow> ('s, 'f, Response) agent_op" where
  "readlink os lib path =
    bindA export_of (\<lambda>ex.
    bindA (resolve_newA os lib ex path) (\<lambda>full.
    bindA (symlink_metadataA os full) (\<lambda>md.
      if \<not> md_is_symlink md then failA InvalidPath
      else bindA (readA (\<lambda>c. or_code (os_read_link os (cx_fs c) full))) (\<lambda>target.
             if \<not> utf8_valid target then failA InvalidPath
             else retA (RspTarget (slashes target))))))"

definition statfs :: "('s, 'f) os \<Rightarrow> ('s, 'f, Response) agent_op" where
  "statfs os =
    readA (\<lambda>c. case Option.bind (attached_export c) (\<lambda>ex. fs_space os (cx_fs c) (ex_root ex)) of
                 Some (block_size, blocks, blocks_free) \<Rightarrow> Inr (RspStatfs block_size blocks blocks_free)
               | None \<Rightarrow> Inr (RspStatfs 4096 (push_bit 24 1) (push_bit 23 1)))"

definition mount_defaults :: "('s, 'f, Response) agent_op" where
  "mount_defaults =
    bindA export_of (\<lambda>ex. let d = ex_mount_defaults ex in
      retA (RspMountDefaults (mdf_exclude d) (mdf_pin d) (mdf_auto_cache_max d) (mdf_auto_cache_budget d)))"

section \<open>Opening, reading and writing\<close>

definition open_file :: "('s, 'f) os \<Rightarrow> glob_lib \<Rightarrow> RelPath \<Rightarrow> OpenFlags \<Rightarrow> ('s, 'f, Response) agent_op" where
  "open_file os lib path flags =
    bindA export_of (\<lambda>ex.
      let wants_write = of_write flags \<or> of_truncate flags \<or> of_append flags in
      if wants_write \<and> ex_read_only ex then failA ReadOnly
      else
        bindA (resolveA os lib ex path) (\<lambda>full.
        bindA (openA os full \<lparr> oo_read = True, oo_write = wants_write, oo_truncate = of_truncate flags,
                               oo_create = False, oo_create_new = False \<rparr>) (\<lambda>file.
        bindA (file_metadataA os file) (\<lambda>md.
          if md_is_dir md then failA IsADirectory
          else
            bindA (if of_truncate flags then bumpA path else retA (version_of ex path)) (\<lambda>version.
            bindA (insert_handle file path wants_write) (\<lambda>fh.
              retA (RspOpened fh (attr_from_metadata md version))))))))"

definition create :: "('s, 'f) os \<Rightarrow> glob_lib \<Rightarrow> nat \<Rightarrow> RelPath \<Rightarrow> OpenFlags \<Rightarrow> u32 \<Rightarrow> ('s, 'f, Response) agent_op" where
  "create os lib now path flags mode =
    bindA writable_export (\<lambda>ex.
    bindA (resolve_newA os lib ex path) (\<lambda>full.
    bindA (openA os full \<lparr> oo_read = True, oo_write = True,
                           oo_truncate = (\<not> of_excl flags \<and> of_truncate flags),
                           oo_create = (\<not> of_excl flags), oo_create_new = of_excl flags \<rparr>) (\<lambda>file.
    bindA (set_mode os file mode) (\<lambda>_.
    bindA (file_metadataA os file) (\<lambda>md.
    bindA (noteA now path) (\<lambda>_.
    bindA (bumpA path) (\<lambda>version.
    bindA (insert_handle file path True) (\<lambda>fh.
      retA (RspOpened fh (attr_from_metadata md version))))))))))"

definition read :: "('s, 'f) os \<Rightarrow> u64 \<Rightarrow> u64 \<Rightarrow> u32 \<Rightarrow> ('s, 'f) Ctx \<Rightarrow> ((ErrorCode + Response) \<times> ('s, 'f) Ctx) option" where
  "read os fh offset len c =
    (if len > DATA_CHUNK then Some (Inl IoError, c)
     else case handle_of fh c of
            (Inl e, c) \<Rightarrow> Some (Inl e, c)
          | (Inr h, c) \<Rightarrow>
              map_option (\<lambda>(r, s). (and_then (or_code r) (\<lambda>buf. Inr (RspData buf)), c\<lparr>cx_fs := s\<rparr>))
                (read_fully (os_pread os (op_file h)) (cx_fs c) (unat len) offset))"

definition write_guard :: "u64 \<Rightarrow> u64 option \<Rightarrow> ('s, 'f, Export \<times> 'f OpenFile) agent_op" where
  "write_guard fh expect_version =
    bindA writable_export (\<lambda>ex.
    bindA (handle_of fh) (\<lambda>h.
      if \<not> op_writable h then failA BadHandle
      else if (case expect_version of Some v \<Rightarrow> v \<noteq> version_of ex (op_path h) | None \<Rightarrow> False) then failA Conflict
      else retA (ex, h)))"

definition write_file :: "('s, 'f) os \<Rightarrow> nat \<Rightarrow> u64 \<Rightarrow> u64 \<Rightarrow> bytes \<Rightarrow> u64 option \<Rightarrow> ('s, 'f) Ctx
    \<Rightarrow> ((ErrorCode + Response) \<times> ('s, 'f) Ctx) option" where
  "write_file os now fh offset data expect_version c =
    (case write_guard fh expect_version c of
       (Inl e, c) \<Rightarrow> Some (Inl e, c)
     | (Inr (ex, h), c) \<Rightarrow>
         map_option (\<lambda>(r, s).
             bindA (readA (\<lambda>_. or_code r)) (\<lambda>_.
             bindA (noteA now (op_path h)) (\<lambda>_.
             bindA (bumpA (op_path h)) (\<lambda>new_version.
               retA (RspWritten (of_nat (length data)) new_version False)))) (c\<lparr>cx_fs := s\<rparr>))
           (write_fully (os_pwrite os (op_file h)) (cx_fs c) data offset))"

section \<open>Requests that change the tree\<close>

definition write_opts :: OpenOpts where
  "write_opts = \<lparr> oo_read = False, oo_write = True, oo_truncate = False, oo_create = False, oo_create_new = False \<rparr>"

definition setattr ::
  "('s, 'f) os \<Rightarrow> glob_lib \<Rightarrow> nat \<Rightarrow> RelPath \<Rightarrow> u64 option \<Rightarrow> SystemTime option \<Rightarrow> u32 option \<Rightarrow> ('s, 'f, Response) agent_op" where
  "setattr os lib now path sz mtime mode =
    bindA writable_export (\<lambda>ex.
    bindA (resolveA os lib ex path) (\<lambda>full.
    bindA (case sz of None \<Rightarrow> retA ()
           | Some n \<Rightarrow> bindA (openA os full write_opts) (\<lambda>f. sysA (\<lambda>s. os_set_len os s f n))) (\<lambda>_.
    bindA (case mtime of None \<Rightarrow> retA ()
           | Some t \<Rightarrow> bindA (openA os full write_opts) (\<lambda>f. sysA (\<lambda>s. os_set_modified os s f t))) (\<lambda>_.
    bindA (case mode of None \<Rightarrow> retA ()
           | Some m \<Rightarrow> bindA (openA os full write_opts) (\<lambda>f. set_mode os f m)) (\<lambda>_.
    bindA (metadataA os full) (\<lambda>md.
    bindA (noteA now path) (\<lambda>_.
    bindA (bumpA path) (\<lambda>version.
      retA (RspAttr (attr_from_metadata md version))))))))))"

definition mkdir :: "('s, 'f) os \<Rightarrow> glob_lib \<Rightarrow> nat \<Rightarrow> RelPath \<Rightarrow> u32 \<Rightarrow> ('s, 'f, Response) agent_op" where
  "mkdir os lib now path mode =
    bindA writable_export (\<lambda>ex.
    bindA (resolve_newA os lib ex path) (\<lambda>full.
    bindA (sysA (\<lambda>s. os_create_dir os s full)) (\<lambda>_.
    bindA (metadataA os full) (\<lambda>md.
    bindA (noteA now path) (\<lambda>_.
    bindA (bumpA path) (\<lambda>version.
      retA (RspAttr (attr_from_metadata md version))))))))"

definition unlink :: "('s, 'f) os \<Rightarrow> glob_lib \<Rightarrow> nat \<Rightarrow> RelPath \<Rightarrow> ('s, 'f, Response) agent_op" where
  "unlink os lib now path =
    bindA writable_export (\<lambda>ex.
    bindA (resolveA os lib ex path) (\<lambda>full.
    bindA (sysA (\<lambda>s. os_remove_file os s full)) (\<lambda>_.
    bindA (noteA now path) (\<lambda>_.
    bindA (bumpA path) (\<lambda>_. retA RspOk)))))"

definition rmdir :: "('s, 'f) os \<Rightarrow> glob_lib \<Rightarrow> nat \<Rightarrow> RelPath \<Rightarrow> ('s, 'f, Response) agent_op" where
  "rmdir os lib now path =
    bindA writable_export (\<lambda>ex.
    bindA (resolveA os lib ex path) (\<lambda>full.
    bindA (sysA (\<lambda>s. os_remove_dir os s full)) (\<lambda>_.
    bindA (noteA now path) (\<lambda>_.
    bindA (bumpA path) (\<lambda>_. retA RspOk)))))"

definition rename :: "('s, 'f) os \<Rightarrow> glob_lib \<Rightarrow> nat \<Rightarrow> RelPath \<Rightarrow> RelPath \<Rightarrow> bool \<Rightarrow> ('s, 'f, Response) agent_op" where
  "rename os lib now from to replace =
    bindA writable_export (\<lambda>ex.
    bindA (resolveA os lib ex from) (\<lambda>from_full.
    bindA (resolve_newA os lib ex to) (\<lambda>to_full.
    bindA (readA (\<lambda>c. if \<not> replace \<and> os_exists os (cx_fs c) to_full then Inl AlreadyExists else Inr ())) (\<lambda>_.
    bindA (sysA (\<lambda>s. os_rename os s from_full to_full)) (\<lambda>_.
    bindA (noteA now from) (\<lambda>_.
    bindA (noteA now to) (\<lambda>_.
    bindA (exA (rename_version from to)) (\<lambda>_. retA RspOk))))))))"

definition link :: "('s, 'f) os \<Rightarrow> glob_lib \<Rightarrow> nat \<Rightarrow> RelPath \<Rightarrow> RelPath \<Rightarrow> ('s, 'f, Response) agent_op" where
  "link os lib now target lnk =
    bindA writable_export (\<lambda>ex.
    bindA (resolveA os lib ex target) (\<lambda>target_full.
    bindA (resolve_newA os lib ex lnk) (\<lambda>link_full.
    bindA (sysA (\<lambda>s. os_hard_link os s target_full link_full)) (\<lambda>_.
    bindA (metadataA os link_full) (\<lambda>md.
    bindA (noteA now lnk) (\<lambda>_.
    bindA (bumpA lnk) (\<lambda>version.
      retA (RspAttr (attr_from_metadata md version)))))))))"

definition symlink :: "('s, 'f) os \<Rightarrow> glob_lib \<Rightarrow> nat \<Rightarrow> string \<Rightarrow> RelPath \<Rightarrow> ('s, 'f, Response) agent_op" where
  "symlink os lib now target lnk =
    bindA writable_export (\<lambda>ex.
    bindA (resolve_newA os lib ex lnk) (\<lambda>link_full.
    bindA (readA (\<lambda>_. ok_or PermissionDenied (symlink_lands_inside lnk target))) (\<lambda>landing.
      if is_excluded lib (ex_exclude ex) landing then failA PermissionDenied
      else
        bindA (sysA (\<lambda>s. os_symlink os s target link_full)) (\<lambda>_.
        bindA (symlink_metadataA os link_full) (\<lambda>md.
        bindA (noteA now lnk) (\<lambda>_.
        bindA (bumpA lnk) (\<lambda>version.
          retA (RspAttr (attr_from_metadata md version)))))))))"

section \<open>Locks, handles and subscriptions\<close>

text \<open>\<open>LockManager::unlock\<close> on the attached export, if there is one; the waiters it wakes are noted.\<close>

definition unlockA :: "RelPath \<Rightarrow> u64 \<Rightarrow> ('s, 'f) Ctx \<Rightarrow> ('s, 'f) Ctx" where
  "unlockA path fh c =
    (case attached_export c of
       Some ex \<Rightarrow>
         (case unlock (ex_locks ex) path (se_id (cx_me c)) fh of
            (woken, m) \<Rightarrow> (set_export (ex\<lparr>ex_locks := m\<rparr>) c)\<lparr>cx_woken := cx_woken c @ woken\<rparr>)
     | None \<Rightarrow> c)"

definition release :: "u64 \<Rightarrow> ('s, 'f, Response) agent_op" where
  "release fh c =
    (case hm_get (se_handles (cx_me c)) fh of
       None \<Rightarrow> (Inr RspOk, c)
     | Some h \<Rightarrow>
         (Inr RspOk, unlockA (op_path h) fh (c\<lparr>cx_me := (cx_me c)\<lparr>se_handles := hm_del fh (se_handles (cx_me c))\<rparr>\<rparr>)))"

datatype Outcome = Done "ErrorCode + Response" | Waiting nat

text \<open>One turn of the loop in \<open>LockManager::lock\<close>, on the attached export.\<close>

definition lock_turn :: "RelPath \<Rightarrow> u64 \<Rightarrow> LockKind \<Rightarrow> bool \<Rightarrow> ('s, 'f) Ctx \<Rightarrow> Outcome \<times> ('s, 'f) Ctx" where
  "lock_turn path fh kind wait c =
    (case attached_export c of
       None \<Rightarrow> (Done (Inl NotAttached), c)
     | Some ex \<Rightarrow>
         (case lock_attempt (ex_locks ex) path (se_id (cx_me c)) fh kind wait (cx_next_ticket c) of
            (out, m) \<Rightarrow>
              let c = set_export (ex\<lparr>ex_locks := m\<rparr>) c
              in case out of
                   Granted \<Rightarrow> (Done (Inr RspOk), c)
                 | Refused e \<Rightarrow> (Done (Inl e), c)
                 | Parked \<Rightarrow> (Waiting (cx_next_ticket c), c\<lparr>cx_next_ticket := Suc (cx_next_ticket c)\<rparr>)))"

definition lock_request :: "u64 \<Rightarrow> LockKind \<Rightarrow> bool \<Rightarrow> ('s, 'f) Ctx \<Rightarrow> Outcome \<times> ('s, 'f) Ctx" where
  "lock_request fh kind wait c =
    (case bindA export_of (\<lambda>_. handle_of fh) c of
       (Inl e, c) \<Rightarrow> (Done (Inl e), c)
     | (Inr h, c) \<Rightarrow> lock_turn (op_path h) fh kind wait c)"

definition unlock_request :: "u64 \<Rightarrow> ('s, 'f, Response) agent_op" where
  "unlock_request fh =
    bindA export_of (\<lambda>ex.
    bindA (handle_of fh) (\<lambda>h.
      (\<lambda>c. (Inr RspOk, unlockA (op_path h) fh c))))"

definition subscribe :: "u64 option \<Rightarrow> ('s, 'f, Response) agent_op" where
  "subscribe since_seq =
    bindA export_of (\<lambda>ex.
    bindA (readA (\<lambda>c. if se_push (cx_me c) then Inr () else Inl IoError)) (\<lambda>_.
    bindA (readA (\<lambda>_. hub_subscribe (ex_events ex) since_seq)) (\<lambda>(catchup, rx).
    bindA (meA (\<lambda>me. ((), me\<lparr>se_forwarders := se_forwarders me @
        [\<lparr> fw_export = ex_name ex, fw_catchup = catchup, fw_next = rx \<rparr>]\<rparr>))) (\<lambda>_.
      retA (RspSubscribed (last_seq (ex_events ex)))))))"

section \<open>Dispatch\<close>

fun dispatch_blocking :: "('s, 'f) os \<Rightarrow> glob_lib \<Rightarrow> nat \<Rightarrow> Request \<Rightarrow> ('s, 'f) Ctx
    \<Rightarrow> ((ErrorCode + Response) \<times> ('s, 'f) Ctx) option" where
  "dispatch_blocking os lib now (ReqAttach name) c = Some (attach os name c)"
| "dispatch_blocking os lib now (ReqGetattr path) c = Some (getattr os lib path c)"
| "dispatch_blocking os lib now (ReqReaddir path cursor) c = Some (readdir os lib path cursor c)"
| "dispatch_blocking os lib now (ReqOpen path flags) c = Some (open_file os lib path flags c)"
| "dispatch_blocking os lib now (ReqCreate path flags mode) c = Some (create os lib now path flags mode c)"
| "dispatch_blocking os lib now (ReqRead fh offset len) c = read os fh offset len c"
| "dispatch_blocking os lib now (ReqWrite fh offset data expect) c = write_file os now fh offset data expect c"
| "dispatch_blocking os lib now (ReqFlush fh) c = Some (Inr RspOk, c)"
| "dispatch_blocking os lib now (ReqRelease fh) c = Some (release fh c)"
| "dispatch_blocking os lib now (ReqSetattr path sz mtime mode) c = Some (setattr os lib now path sz mtime mode c)"
| "dispatch_blocking os lib now (ReqMkdir path mode) c = Some (mkdir os lib now path mode c)"
| "dispatch_blocking os lib now (ReqUnlink path) c = Some (unlink os lib now path c)"
| "dispatch_blocking os lib now (ReqRmdir path) c = Some (rmdir os lib now path c)"
| "dispatch_blocking os lib now (ReqRename from to replace) c = Some (rename os lib now from to replace c)"
| "dispatch_blocking os lib now (ReqLink target lnk) c = Some (link os lib now target lnk c)"
| "dispatch_blocking os lib now (ReqSymlink target lnk) c = Some (symlink os lib now target lnk c)"
| "dispatch_blocking os lib now (ReqReadLink path) c = Some (readlink os lib path c)"
| "dispatch_blocking os lib now ReqStatfs c = Some (statfs os c)"
| "dispatch_blocking os lib now ReqMountDefaults c = Some (mount_defaults c)"
| "dispatch_blocking os lib now (ReqLock fh kind wait) c = Some (Inl IoError, c)"
| "dispatch_blocking os lib now (ReqUnlock fh) c = Some (Inl IoError, c)"
| "dispatch_blocking os lib now (ReqSubscribe since) c = Some (Inl IoError, c)"
| "dispatch_blocking os lib now (ReqAuth token) c = Some (Inl IoError, c)"

definition touch :: "nat \<Rightarrow> ('s, 'f) Ctx \<Rightarrow> ('s, 'f) Ctx" where
  "touch now c = c\<lparr>cx_me := (cx_me c)\<lparr>se_last_seen := now\<rparr>\<rparr>"

definition auth :: "string \<Rightarrow> ('s, 'f, Response) agent_op" where
  "auth token c =
    (case se_required_token (cx_me c) of
       None \<Rightarrow> (Inr RspOk, c)
     | Some expected \<Rightarrow>
         if token_eq token expected then (Inr RspOk, c\<lparr>cx_me := (cx_me c)\<lparr>se_authed := True\<rparr>\<rparr>)
         else (Inl PermissionDenied, c))"

definition handle :: "('s, 'f) os \<Rightarrow> glob_lib \<Rightarrow> nat \<Rightarrow> Request \<Rightarrow> ('s, 'f) Ctx \<Rightarrow> (Outcome \<times> ('s, 'f) Ctx) option" where
  "handle os lib now req c0 =
    (let c = touch now c0 in
     case req of
       ReqAuth token \<Rightarrow> Some (map_prod Done id (auth token c))
     | _ \<Rightarrow>
       if \<not> se_authed (cx_me c) then Some (Done (Inl AuthRequired), c)
       else case req of
              ReqSubscribe since \<Rightarrow> Some (map_prod Done id (subscribe since c))
            | ReqLock fh kind wait \<Rightarrow> Some (lock_request fh kind wait c)
            | ReqUnlock fh \<Rightarrow> Some (map_prod Done id (unlock_request fh c))
            | _ \<Rightarrow> map_option (map_prod Done id) (dispatch_blocking os lib now req c))"

section \<open>The end of a session\<close>

definition force_release :: "('s, 'f) Ctx \<Rightarrow> nat \<times> ('s, 'f) Ctx" where
  "force_release c =
    (let (released, c) =
       (case attached_export c of
          Some ex \<Rightarrow>
            (case release_session (ex_locks ex) (se_id (cx_me c)) of
               (resolved, released, m) \<Rightarrow>
                 (released, (set_export (ex\<lparr>ex_locks := m\<rparr>) c)\<lparr>cx_woken := cx_woken c @ resolved\<rparr>))
        | None \<Rightarrow> (0, c))
     in (released + length (se_handles (cx_me c)), c\<lparr>cx_me := (cx_me c)\<lparr>se_handles := []\<rparr>\<rparr>))"

definition connected :: "('s, 'f) Ctx \<Rightarrow> ('s, 'f) Ctx" where
  "connected c = c\<lparr>cx_me := (cx_me c)\<lparr>se_push := True\<rparr>\<rparr>"

definition disconnected :: "('s, 'f) Ctx \<Rightarrow> ('s, 'f) Ctx" where
  "disconnected c =
    (case force_release c of
       (released, c) \<Rightarrow> c\<lparr>cx_me := (cx_me c)\<lparr>se_registered := False, se_push := False\<rparr>\<rparr>)"

definition reap :: "nat \<Rightarrow> nat \<Rightarrow> ('s, 'f) Ctx \<Rightarrow> ('s, 'f) Ctx" where
  "reap lease now c =
    (if se_registered (cx_me c) \<and> now - se_last_seen (cx_me c) > lease then snd (force_release c) else c)"

end
