(* ===== verification/Agent_Moves.thy ===== *)
theory Agent_Moves
  imports Agent_Session
begin

text \<open>
  What a request may do to the agent's state, as a small-step relation: every handler of
  \<^verbatim>\<open>ops.rs\<close> decomposes into \<open>move\<close> steps, each guarded by the condition the code checks before it.
  The locale \<open>ctx_frame\<close> turns any relation closed under the moves into a property of \<open>handle\<close>.
\<close>

section \<open>Moves\<close>

definition under :: "abs_path \<Rightarrow> abs_path \<Rightarrow> bool" where
  "under root p = (\<exists>rest. p = root @ rest)"

text \<open>Mutating calls, with every path they name inside \<open>root\<close>.\<close>

inductive sys_step :: "('s, 'f) os \<Rightarrow> abs_path \<Rightarrow> 's \<Rightarrow> 's \<Rightarrow> bool" for os root where
  ss_open: "under root p \<Longrightarrow> sys_step os root s (snd (os_open os s p opts))"
| ss_permissions: "sys_step os root s (os_set_permissions os s f mode)"
| ss_len: "sys_step os root s (snd (os_set_len os s f n))"
| ss_modified: "sys_step os root s (snd (os_set_modified os s f t))"
| ss_pwrite: "sys_step os root s (snd (os_pwrite os f s data off))"
| ss_create_dir: "under root p \<Longrightarrow> sys_step os root s (snd (os_create_dir os s p))"
| ss_remove_file: "under root p \<Longrightarrow> sys_step os root s (snd (os_remove_file os s p))"
| ss_remove_dir: "under root p \<Longrightarrow> sys_step os root s (snd (os_remove_dir os s p))"
| ss_rename: "under root p \<Longrightarrow> under root q \<Longrightarrow> sys_step os root s (snd (os_rename os s p q))"
| ss_hard_link: "under root p \<Longrightarrow> under root q \<Longrightarrow> sys_step os root s (snd (os_hard_link os s p q))"
| ss_symlink: "under root q \<Longrightarrow> symlink_lands_inside lnk target \<noteq> None \<Longrightarrow>
    sys_step os root s (snd (os_symlink os s target q))"

definition look_opts :: OpenOpts where
  "look_opts = \<lparr> oo_read = True, oo_write = False, oo_truncate = False, oo_create = False, oo_create_new = False \<rparr>"

definition writable_now :: "('s, 'f) Ctx \<Rightarrow> Export \<Rightarrow> bool" where
  "writable_now c ex = (attached_export c = Some ex \<and> \<not> ex_read_only ex)"

definition with_handle :: "u64 \<Rightarrow> 'f OpenFile \<Rightarrow> 'f Session \<Rightarrow> 'f Session" where
  "with_handle fh h me = me\<lparr>se_next_fh := fh + 1, se_handles := hm_put fh h (se_handles me)\<rparr>"

inductive move :: "('s, 'f) os \<Rightarrow> ('s, 'f) Ctx \<Rightarrow> ('s, 'f) Ctx \<Rightarrow> bool" for os where
  mv_pread: "move os c (c\<lparr>cx_fs := snd (os_pread os f (cx_fs c) n off)\<rparr>)"
| mv_look: "attached_export c = Some ex \<Longrightarrow> under (ex_root ex) p \<Longrightarrow>
    move os c (c\<lparr>cx_fs := snd (os_open os (cx_fs c) p look_opts)\<rparr>)"
| mv_sys: "writable_now c ex \<Longrightarrow> sys_step os (ex_root ex) (cx_fs c) s \<Longrightarrow> move os c (c\<lparr>cx_fs := s\<rparr>)"
| mv_note: "writable_now c ex \<Longrightarrow>
    move os c (set_export (ex\<lparr>ex_events := note_local_write now p (se_id (cx_me c)) (ex_events ex)\<rparr>) c)"
| mv_bump: "writable_now c ex \<Longrightarrow> move os c (set_export (snd (bump p ex)) c)"
| mv_rename: "writable_now c ex \<Longrightarrow> move os c (set_export (snd (rename_version p q ex)) c)"
| mv_lock: "attached_export c = Some ex \<Longrightarrow>
    move os c (set_export (ex\<lparr>ex_locks := snd (lock_attempt (ex_locks ex) p (se_id (cx_me c)) fh k w t)\<rparr>) c)"
| mv_unlock: "attached_export c = Some ex \<Longrightarrow>
    move os c (set_export (ex\<lparr>ex_locks := snd (unlock (ex_locks ex) p (se_id (cx_me c)) fh)\<rparr>) c)"
| mv_release: "attached_export c = Some ex \<Longrightarrow>
    move os c (set_export (ex\<lparr>ex_locks := snd (snd (release_session (ex_locks ex) (se_id (cx_me c))))\<rparr>) c)"
| mv_tickets: "move os c (c\<lparr>cx_woken := ws, cx_next_ticket := t\<rparr>)"
| mv_insert: "attached_export c = Some ex \<Longrightarrow> (op_writable h \<longrightarrow> \<not> ex_read_only ex) \<Longrightarrow>
    move os c (c\<lparr>cx_me := with_handle (se_next_fh (cx_me c)) h (cx_me c)\<rparr>)"
| mv_drop: "move os c (c\<lparr>cx_me := (cx_me c)\<lparr>se_handles := hm_del fh (se_handles (cx_me c))\<rparr>\<rparr>)"
| mv_clear: "move os c (c\<lparr>cx_me := (cx_me c)\<lparr>se_handles := []\<rparr>\<rparr>)"
| mv_attach: "se_attached (cx_me c) = None \<Longrightarrow> hm_get (cx_exports c) name \<noteq> None \<Longrightarrow>
    move os c (c\<lparr>cx_me := (cx_me c)\<lparr>se_attached := Some name\<rparr>\<rparr>)"
| mv_authed: "se_required_token (cx_me c) = Some token \<Longrightarrow>
    move os c (c\<lparr>cx_me := (cx_me c)\<lparr>se_authed := True\<rparr>\<rparr>)"
| mv_me: "move os c (c\<lparr>cx_me := (cx_me c)\<lparr>se_last_seen := now, se_push := p, se_registered := r, se_forwarders := fs\<rparr>\<rparr>)"

section \<open>A small program logic for the operations\<close>

definition tri :: "('s, 'f) os \<Rightarrow> (('s, 'f) Ctx \<Rightarrow> bool) \<Rightarrow> ('s, 'f, 'a) agent_op \<Rightarrow> ('a \<Rightarrow> bool) \<Rightarrow> bool" where
  "tri os P m Q = (\<forall>c. P c \<longrightarrow> (move os)\<^sup>*\<^sup>* c (snd (m c)) \<and> P (snd (m c)) \<and> (\<forall>x. fst (m c) = Inr x \<longrightarrow> Q x))"

definition in_root :: "abs_path \<Rightarrow> ('s, 'f) Ctx \<Rightarrow> bool" where
  "in_root r c = (\<exists>ex. attached_export c = Some ex \<and> ex_root ex = r)"

definition can_write :: "abs_path \<Rightarrow> ('s, 'f) Ctx \<Rightarrow> bool" where
  "can_write r c = (\<exists>ex. writable_now c ex \<and> ex_root ex = r)"

lemma bind_export:
  "attached_export c = Some ex \<Longrightarrow> bindA export_of k c = k ex c"
  "attached_export c = None \<Longrightarrow> bindA export_of k c = (Inl NotAttached, c)"
  by (simp_all add: bindA_def export_of_def readA_def)

lemma bind_handle:
  "hm_get (se_handles (cx_me c)) fh = Some h \<Longrightarrow> bindA (handle_of fh) k c = k h c"
  "hm_get (se_handles (cx_me c)) fh = None \<Longrightarrow> bindA (handle_of fh) k c = (Inl BadHandle, c)"
  by (simp_all add: bindA_def handle_of_def readA_def)

lemma bind_writable:
  "writable_now c ex \<Longrightarrow> bindA writable_export k c = k ex c"
  "attached_export c = Some ex \<Longrightarrow> ex_read_only ex \<Longrightarrow> bindA writable_export k c = (Inl ReadOnly, c)"
  "attached_export c = None \<Longrightarrow> bindA writable_export k c = (Inl NotAttached, c)"
  by (simp_all add: bindA_def writable_export_def export_of_def readA_def retA_def failA_def writable_now_def)

lemma bind_read: "bindA (readA f) k c = (case f c of Inl e \<Rightarrow> (Inl e, c) | Inr x \<Rightarrow> k x c)"
  by (simp add: bindA_def readA_def split: sum.splits)

lemma bind_me: "bindA (meA f) k c = k (fst (f (cx_me c))) (c\<lparr>cx_me := snd (f (cx_me c))\<rparr>)"
  by (simp add: bindA_def meA_def split: prod.splits)

lemma bind_ret: "bindA (retA x) k c = k x c" "bindA (failA e) k c = (Inl e, c)"
  by (simp_all add: bindA_def retA_def failA_def)

lemmas op_simps = bind_export bind_handle bind_writable bind_read bind_me bind_ret retA_def failA_def
  resolveA_def resolve_newA_def metadataA_def symlink_metadataA_def file_metadataA_def

named_theorems tri_rules \<open>one rule per operation\<close>

lemma tri_bind:
  assumes m: "tri os P m Q" and k: "\<And>x. Q x \<Longrightarrow> tri os P (k x) R"
  shows "tri os P (bindA m k) R"
  unfolding tri_def
proof (intro allI impI)
  fix c :: "('a, 'b) Ctx"
  assume "P c"
  obtain r c' where mc: "m c = (r, c')" by fastforce
  have m': "(move os)\<^sup>*\<^sup>* c c'" "P c'" "\<And>x. r = Inr x \<Longrightarrow> Q x"
    using m \<open>P c\<close> mc by (force simp: tri_def)+
  show "(move os)\<^sup>*\<^sup>* c (snd (bindA m k c)) \<and> P (snd (bindA m k c)) \<and> (\<forall>x. fst (bindA m k c) = Inr x \<longrightarrow> R x)"
  proof (cases r)
    case (Inl e)
    then show ?thesis using mc m' by (simp add: bindA_def)
  next
    case (Inr x)
    then have "bindA m k c = k x c'" using mc by (simp add: bindA_def)
    moreover have "(move os)\<^sup>*\<^sup>* c' (snd (k x c')) \<and> P (snd (k x c')) \<and> (\<forall>y. fst (k x c') = Inr y \<longrightarrow> R y)"
      using k [OF m'(3) [OF Inr]] m'(2) by (simp add: tri_def)
    ultimately show ?thesis using m'(1) by (simp add: rtranclp_trans)
  qed
qed

lemma tri_ret [tri_rules]: "Q x \<Longrightarrow> tri os P (retA x) Q"
  by (simp add: tri_def retA_def)

lemma tri_fail [tri_rules]: "tri os P (failA e) Q"
  by (simp add: tri_def failA_def)

lemma tri_read: "(\<And>c x. P c \<Longrightarrow> f c = Inr x \<Longrightarrow> Q x) \<Longrightarrow> tri os P (readA f) Q"
  by (simp add: tri_def readA_def)

lemma tri_weaken: "tri os P m Q \<Longrightarrow> (\<And>x. Q x \<Longrightarrow> R x) \<Longrightarrow> tri os P m R"
  by (auto simp: tri_def)

lemma tri_any [tri_rules]: "tri os P (readA f) (\<lambda>_. True)"
  by (rule tri_read) simp

lemma attached_fs [simp]:
  "attached_export (c\<lparr>cx_fs := s\<rparr>) = attached_export c"
  "attached_export (c\<lparr>cx_woken := w\<rparr>) = attached_export c"
  "attached_export (c\<lparr>cx_next_ticket := t\<rparr>) = attached_export c"
  by (simp_all add: attached_export_def)

lemma attached_me [simp]:
  "se_attached me = se_attached (cx_me c) \<Longrightarrow> attached_export (c\<lparr>cx_me := me\<rparr>) = attached_export c"
  by (simp add: attached_export_def)

lemma attached_Some:
  "attached_export c = Some ex \<longleftrightarrow> (\<exists>n. se_attached (cx_me c) = Some n \<and> hm_get (cx_exports c) n = Some ex)"
  by (simp add: attached_export_def bind_eq_Some_conv)

lemma attached_set_export [simp]:
  "attached_export c = Some ex \<Longrightarrow> attached_export (set_export ex' c) = Some ex'"
  by (auto simp: attached_Some set_export_def hmap_simps)

lemma tri_sys:
  assumes "\<And>s. sys_step os r s (snd (f s))"
  shows "tri os (can_write r) (sysA f) (\<lambda>_. True)"
  unfolding tri_def
proof (intro allI impI conjI)
  fix c :: "('a, 'b) Ctx"
  assume "can_write r c"
  then obtain ex where ex: "writable_now c ex" "ex_root ex = r" by (auto simp: can_write_def)
  have eq: "snd (sysA f c) = c\<lparr>cx_fs := snd (f (cx_fs c))\<rparr>" by (simp add: sysA_def split: prod.splits)
  show "(move os)\<^sup>*\<^sup>* c (snd (sysA f c))" unfolding eq
    using ex assms by (blast intro: r_into_rtranclp mv_sys)
  show "can_write r (snd (sysA f c))" unfolding eq using ex by (auto simp: can_write_def writable_now_def)
qed simp

lemma tri_set_mode [tri_rules]: "tri os (can_write r) (set_mode os f mode) (\<lambda>_. True)"
  unfolding tri_def set_mode_def
  by (auto simp: can_write_def writable_now_def intro!: r_into_rtranclp mv_sys ss_permissions)

lemma tri_ex:
  assumes "\<And>c ex. writable_now c ex \<Longrightarrow> move os c (set_export (snd (f (se_id (cx_me c)) ex)) c)"
    and "\<And>i ex. ex_read_only (snd (f i ex)) = ex_read_only ex" "\<And>i ex. ex_root (snd (f i ex)) = ex_root ex"
  shows "tri os (can_write r) (\<lambda>c. exA (f (se_id (cx_me c))) c) (\<lambda>_. True)"
  unfolding tri_def
proof (intro allI impI conjI)
  fix c :: "('a, 'b) Ctx"
  assume "can_write r c"
  then obtain ex where ex: "writable_now c ex" "ex_root ex = r" by (auto simp: can_write_def)
  then have eq: "snd (exA (f (se_id (cx_me c))) c) = set_export (snd (f (se_id (cx_me c)) ex)) c"
    by (simp add: exA_def bindA_def export_of_def readA_def writable_now_def split: prod.splits)
  show "(move os)\<^sup>*\<^sup>* c (snd (exA (f (se_id (cx_me c))) c))" unfolding eq
    using ex assms(1) by blast
  show "can_write r (snd (exA (f (se_id (cx_me c))) c))" unfolding eq
    using ex assms(2,3) by (auto simp: can_write_def writable_now_def)
qed simp

lemma bump_keeps [simp]:
  "ex_read_only (snd (bump p ex)) = ex_read_only ex" "ex_root (snd (bump p ex)) = ex_root ex"
  "ex_locks (snd (bump p ex)) = ex_locks ex" "ex_name (snd (bump p ex)) = ex_name ex"
  by (simp_all add: bump_def Let_def)

lemma rename_version_keeps [simp]:
  "ex_read_only (snd (rename_version p q ex)) = ex_read_only ex" "ex_root (snd (rename_version p q ex)) = ex_root ex"
  "ex_locks (snd (rename_version p q ex)) = ex_locks ex" "ex_name (snd (rename_version p q ex)) = ex_name ex"
  by (simp_all add: rename_version_def)

lemma tri_note [tri_rules]: "tri os (can_write r) (noteA now p) (\<lambda>_. True)"
  using tri_ex [of os "\<lambda>i ex. ((), ex\<lparr>ex_events := note_local_write now p i (ex_events ex)\<rparr>)" r]
  by (simp add: noteA_def [abs_def] mv_note)

lemma tri_bump [tri_rules]: "tri os (can_write r) (bumpA p) (\<lambda>_. True)"
  using tri_ex [of os "\<lambda>_. bump p" r] by (simp add: bumpA_def mv_bump)

lemma tri_rename [tri_rules]: "tri os (can_write r) (exA (rename_version p q)) (\<lambda>_. True)"
  using tri_ex [of os "\<lambda>_. rename_version p q" r] by (simp add: mv_rename)

lemma tri_insert:
  assumes "\<And>c. P c \<Longrightarrow> \<exists>ex. attached_export c = Some ex \<and> (w \<longrightarrow> \<not> ex_read_only ex)"
    and "\<And>c me. P c \<Longrightarrow> se_attached me = se_attached (cx_me c) \<Longrightarrow> P (c\<lparr>cx_me := me\<rparr>)"
  shows "tri os P (insert_handle f p w) (\<lambda>_. True)"
  unfolding tri_def
proof (intro allI impI conjI)
  fix c :: "('a, 'b) Ctx"
  let ?h = "\<lparr> op_file = f, op_path = p, op_writable = w \<rparr>"
  assume P: "P c"
  obtain ex where ex: "attached_export c = Some ex" "w \<longrightarrow> \<not> ex_read_only ex" using assms(1) [OF P] by blast
  have eq: "snd (insert_handle f p w c) = c\<lparr>cx_me := with_handle (se_next_fh (cx_me c)) ?h (cx_me c)\<rparr>"
    by (simp add: insert_handle_def meA_def with_handle_def)
  show "(move os)\<^sup>*\<^sup>* c (snd (insert_handle f p w c))" unfolding eq
    using ex by (intro r_into_rtranclp mv_insert) simp_all
  show "P (snd (insert_handle f p w c))" unfolding eq
    using P by (intro assms(2)) (simp_all add: with_handle_def)
qed simp

lemma can_write_me: "se_attached me = se_attached (cx_me c) \<Longrightarrow> can_write r (c\<lparr>cx_me := me\<rparr>) = can_write r c"
  by (simp add: can_write_def writable_now_def)

lemma tri_insert_w [tri_rules]: "tri os (can_write r) (insert_handle f p w) (\<lambda>_. True)"
  by (rule tri_insert) (auto simp: can_write_def writable_now_def)

lemma tri_insert_r [tri_rules]: "tri os (in_root r) (insert_handle f p False) (\<lambda>_. True)"
  by (rule tri_insert) (auto simp: in_root_def)

lemma tri_look:
  assumes "under r p"
  shows "tri os (in_root r) (openA os p look_opts) (\<lambda>_. True)"
  unfolding tri_def
proof (intro allI impI conjI)
  fix c :: "('a, 'b) Ctx"
  assume "in_root r c"
  then obtain ex where ex: "attached_export c = Some ex" "ex_root ex = r" by (auto simp: in_root_def)
  have eq: "snd (openA os p look_opts c) = c\<lparr>cx_fs := snd (os_open os (cx_fs c) p look_opts)\<rparr>"
    by (simp add: openA_def sysA_def split: prod.splits)
  show "(move os)\<^sup>*\<^sup>* c (snd (openA os p look_opts c))" unfolding eq
    using mv_look [OF ex(1)] ex(2) assms by blast
  show "in_root r (snd (openA os p look_opts c))" unfolding eq using ex by (simp add: in_root_def)
qed simp

lemma tri_open [tri_rules]: "under r p \<Longrightarrow> tri os (can_write r) (openA os p opts) (\<lambda>_. True)"
  unfolding openA_def by (rule tri_sys) (rule ss_open)

lemma tri_resolve [tri_rules]: "ex_root ex = r \<Longrightarrow> tri os P (resolveA os' lib ex p) (under r)"
  unfolding resolveA_def by (rule tri_read) (auto dest: resolve_inside simp: under_def)

lemma tri_resolve_new [tri_rules]: "ex_root ex = r \<Longrightarrow> tri os P (resolve_newA os' lib ex p) (under r)"
  unfolding resolve_newA_def
  by (rule tri_read) (fastforce dest!: resolve_new_inside resolve_inside simp: under_def)

lemma tri_metadata [tri_rules]:
  "tri os P (metadataA os' p) (\<lambda>_. True)" "tri os P (symlink_metadataA os' p) (\<lambda>_. True)"
  "tri os P (file_metadataA os' f) (\<lambda>_. True)"
  by (simp_all add: metadataA_def symlink_metadataA_def file_metadataA_def tri_any)

text \<open>A handler that starts at the read-only gate.\<close>

lemma moves_writable:
  assumes "\<And>ex. \<not> ex_read_only ex \<Longrightarrow> tri os (can_write (ex_root ex)) (k ex) (\<lambda>_. True)"
  shows "(move os)\<^sup>*\<^sup>* c (snd (bindA writable_export k c))"
proof (cases "attached_export c")
  case (Some ex)
  then show ?thesis
    using assms [of ex] Some
    by (cases "ex_read_only ex")
      (auto simp: writable_export_def export_of_def bindA_def readA_def failA_def retA_def tri_def
        can_write_def writable_now_def)
qed (simp add: writable_export_def export_of_def bindA_def readA_def)

section \<open>Every request is a sequence of moves\<close>

lemma tri_calls [tri_rules]:
  "tri os (can_write r) (sysA (\<lambda>s. os_set_len os s f n)) (\<lambda>_. True)"
  "tri os (can_write r) (sysA (\<lambda>s. os_set_modified os s f t)) (\<lambda>_. True)"
  "under r p \<Longrightarrow> tri os (can_write r) (sysA (\<lambda>s. os_create_dir os s p)) (\<lambda>_. True)"
  "under r p \<Longrightarrow> tri os (can_write r) (sysA (\<lambda>s. os_remove_file os s p)) (\<lambda>_. True)"
  "under r p \<Longrightarrow> tri os (can_write r) (sysA (\<lambda>s. os_remove_dir os s p)) (\<lambda>_. True)"
  "under r p \<Longrightarrow> under r q \<Longrightarrow> tri os (can_write r) (sysA (\<lambda>s. os_rename os s p q)) (\<lambda>_. True)"
  "under r p \<Longrightarrow> under r q \<Longrightarrow> tri os (can_write r) (sysA (\<lambda>s. os_hard_link os s p q)) (\<lambda>_. True)"
  by (simp_all add: tri_sys sys_step.intros)

lemma tri_option [tri_rules]:
  "(\<And>x. o' = Some x \<Longrightarrow> tri os P (k x) (\<lambda>_. True)) \<Longrightarrow>
   tri os P (case o' of None \<Rightarrow> retA () | Some x \<Rightarrow> k x) (\<lambda>_. True)"
  by (cases o') (simp_all add: tri_ret)

lemma moves_tree:
  "(move os)\<^sup>*\<^sup>* c (snd (create os lib now p fl mode c))"
  "(move os)\<^sup>*\<^sup>* c (snd (setattr os lib now p sz mt md c))"
  "(move os)\<^sup>*\<^sup>* c (snd (mkdir os lib now p mode c))"
  "(move os)\<^sup>*\<^sup>* c (snd (unlink os lib now p c))"
  "(move os)\<^sup>*\<^sup>* c (snd (rmdir os lib now p c))"
  "(move os)\<^sup>*\<^sup>* c (snd (rename os lib now p q repl c))"
  "(move os)\<^sup>*\<^sup>* c (snd (link os lib now p q c))"
  unfolding create_def setattr_def mkdir_def unlink_def rmdir_def rename_def link_def
  by (rule moves_writable tri_bind tri_rules TrueI refl | assumption)+

lemma moves_symlink: "(move os)\<^sup>*\<^sup>* c (snd (symlink os lib now target lnk c))"
  unfolding symlink_def
proof (rule moves_writable, (rule tri_bind, rule tri_rules, rule refl)+)
  fix ex full
  assume full: "under (ex_root ex) full"
  let ?lands = "readA (\<lambda>_. ok_or PermissionDenied (symlink_lands_inside lnk target))"
  have "tri os (can_write (ex_root ex)) ?lands (\<lambda>l. symlink_lands_inside lnk target = Some l)"
    by (rule tri_read) (simp add: ok_or_Inr)
  then show "tri os (can_write (ex_root ex)) (bindA ?lands (\<lambda>landing.
      if is_excluded lib (ex_exclude ex) landing then failA PermissionDenied
      else bindA (sysA (\<lambda>s. os_symlink os s target full)) (\<lambda>_.
        bindA (symlink_metadataA os full) (\<lambda>md. bindA (noteA now lnk) (\<lambda>_.
        bindA (bumpA lnk) (\<lambda>version. retA (RspAttr (attr_from_metadata md version)))))))) (\<lambda>_. True)"
  proof (rule tri_bind)
    fix l
    assume "symlink_lands_inside lnk target = Some l"
    then have "tri os (can_write (ex_root ex)) (sysA (\<lambda>s. os_symlink os s target full)) (\<lambda>_. True)"
      using full by (intro tri_sys ss_symlink [of _ _ lnk]) simp_all
    then show "tri os (can_write (ex_root ex)) (if is_excluded lib (ex_exclude ex) l then failA PermissionDenied
      else bindA (sysA (\<lambda>s. os_symlink os s target full)) (\<lambda>_.
        bindA (symlink_metadataA os full) (\<lambda>md. bindA (noteA now lnk) (\<lambda>_.
        bindA (bumpA lnk) (\<lambda>version. retA (RspAttr (attr_from_metadata md version))))))) (\<lambda>_. True)"
      by (auto intro!: tri_bind tri_rules)
  qed
qed

lemma moves_open: "(move os)\<^sup>*\<^sup>* c (snd (open_file os lib p fl c))"
proof (cases "attached_export c")
  case None
  then show ?thesis by (simp add: open_file_def bind_export)
next
  case (Some ex)
  define ww where "ww = (of_write fl \<or> of_truncate fl \<or> of_append fl)"
  define P where "P = (if ww then can_write (ex_root ex) else in_root (ex_root ex) :: ('a, 'b) Ctx \<Rightarrow> bool)"
  define body where "body = bindA (resolveA os lib ex p) (\<lambda>full.
        bindA (openA os full \<lparr> oo_read = True, oo_write = ww, oo_truncate = of_truncate fl,
                               oo_create = False, oo_create_new = False \<rparr>) (\<lambda>file.
        bindA (file_metadataA os file) (\<lambda>md.
          if md_is_dir md then failA IsADirectory
          else
            bindA (if of_truncate fl then bumpA p else retA (version_of ex p)) (\<lambda>version.
            bindA (insert_handle file p ww) (\<lambda>fh.
              retA (RspOpened fh (attr_from_metadata md version)))))))"
  have eq: "open_file os lib p fl c = (if ww \<and> ex_read_only ex then (Inl ReadOnly, c) else body c)"
    using Some by (simp add: open_file_def bind_export failA_def Let_def body_def flip: ww_def)
  have tri_body: "tri os P body (\<lambda>_. True)"
  proof (cases ww)
    case True
    then show ?thesis unfolding P_def body_def by (auto intro!: tri_bind [OF tri_resolve] tri_bind tri_rules)
  next
    case False
    moreover from this have "\<not> of_truncate fl" by (simp add: ww_def)
    ultimately show ?thesis unfolding P_def body_def
      using tri_look [of "ex_root ex", unfolded look_opts_def]
      by (auto intro!: tri_bind [OF tri_resolve] tri_bind tri_rules)
  qed
  show ?thesis
  proof (cases "ww \<and> ex_read_only ex")
    case False
    then have "P c" using Some by (auto simp: P_def can_write_def in_root_def writable_now_def)
    then show ?thesis using tri_body False by (simp add: eq tri_def)
  qed (simp add: eq)
qed

lemma read_loop_reach:
  "read_loop rd s len off buf = Some y \<Longrightarrow> (\<lambda>a b. \<exists>n i r. rd a n i = (r, b))\<^sup>*\<^sup>* s (snd y)"
proof (induction rule: read_loop.raw_induct [rotated, consumes 1, case_names step])
  case (step self rd s len off buf y)
  obtain r s' where rd: "rd s (len - length buf) (off + of_nat (length buf)) = (r, s')" by fastforce
  then have one: "(\<lambda>a b. \<exists>n i r. rd a n i = (r, b))\<^sup>*\<^sup>* s s'" by blast
  have "snd y = s \<or> snd y = s' \<or> (\<exists>buf'. self rd s' len off buf' = Some y)"
    using step(2) rd by (cases y) (auto split: if_splits sum.splits list.splits IoKind.splits)
  then show ?case by (elim disjE exE) (auto simp: one intro: rtranclp_trans [OF one step(1)])
qed

lemma write_loop_reach:
  "write_loop wr s buf off i = Some y \<Longrightarrow> (\<lambda>a b. \<exists>d j r. wr a d j = (r, b))\<^sup>*\<^sup>* s (snd y)"
proof (induction rule: write_loop.raw_induct [rotated, consumes 1, case_names step])
  case (step self wr s buf off i y)
  obtain r s' where wr: "wr s (drop i buf) (off + of_nat i) = (r, s')" by fastforce
  then have one: "(\<lambda>a b. \<exists>d j r. wr a d j = (r, b))\<^sup>*\<^sup>* s s'" by blast
  have "snd y = s \<or> snd y = s' \<or> (\<exists>i'. self wr s' buf off i' = Some y)"
    using step(2) wr by (cases y) (auto split: if_splits sum.splits nat.splits IoKind.splits)
  then show ?case by (elim disjE exE) (auto simp: one intro: rtranclp_trans [OF one step(1)])
qed

lemma pread_moves:
  "(\<lambda>a b. \<exists>n i r. os_pread os f a n i = (r, b))\<^sup>*\<^sup>* (cx_fs c) s \<Longrightarrow> (move os)\<^sup>*\<^sup>* c (c\<lparr>cx_fs := s\<rparr>)"
proof (induction rule: rtranclp_induct)
  case (step a b)
  then obtain n i r where "os_pread os f a n i = (r, b)" by blast
  then have "move os (c\<lparr>cx_fs := a\<rparr>) (c\<lparr>cx_fs := b\<rparr>)"
    using mv_pread [of os "c\<lparr>cx_fs := a\<rparr>" f n i] by simp
  then show ?case using step by simp
qed simp

lemma pwrite_moves:
  assumes "writable_now c ex"
  shows "(\<lambda>a b. \<exists>d i r. os_pwrite os f a d i = (r, b))\<^sup>*\<^sup>* (cx_fs c) s \<Longrightarrow> (move os)\<^sup>*\<^sup>* c (c\<lparr>cx_fs := s\<rparr>)"
proof (induction rule: rtranclp_induct)
  case (step a b)
  then obtain d i r where "os_pwrite os f a d i = (r, b)" by blast
  then have "move os (c\<lparr>cx_fs := a\<rparr>) (c\<lparr>cx_fs := b\<rparr>)"
    using mv_sys [of "c\<lparr>cx_fs := a\<rparr>" ex os b] ss_pwrite [of os "ex_root ex" a f d i] assms
    by (simp add: writable_now_def)
  then show ?case using step by simp
qed simp

lemma moves_read:
  assumes "read os fh off len c = Some (r, c')"
  shows "(move os)\<^sup>*\<^sup>* c c'"
proof (cases "len > DATA_CHUNK \<or> hm_get (se_handles (cx_me c)) fh = None")
  case True
  then show ?thesis using assms by (auto simp: read_def handle_of_def readA_def split: if_splits)
next
  case False
  then obtain h where "hm_get (se_handles (cx_me c)) fh = Some h" by blast
  then show ?thesis
    using False assms by (auto simp: read_def read_fully_def handle_of_def readA_def
        intro!: pread_moves dest: read_loop_reach)
qed

lemma write_guard_Inr:
  "write_guard fh v c = (r, c') \<Longrightarrow> c' = c \<and> (\<forall>ex h. r = Inr (ex, h) \<longrightarrow>
    writable_now c ex \<and> hm_get (se_handles (cx_me c)) fh = Some h \<and> op_writable h
    \<and> (\<forall>w. v = Some w \<longrightarrow> w = version_of ex (op_path h)))"
  by (cases "attached_export c"; cases "hm_get (se_handles (cx_me c)) fh")
    (auto simp: write_guard_def writable_export_def export_of_def handle_of_def bindA_def readA_def failA_def
      retA_def writable_now_def split: if_splits option.splits)

lemma moves_write:
  assumes "write_file os now fh off data v c = Some (r, c')"
  shows "(move os)\<^sup>*\<^sup>* c c'"
proof (cases "fst (write_guard fh v c)")
  case (Inl e)
  then show ?thesis using assms write_guard_Inr [of fh v c] by (auto simp: write_file_def split: prod.splits)
next
  case (Inr x)
  obtain ex h where x: "x = (ex, h)" by fastforce
  have g: "write_guard fh v c = (Inr (ex, h), c)" "writable_now c ex"
    using Inr x write_guard_Inr [of fh v c "Inr (ex, h)" "snd (write_guard fh v c)"] by (auto simp: prod_eq_iff)
  let ?tail = "\<lambda>r. bindA (readA (\<lambda>_. or_code r)) (\<lambda>_. bindA (noteA now (op_path h)) (\<lambda>_.
      bindA (bumpA (op_path h)) (\<lambda>nv. retA (RspWritten (of_nat (length data)) nv False))))"
  obtain r' s where w: "write_loop (os_pwrite os (op_file h)) (cx_fs c) data off 0 = Some (r', s)"
    and c': "c' = snd (?tail r' (c\<lparr>cx_fs := s\<rparr>))"
    using assms g by (auto simp: write_file_def write_fully_def)
  have "(move os)\<^sup>*\<^sup>* c (c\<lparr>cx_fs := s\<rparr>)"
    using pwrite_moves [OF g(2)] write_loop_reach [OF w] by simp
  moreover have "tri os (can_write (ex_root ex)) (?tail r') (\<lambda>_. True)"
    by (rule tri_bind tri_rules TrueI)+
  then have "(move os)\<^sup>*\<^sup>* (c\<lparr>cx_fs := s\<rparr>) c'"
    unfolding c' using g(2) by (auto simp: tri_def can_write_def writable_now_def)
  ultimately show ?thesis by simp
qed

lemma moves_unlockA: "(move os)\<^sup>*\<^sup>* c (unlockA p fh c)"
proof (cases "attached_export c")
  case (Some ex)
  let ?m = "unlock (ex_locks ex) p (se_id (cx_me c)) fh"
  let ?c = "set_export (ex\<lparr>ex_locks := snd ?m\<rparr>) c"
  have "move os c ?c" using Some by (rule mv_unlock)
  moreover have "move os ?c (?c\<lparr>cx_woken := cx_woken c @ fst ?m, cx_next_ticket := cx_next_ticket ?c\<rparr>)"
    by (rule mv_tickets)
  ultimately have "(move os)\<^sup>*\<^sup>* c (?c\<lparr>cx_woken := cx_woken c @ fst ?m\<rparr>)" by (simp add: set_export_def)
  then show ?thesis using Some by (simp add: unlockA_def case_prod_beta)
qed (simp add: unlockA_def)

lemma moves_release: "(move os)\<^sup>*\<^sup>* c (snd (release fh c))"
  by (cases "hm_get (se_handles (cx_me c)) fh")
    (auto simp: release_def intro: converse_rtranclp_into_rtranclp [OF mv_drop [of os c fh] moves_unlockA])

lemma moves_lock_turn: "(move os)\<^sup>*\<^sup>* c (snd (lock_turn p fh k w c))"
proof (cases "attached_export c")
  case (Some ex)
  let ?r = "lock_attempt (ex_locks ex) p (se_id (cx_me c)) fh k w (cx_next_ticket c)"
  let ?c = "set_export (ex\<lparr>ex_locks := snd ?r\<rparr>) c"
  have step: "move os c ?c" using Some by (rule mv_lock)
  moreover have "move os ?c (?c\<lparr>cx_woken := cx_woken ?c, cx_next_ticket := Suc (cx_next_ticket ?c)\<rparr>)"
    by (rule mv_tickets)
  ultimately have two: "(move os)\<^sup>*\<^sup>* c (?c\<lparr>cx_next_ticket := Suc (cx_next_ticket ?c)\<rparr>)" by simp
  then show ?thesis using step Some
    by (auto simp: lock_turn_def Let_def split: prod.splits LockOutcome.splits)
qed (simp add: lock_turn_def)

lemma moves_lock_request: "(move os)\<^sup>*\<^sup>* c (snd (lock_request fh k w c))"
  by (cases "attached_export c"; cases "hm_get (se_handles (cx_me c)) fh")
    (simp_all add: lock_request_def bind_export handle_of_def readA_def moves_lock_turn)

lemma moves_unlock_request: "(move os)\<^sup>*\<^sup>* c (snd (unlock_request fh c))"
  by (cases "attached_export c"; cases "hm_get (se_handles (cx_me c)) fh")
    (auto simp: unlock_request_def op_simps moves_unlockA)

lemma moves_me:
  "se_attached me = se_attached (cx_me c) \<Longrightarrow> me = (cx_me c)\<lparr>se_last_seen := se_last_seen me,
     se_push := se_push me, se_registered := se_registered me, se_forwarders := se_forwarders me\<rparr>
   \<Longrightarrow> move os c (c\<lparr>cx_me := me\<rparr>)"
  by (metis mv_me)

lemma moves_subscribe: "(move os)\<^sup>*\<^sup>* c (snd (subscribe since c))"
proof (cases "attached_export c")
  case (Some ex)
  then show ?thesis
    by (cases "hub_subscribe (ex_events ex) since")
      (auto simp: subscribe_def op_simps intro!: r_into_rtranclp moves_me)
qed (simp add: subscribe_def bind_export)

lemma moves_attach: "(move os)\<^sup>*\<^sup>* c (snd (attach os name c))"
proof (cases "hm_get (cx_exports c) name")
  case (Some ex)
  have "(move os)\<^sup>*\<^sup>* c (c\<lparr>cx_me := if se_attached (cx_me c) = None then (cx_me c)\<lparr>se_attached := Some name\<rparr> else cx_me c\<rparr>)"
    using Some by (auto intro: mv_attach)
  then show ?thesis using Some
    by (auto simp: attach_def op_simps split: option.splits sum.splits)
qed (auto simp: attach_def op_simps split: option.splits)

lemma moves_look:
  "snd (getattr os lib p c) = c" "snd (readdir os lib p cur c) = c" "snd (readlink os lib p c) = c"
  "snd (statfs os c) = c" "snd (mount_defaults c) = c"
  by (cases "attached_export c"; simp add: getattr_def readdir_def readlink_def statfs_def mount_defaults_def op_simps
      readA_def Let_def split: sum.splits prod.splits if_splits)+

lemma moves_auth: "(move os)\<^sup>*\<^sup>* c (snd (auth token c))"
  by (auto simp: auth_def split: option.splits intro: mv_authed)

lemma moves_dispatch:
  assumes "dispatch_blocking os lib now req c = Some y"
  shows "(move os)\<^sup>*\<^sup>* c (snd y)"
proof -
  have r: "(move os)\<^sup>*\<^sup>* c (snd y)" if "read os fh off len c = Some y" for fh off len
    using that moves_read [of os fh off len c "fst y" "snd y"] by simp
  have w: "(move os)\<^sup>*\<^sup>* c (snd y)" if "write_file os now fh off d v c = Some y" for fh off d v
    using that moves_write [of os now fh off d v c "fst y" "snd y"] by simp
  show ?thesis using assms
    by (cases req) (auto simp: moves_tree moves_symlink moves_open moves_release moves_attach moves_look r w)
qed

lemma touch_move: "move os c (touch now c)"
  unfolding touch_def by (rule moves_me) simp_all

lemma handle_moves:
  assumes "handle os lib now req c = Some y"
  shows "(move os)\<^sup>*\<^sup>* c (snd y)"
proof -
  let ?c = "touch now c"
  have d: "(move os)\<^sup>*\<^sup>* ?c (snd y)"
    if "map_option (map_prod Done id) (dispatch_blocking os lib now req ?c) = Some y"
    using that moves_dispatch [of os lib now req ?c] by auto
  have "(move os)\<^sup>*\<^sup>* ?c (snd y)"
    using assms d
    by (cases req) (auto simp: handle_def Let_def moves_auth moves_subscribe moves_lock_request moves_unlock_request
        simp del: dispatch_blocking.simps split: if_splits)
  then show ?thesis using touch_move [of os c now] by (simp add: converse_rtranclp_into_rtranclp)
qed

lemma force_release_moves: "(move os)\<^sup>*\<^sup>* c (snd (force_release c))"
proof (cases "attached_export c")
  case None
  then show ?thesis by (simp add: force_release_def mv_clear r_into_rtranclp)
next
  case (Some ex)
  let ?r = "release_session (ex_locks ex) (se_id (cx_me c))"
  let ?c = "set_export (ex\<lparr>ex_locks := snd (snd ?r)\<rparr>) c"
  let ?d = "?c\<lparr>cx_woken := cx_woken c @ fst ?r, cx_next_ticket := cx_next_ticket ?c\<rparr>"
  have "move os c ?c" using Some by (rule mv_release)
  moreover have "move os ?c ?d" by (rule mv_tickets)
  moreover have "move os ?d (?d\<lparr>cx_me := (cx_me ?d)\<lparr>se_handles := []\<rparr>\<rparr>)" by (rule mv_clear)
  ultimately have "(move os)\<^sup>*\<^sup>* c (?d\<lparr>cx_me := (cx_me ?d)\<lparr>se_handles := []\<rparr>\<rparr>)" by simp
  then show ?thesis using Some by (simp add: force_release_def case_prod_beta Let_def set_export_def)
qed

section \<open>The frame of a request\<close>

text \<open>Anything closed under the moves holds between the states before and after any request, before
  and after the release of a session.\<close>

locale ctx_frame =
  fixes os :: "('s, 'f) os" and R :: "('s, 'f) Ctx \<Rightarrow> ('s, 'f) Ctx \<Rightarrow> bool"
  assumes frame_refl: "R c c"
    and frame_trans: "R a b \<Longrightarrow> R b c \<Longrightarrow> R a c"
    and frame_move: "move os a b \<Longrightarrow> R a b"
begin

lemma frame_moves: "(move os)\<^sup>*\<^sup>* a b \<Longrightarrow> R a b"
  by (induction rule: rtranclp_induct) (auto intro: frame_refl frame_trans frame_move)

lemma frame_handle: "handle os lib now req c = Some (out, c') \<Longrightarrow> R c c'"
  using frame_moves handle_moves by fastforce

lemma frame_lock_turn: "R c (snd (lock_turn p fh k w c))"
  using frame_moves moves_lock_turn by blast

lemma frame_release: "R c (snd (force_release c))"
  using frame_moves force_release_moves by blast

lemma frame_disconnected: "R c (disconnected c)"
proof -
  have "move os (snd (force_release c)) (disconnected c)"
    unfolding disconnected_def case_prod_beta by (rule moves_me) simp_all
  then show ?thesis using frame_release frame_move frame_trans by blast
qed

lemma frame_reap: "R c (reap lease now c)"
  using frame_release frame_refl by (simp add: reap_def)

end

end
