(* ===== verification/Agent_System.thy ===== *)
theory Agent_System
  imports Agent_Moves
begin

text \<open>
  The agent as a whole: the watcher's publishing loop (\<^verbatim>\<open>watch.rs\<close>), all sessions over the state they
  share, and what holds of every interleaving of their requests.

  \<open>mem_os\<close> is a small in-memory file system, on which hypotheses about the operating system are
  shown to be satisfiable.
\<close>

section \<open>The watcher loop\<close>

fun batch_versions :: "(RelPath \<times> EventKind) list \<Rightarrow> Export \<Rightarrow> Export" where
  "batch_versions [] ex = ex"
| "batch_versions ((path, RenamedFrom to) # batch) ex = batch_versions batch (snd (rename_version path to ex))"
| "batch_versions ((path, Removed) # batch) ex = batch_versions batch ex"
| "batch_versions ((path, kind) # batch) ex = batch_versions batch (snd (bump path ex))"

definition publish_batch :: "nat \<Rightarrow> (RelPath \<times> EventKind) list \<Rightarrow> Export \<Rightarrow> Export" where
  "publish_batch now batch ex =
    (if batch = [] then ex
     else let ex = batch_versions batch ex in ex\<lparr>ex_events := publish now batch (ex_events ex)\<rparr>)"

datatype WatchInput = RawEvent NotifyEvent | DebounceElapsed | WatcherDropped

definition coalesce_turn :: "glob_lib \<Rightarrow> nat \<Rightarrow> WatchInput \<Rightarrow> Coalescer \<times> Export \<Rightarrow> Coalescer \<times> Export" where
  "coalesce_turn lib now inp = (\<lambda>(co, ex).
    let flush = (\<lambda>co. case take_batch co of (batch, co') \<Rightarrow> (co', publish_batch now batch ex))
    in case inp of
         RawEvent event \<Rightarrow>
           let co = ingest lib now event co in
           if coalescer_len co \<ge> BATCH_MAX
              \<or> (case oldest_age now co of Some age \<Rightarrow> age \<ge> MAX_LATENCY | None \<Rightarrow> False)
           then flush co else (co, ex)
       | DebounceElapsed \<Rightarrow> flush co
       | WatcherDropped \<Rightarrow> flush co)"

fun coalesce_loop :: "glob_lib \<Rightarrow> (nat \<times> WatchInput) list \<Rightarrow> Coalescer \<times> Export \<Rightarrow> Coalescer \<times> Export" where
  "coalesce_loop lib [] st = st"
| "coalesce_loop lib ((now, WatcherDropped) # inputs) st = coalesce_turn lib now WatcherDropped st"
| "coalesce_loop lib ((now, inp) # inputs) st = coalesce_loop lib inputs (coalesce_turn lib now inp st)"

section \<open>All sessions\<close>

record ParkedLock =
  pk_session :: u64
  pk_path :: RelPath
  pk_fh :: u64
  pk_kind :: LockKind

record ('s, 'f) AgentSys =
  sy_fs :: 's
  sy_exports :: "(string, Export) hmap"
  sy_next_ticket :: nat
  sy_woken :: "nat list"
  sy_parked :: "(nat, ParkedLock) hmap"
  sy_sessions :: "(u64, 'f Session) hmap"
  sy_next_session :: u64

definition ctx_of :: "('s, 'f) AgentSys \<Rightarrow> 'f Session \<Rightarrow> ('s, 'f) Ctx" where
  "ctx_of sy me =
    \<lparr> cx_fs = sy_fs sy, cx_exports = sy_exports sy, cx_next_ticket = sy_next_ticket sy,
      cx_woken = sy_woken sy, cx_me = me \<rparr>"

definition put_ctx :: "u64 \<Rightarrow> ('s, 'f) Ctx \<Rightarrow> ('s, 'f) AgentSys \<Rightarrow> ('s, 'f) AgentSys" where
  "put_ctx sid c sy =
    sy\<lparr>sy_fs := cx_fs c, sy_exports := cx_exports c, sy_next_ticket := cx_next_ticket c,
       sy_woken := cx_woken c, sy_sessions := hm_put sid (cx_me c) (sy_sessions sy)\<rparr>"

definition park :: "u64 \<Rightarrow> RelPath \<Rightarrow> u64 \<Rightarrow> LockKind \<Rightarrow> Outcome \<Rightarrow> ('s, 'f) AgentSys \<Rightarrow> ('s, 'f) AgentSys" where
  "park sid path fh kind out sy =
    (case out of
       Waiting t \<Rightarrow> sy\<lparr>sy_parked := hm_put t \<lparr> pk_session = sid, pk_path = path, pk_fh = fh, pk_kind = kind \<rparr> (sy_parked sy)\<rparr>
     | Done r \<Rightarrow> sy)"

datatype AgentAct =
    AaConnect nat "string option" | AaServe u64 nat Request | AaRetry nat
  | AaDisconnect u64 | AaReap u64 nat nat | AaPublish string nat "(RelPath \<times> EventKind) list"

definition lock_path :: "'f Session \<Rightarrow> u64 \<Rightarrow> RelPath" where
  "lock_path me fh = (case hm_get (se_handles me) fh of Some h \<Rightarrow> op_path h | None \<Rightarrow> [])"

text \<open>One action; \<^const>\<open>None\<close> when it is not possible (no such session or ticket, or the request never
  returns).\<close>

fun agent_act :: "('s, 'f) os \<Rightarrow> glob_lib \<Rightarrow> AgentAct \<Rightarrow> ('s, 'f) AgentSys \<Rightarrow> (Outcome option \<times> ('s, 'f) AgentSys) option" where
  "agent_act os lib (AaConnect now token) sy =
    Some (None, sy\<lparr>sy_sessions := hm_put (sy_next_session sy)
                      (cx_me (connected (ctx_of sy (session_with_token now (sy_next_session sy) token)))) (sy_sessions sy),
                   sy_next_session := sy_next_session sy + 1\<rparr>)"
| "agent_act os lib (AaServe sid now req) sy =
    Option.bind (hm_get (sy_sessions sy) sid) (\<lambda>me.
      map_option (\<lambda>(out, c).
          (Some out, (case req of
                        ReqLock fh kind wait \<Rightarrow> park sid (lock_path me fh) fh kind out
                      | _ \<Rightarrow> id) (put_ctx sid c sy)))
        (handle os lib now req (ctx_of sy me)))"
| "agent_act os lib (AaRetry t) sy =
    (if t \<notin> set (sy_woken sy) then None
     else Option.bind (hm_get (sy_parked sy) t) (\<lambda>pk.
       Option.bind (hm_get (sy_sessions sy) (pk_session pk)) (\<lambda>me.
         case lock_turn (pk_path pk) (pk_fh pk) (pk_kind pk) True (ctx_of sy me) of
           (out, c) \<Rightarrow>
             (let sy' = (put_ctx (pk_session pk) c sy)\<lparr>sy_parked := hm_del t (sy_parked sy)\<rparr>
              in Some (Some out, park (pk_session pk) (pk_path pk) (pk_fh pk) (pk_kind pk) out sy')))))"
| "agent_act os lib (AaDisconnect sid) sy =
    map_option (\<lambda>me. (None, put_ctx sid (disconnected (ctx_of sy me)) sy)) (hm_get (sy_sessions sy) sid)"
| "agent_act os lib (AaReap sid lease now) sy =
    map_option (\<lambda>me. (None, put_ctx sid (reap lease now (ctx_of sy me)) sy)) (hm_get (sy_sessions sy) sid)"
| "agent_act os lib (AaPublish name now batch) sy =
    map_option (\<lambda>ex. (None, sy\<lparr>sy_exports := hm_put name (publish_batch now batch ex) (sy_exports sy)\<rparr>))
      (hm_get (sy_exports sy) name)"

fun agent_run :: "('s, 'f) os \<Rightarrow> glob_lib \<Rightarrow> AgentAct list \<Rightarrow> ('s, 'f) AgentSys \<Rightarrow> (Outcome option list \<times> ('s, 'f) AgentSys) option" where
  "agent_run os lib [] sy = Some ([], sy)"
| "agent_run os lib (a # as) sy =
    Option.bind (agent_act os lib a sy) (\<lambda>(out, sy').
      map_option (\<lambda>(outs, sy''). (out # outs, sy'')) (agent_run os lib as sy'))"

definition agent_start :: "'s \<Rightarrow> (string, Export) hmap \<Rightarrow> ('s, 'f) AgentSys" where
  "agent_start s exports =
    \<lparr> sy_fs = s, sy_exports = exports, sy_next_ticket = 0, sy_woken = [], sy_parked = [],
      sy_sessions = [], sy_next_session = 1 \<rparr>"

section \<open>An in-memory file system\<close>

record Mem =
  mem_files :: "(abs_path, bytes) hmap"
  mem_dirs :: "abs_path list"
  mem_links :: "(abs_path, abs_path) hmap"

definition mem_follow :: "Mem \<Rightarrow> abs_path \<Rightarrow> abs_path" where
  "mem_follow s p = (case hm_get (mem_links s) p of Some q \<Rightarrow> q | None \<Rightarrow> p)"

definition mem_has :: "Mem \<Rightarrow> abs_path \<Rightarrow> bool" where
  "mem_has s p = (hm_has (mem_files s) p \<or> p \<in> set (mem_dirs s))"

definition mem_md :: "Mem \<Rightarrow> abs_path \<Rightarrow> IoKind + Metadata" where
  "mem_md s p =
    (if mem_has s p then
       Inr \<lparr> md_is_dir = (p \<in> set (mem_dirs s)), md_is_symlink = False,
             md_len = (case hm_get (mem_files s) p of Some b \<Rightarrow> of_nat (length b) | None \<Rightarrow> 0),
             md_modified = None, md_created = None, md_mode = 0x1A4 \<rparr>
     else Inl IkNotFound)"

definition mem_lmd :: "Mem \<Rightarrow> abs_path \<Rightarrow> IoKind + Metadata" where
  "mem_lmd s p =
    (if hm_has (mem_links s) p then
       Inr \<lparr> md_is_dir = False, md_is_symlink = True, md_len = 0, md_modified = None, md_created = None, md_mode = 0x1FF \<rparr>
     else mem_md s p)"

definition mem_open :: "Mem \<Rightarrow> abs_path \<Rightarrow> OpenOpts \<Rightarrow> (IoKind + abs_path) \<times> Mem" where
  "mem_open s p opts =
    (let q = mem_follow s p in
     if oo_create_new opts \<and> (mem_has s p \<or> hm_has (mem_links s) p) then (Inl IkAlreadyExists, s)
     else if mem_has s q then
       (Inr q, if oo_truncate opts then s\<lparr>mem_files := hm_put q [] (mem_files s)\<rparr> else s)
     else if oo_create opts \<or> oo_create_new opts then (Inr q, s\<lparr>mem_files := hm_put q [] (mem_files s)\<rparr>)
     else (Inl IkNotFound, s))"

definition mem_content :: "Mem \<Rightarrow> abs_path \<Rightarrow> bytes" where
  "mem_content s f = (case hm_get (mem_files s) f of Some b \<Rightarrow> b | None \<Rightarrow> [])"

definition mem_os :: "(Mem, abs_path) os" where
  "mem_os =
    \<lparr> os_canonicalize = (\<lambda>s p. if mem_has s (mem_follow s p) then Inr (mem_follow s p) else Inl IkNotFound),
      os_metadata = (\<lambda>s p. mem_md s (mem_follow s p)),
      os_symlink_metadata = mem_lmd,
      os_exists = (\<lambda>s p. mem_has s (mem_follow s p)),
      os_read_dir = (\<lambda>s p. Inr (map (\<lambda>q. Inr \<lparr> rd_name = last q, rd_metadata = mem_lmd s q, rd_lstat = mem_lmd s q \<rparr>)
          (filter (\<lambda>q. q \<noteq> [] \<and> butlast q = p) (map fst (mem_files s) @ mem_dirs s @ map fst (mem_links s))))),
      os_open = mem_open,
      os_file_metadata = mem_md,
      os_set_permissions = (\<lambda>s f m. s),
      os_set_len = (\<lambda>s f n. (Inr (), s\<lparr>mem_files := hm_put f (take (unat n) (mem_content s f)) (mem_files s)\<rparr>)),
      os_set_modified = (\<lambda>s f t. (Inr (), s)),
      os_pread = (\<lambda>f s n off. (Inr (take n (drop (unat off) (mem_content s f))), s)),
      os_pwrite = (\<lambda>f s d off. (Inr (length d), s\<lparr>mem_files := hm_put f (put_at (unat off) d (mem_content s f)) (mem_files s)\<rparr>)),
      os_create_dir = (\<lambda>s p. if mem_has s p then (Inl IkAlreadyExists, s) else (Inr (), s\<lparr>mem_dirs := p # mem_dirs s\<rparr>)),
      os_remove_file = (\<lambda>s p. if hm_has (mem_links s) p then (Inr (), s\<lparr>mem_links := hm_del p (mem_links s)\<rparr>)
                              else if hm_has (mem_files s) p then (Inr (), s\<lparr>mem_files := hm_del p (mem_files s)\<rparr>)
                              else (Inl IkNotFound, s)),
      os_remove_dir = (\<lambda>s p. if p \<in> set (mem_dirs s) then (Inr (), s\<lparr>mem_dirs := removeAll p (mem_dirs s)\<rparr>) else (Inl IkNotFound, s)),
      os_rename = (\<lambda>s p q. case hm_get (mem_files s) p of
                             Some b \<Rightarrow> (Inr (), s\<lparr>mem_files := hm_put q b (hm_del p (mem_files s))\<rparr>)
                           | None \<Rightarrow> (Inl IkNotFound, s)),
      os_hard_link = (\<lambda>s p q. (Inl IkOther, s)),
      os_symlink = (\<lambda>s t p. (Inr (), s\<lparr>mem_links := hm_put p (butlast p @ [t]) (mem_links s)\<rparr>)),
      os_read_link = (\<lambda>s p. case hm_get (mem_links s) p of Some q \<Rightarrow> Inr (last q) | None \<Rightarrow> Inl IkInvalidInput),
      os_statvfs = (\<lambda>s p. None) \<rparr>"

definition demo_export :: "string \<Rightarrow> bool \<Rightarrow> Export" where
  "demo_export name ro =
    \<lparr> ex_name = name, ex_root = [''srv''], ex_read_only = ro, ex_versions = [], ex_vclock = 0,
      ex_events = hub_with_capacity 4, ex_locks = [], ex_exclude = no_excludes,
      ex_mount_defaults = \<lparr> mdf_exclude = [], mdf_pin = [], mdf_auto_cache_max = None, mdf_auto_cache_budget = None \<rparr> \<rparr>"

definition demo_fs :: Mem where
  "demo_fs = \<lparr> mem_files = [([''srv'', ''a''], [1, 2, 3]), ([''etc'', ''pw''], [9])], mem_dirs = [[''srv'']],
    mem_links = [([''srv'', ''l''], [''srv'', ''a'']), ([''srv'', ''out''], [''etc'', ''pw''])] \<rparr>"

definition rw :: OpenFlags where
  "rw = \<lparr> of_read = True, of_write = True, of_truncate = False, of_append = False, of_excl = False \<rparr>"

definition demo :: "bool \<Rightarrow> (Mem, abs_path) AgentSys" where
  "demo ro = agent_start demo_fs [(''x'', demo_export ''x'' ro)]"

section \<open>Read-only exports\<close>

text \<open>What the operating system promises of calls that only look: \<open>tree\<close> reads off the part of its state
  a user can observe.\<close>

definition look_pure :: "('s, 'f) os \<Rightarrow> ('s \<Rightarrow> 't) \<Rightarrow> bool" where
  "look_pure os tree =
    ((\<forall>f s n off. tree (snd (os_pread os f s n off)) = tree s)
     \<and> (\<forall>s p. tree (snd (os_open os s p look_opts)) = tree s))"

definition all_read_only :: "(string, Export) hmap \<Rightarrow> bool" where
  "all_read_only m = (\<forall>n ex. hm_get m n = Some ex \<longrightarrow> ex_read_only ex)"

definition ro_rel :: "('s \<Rightarrow> 't) \<Rightarrow> ('s, 'f) Ctx \<Rightarrow> ('s, 'f) Ctx \<Rightarrow> bool" where
  "ro_rel tree a b = (all_read_only (cx_exports a) \<longrightarrow> all_read_only (cx_exports b) \<and> tree (cx_fs b) = tree (cx_fs a))"

lemma all_read_only_attached: "all_read_only (cx_exports c) \<Longrightarrow> attached_export c = Some ex \<Longrightarrow> ex_read_only ex"
  by (auto simp: all_read_only_def attached_Some)

lemma all_read_only_put: "all_read_only m \<Longrightarrow> ex_read_only ex \<Longrightarrow> all_read_only (hm_put n ex m)"
  by (auto simp: all_read_only_def hmap_simps split: if_splits)

lemma ro_frame:
  assumes "look_pure os tree"
  shows "ctx_frame os (ro_rel tree)"
proof
  fix a b
  assume "move os a b"
  then show "ro_rel tree a b"
    using assms
    by cases (auto simp: ro_rel_def writable_now_def look_pure_def set_export_def all_read_only_attached
        dest: all_read_only_attached intro!: all_read_only_put)
qed (auto simp: ro_rel_def)

lemma batch_versions_read_only [simp]: "ex_read_only (batch_versions b ex) = ex_read_only ex"
  by (induction b ex rule: batch_versions.induct) simp_all

lemma publish_batch_read_only [simp]: "ex_read_only (publish_batch now b ex) = ex_read_only ex"
  by (simp add: publish_batch_def Let_def)

lemma ctx_of_simps [simp]:
  "cx_fs (ctx_of sy me) = sy_fs sy" "cx_exports (ctx_of sy me) = sy_exports sy" "cx_me (ctx_of sy me) = me"
  by (simp_all add: ctx_of_def)

lemma put_ctx_simps [simp]:
  "sy_fs (put_ctx sid c sy) = cx_fs c" "sy_exports (put_ctx sid c sy) = cx_exports c"
  "sy_sessions (put_ctx sid c sy) = hm_put sid (cx_me c) (sy_sessions sy)"
  by (simp_all add: put_ctx_def)

lemma park_simps [simp]:
  "sy_fs (park sid p fh k out sy) = sy_fs sy" "sy_exports (park sid p fh k out sy) = sy_exports sy"
  "sy_sessions (park sid p fh k out sy) = sy_sessions sy"
  by (simp_all add: park_def split: Outcome.splits)

lemma serve_act:
  assumes "agent_act os lib (AaServe sid now req) sy = Some (out, sy')"
  obtains me o' c where "hm_get (sy_sessions sy) sid = Some me" "handle os lib now req (ctx_of sy me) = Some (o', c)"
    "out = Some o'" "sy_exports sy' = cx_exports c" "sy_fs sy' = cx_fs c"
    "sy_sessions sy' = hm_put sid (cx_me c) (sy_sessions sy)"
proof -
  obtain me o' c where *: "hm_get (sy_sessions sy) sid = Some me" "handle os lib now req (ctx_of sy me) = Some (o', c)"
    "out = Some o'"
    and sy': "sy' = (case req of ReqLock fh kind wait \<Rightarrow> park sid (lock_path me fh) fh kind o' | _ \<Rightarrow> id) (put_ctx sid c sy)"
    using assms by (auto simp only: agent_act.simps bind_eq_Some_conv map_option_eq_Some prod.case)
  have "sy_exports sy' = cx_exports c" "sy_fs sy' = cx_fs c" "sy_sessions sy' = hm_put sid (cx_me c) (sy_sessions sy)"
    unfolding sy' by (cases req; simp)+
  then show thesis using * that by blast
qed

lemma read_only_act:
  assumes "look_pure os tree" "all_read_only (sy_exports sy)" "agent_act os lib a sy = Some (out, sy')"
  shows "all_read_only (sy_exports sy') \<and> tree (sy_fs sy') = tree (sy_fs sy)"
proof -
  note frame = ro_frame [OF assms(1)]
  have ctx: "all_read_only (cx_exports c) \<and> tree (cx_fs c) = tree (sy_fs sy)"
    if "ro_rel tree (ctx_of sy me) c" for me and c :: "('a, 'b) Ctx"
    using that assms(2) by (simp add: ro_rel_def)
  show ?thesis
  proof (cases a)
    case (AaServe sid now req)
    obtain me o' c where h: "handle os lib now req (ctx_of sy me) = Some (o', c)"
      and sy': "sy_exports sy' = cx_exports c" "sy_fs sy' = cx_fs c"
      using assms(3) unfolding AaServe by (rule serve_act)
    show ?thesis unfolding sy' by (rule ctx) (rule ctx_frame.frame_handle [OF frame h])
  next
    case (AaRetry t)
    then obtain me p fh k where "sy_exports sy' = cx_exports (snd (lock_turn p fh k True (ctx_of sy me)))"
      "sy_fs sy' = cx_fs (snd (lock_turn p fh k True (ctx_of sy me)))"
      using assms(3) by (auto simp: bind_eq_Some_conv Let_def case_prod_beta split: if_splits)
    then show ?thesis using ctx [OF ctx_frame.frame_lock_turn [OF frame]] by metis
  next
    case (AaDisconnect sid)
    then show ?thesis using assms(3) ctx [OF ctx_frame.frame_disconnected [OF frame]] by auto
  next
    case (AaReap sid lease now)
    then show ?thesis using assms(3) ctx [OF ctx_frame.frame_reap [OF frame]] by auto
  next
    case (AaPublish name now batch)
    then show ?thesis using assms(2,3) by (auto simp: all_read_only_def hmap_simps split: if_splits)
  qed (use assms in auto)
qed

text \<open>C2: when every export is read-only, no interleaving of requests, lock retries, disconnects, lease
  expiries and watcher batches of any number of sessions changes what is on disk.\<close>

theorem read_only_agent:
  assumes "look_pure os tree" "all_read_only (sy_exports sy)" "agent_run os lib acts sy = Some (outs, sy')"
  shows "tree (sy_fs sy') = tree (sy_fs sy) \<and> all_read_only (sy_exports sy')"
  using assms(2,3)
proof (induction acts arbitrary: sy outs)
  case (Cons a acts)
  obtain out sy1 outs' where "agent_act os lib a sy = Some (out, sy1)" "agent_run os lib acts sy1 = Some (outs', sy')"
    using Cons(3) by (auto simp: bind_eq_Some_conv)
  then show ?case using Cons(1) [of sy1 outs'] read_only_act [OF assms(1) Cons(2), of lib a out sy1] by simp
qed simp

lemma mem_look_pure: "look_pure mem_os id"
  by (auto simp: look_pure_def mem_os_def mem_open_def look_opts_def Let_def)

theorem read_only_agent_witness:
  "let acts = [AaConnect 0 None, AaServe 1 1 (ReqAttach ''x''), AaServe 1 2 (ReqOpen ''a'' rw),
      AaServe 1 3 (ReqUnlink ''a''), AaServe 1 4 (ReqGetattr ''a'')];
       r = agent_run mem_os no_globs acts (demo True)
   in map_option (\<lambda>(outs, sy). (drop 2 (map (map_option (\<lambda>o'. case o' of Done (Inl e) \<Rightarrow> Some e | _ \<Rightarrow> None)) outs), sy_fs sy)) r
        = Some ([Some (Some ReadOnly), Some (Some ReadOnly), Some None], demo_fs)"
proof -
  let ?acts = "[AaConnect 0 None, AaServe 1 1 (ReqAttach ''x''), AaServe 1 2 (ReqOpen ''a'' rw),
      AaServe 1 3 (ReqUnlink ''a''), AaServe 1 4 (ReqGetattr ''a'')]"
  have outs: "map_option (\<lambda>(outs, sy). drop 2 (map (map_option (\<lambda>o'. case o' of Done (Inl e) \<Rightarrow> Some e | _ \<Rightarrow> None)) outs))
      (agent_run mem_os no_globs ?acts (demo True)) = Some [Some (Some ReadOnly), Some (Some ReadOnly), Some None]"
    by code_simp
  have ro: "all_read_only (sy_exports (demo True))"
    by (auto simp: demo_def agent_start_def demo_export_def all_read_only_def)
  obtain os' sy' where run: "agent_run mem_os no_globs ?acts (demo True) = Some (os', sy')" using outs by fastforce
  have "sy_fs sy' = sy_fs (demo True)" using read_only_agent [OF mem_look_pure ro run] by simp
  then show ?thesis using outs unfolding run Let_def by (simp add: demo_def agent_start_def)
qed

end
