(* ===== verification/Agent_Props.thy ===== *)
theory Agent_Props
  imports Agent_System
begin

text \<open>
  Session-level properties of the agent: authentication, confinement of file-system calls to the
  export, conditional writes, handles, paging, and what the end of a session releases.
\<close>

section \<open>Authentication\<close>

fun serve_all :: "('s, 'f) os \<Rightarrow> glob_lib \<Rightarrow> (nat \<times> Request) list \<Rightarrow> ('s, 'f) Ctx \<Rightarrow> (Outcome list \<times> ('s, 'f) Ctx) option" where
  "serve_all os lib [] c = Some ([], c)"
| "serve_all os lib ((now, req) # reqs) c =
    Option.bind (handle os lib now req c) (\<lambda>(out, c').
      map_option (\<lambda>(outs, c''). (out # outs, c'')) (serve_all os lib reqs c'))"

lemma handle_unauthenticated:
  assumes "se_required_token (cx_me c) = Some t" "\<not> se_authed (cx_me c)" "req \<noteq> ReqAuth t"
  shows "\<exists>e\<in>{AuthRequired, PermissionDenied}. handle os lib now req c = Some (Done (Inl e), touch now c)"
  using assms by (cases req) (auto simp: handle_def auth_def touch_def token_eq_iff Let_def)

text \<open>C10: until the right token is presented, a token-protected session gets only refusals, whatever it
  sends, and nothing but its activity clock changes; the right token then opens it.\<close>

theorem auth_gate:
  assumes "se_required_token (cx_me c) = Some t" "\<not> se_authed (cx_me c)"
    and "\<forall>(now, req)\<in>set reqs. req \<noteq> ReqAuth t"
  shows "\<exists>outs seen c'. c' = c\<lparr>cx_me := (cx_me c)\<lparr>se_last_seen := seen\<rparr>\<rparr>
    \<and> serve_all os lib reqs c = Some (outs, c') \<and> length outs = length reqs
    \<and> set outs \<subseteq> {Done (Inl AuthRequired), Done (Inl PermissionDenied)}
    \<and> (\<exists>c''. handle os lib now (ReqAuth t) c' = Some (Done (Inr RspOk), c'') \<and> se_authed (cx_me c''))"
  using assms
proof (induction reqs arbitrary: c)
  case Nil
  let ?c' = "(touch now c)\<lparr>cx_me := (cx_me (touch now c))\<lparr>se_authed := True\<rparr>\<rparr>"
  show ?case
  proof (intro exI conjI)
    show "c = c\<lparr>cx_me := (cx_me c)\<lparr>se_last_seen := se_last_seen (cx_me c)\<rparr>\<rparr>" by simp
    show "serve_all os lib [] c = Some ([], c)" by simp
    show "handle os lib now (ReqAuth t) c = Some (Done (Inr RspOk), ?c')"
      using Nil by (simp add: handle_def auth_def touch_def token_eq_iff Let_def)
    show "se_authed (cx_me ?c')" by simp
  qed simp_all
next
  case (Cons r reqs)
  obtain now' req where r: "r = (now', req)" by fastforce
  have req: "req \<noteq> ReqAuth t" using Cons.prems(3) r by simp
  obtain e where e: "e \<in> {AuthRequired, PermissionDenied}" "handle os lib now' req c = Some (Done (Inl e), touch now' c)"
    using handle_unauthenticated [OF Cons.prems(1,2) req] by metis
  have touched: "se_required_token (cx_me (touch now' c)) = Some t" "\<not> se_authed (cx_me (touch now' c))"
    "\<forall>(now, req)\<in>set reqs. req \<noteq> ReqAuth t"
    using Cons.prems by (simp_all add: touch_def)
  obtain outs seen c' c2 where rest: "c' = (touch now' c)\<lparr>cx_me := (cx_me (touch now' c))\<lparr>se_last_seen := seen\<rparr>\<rparr>"
    "serve_all os lib reqs (touch now' c) = Some (outs, c')" "length outs = length reqs"
    "set outs \<subseteq> {Done (Inl AuthRequired), Done (Inl PermissionDenied)}"
    "handle os lib now (ReqAuth t) c' = Some (Done (Inr RspOk), c2)" "se_authed (cx_me c2)"
    using Cons.IH [OF touched] by (elim exE conjE) (rule that)
  show ?case
  proof (intro exI conjI)
    show "c' = c\<lparr>cx_me := (cx_me c)\<lparr>se_last_seen := seen\<rparr>\<rparr>" unfolding rest(1) by (simp add: touch_def)
    show "serve_all os lib (r # reqs) c = Some (Done (Inl e) # outs, c')" using e(2) r rest(2) by simp
    show "set (Done (Inl e) # outs) \<subseteq> {Done (Inl AuthRequired), Done (Inl PermissionDenied)}"
      using rest(4) e(1) by auto
    show "length (Done (Inl e) # outs) = length (r # reqs)" using rest(3) by simp
    show "handle os lib now (ReqAuth t) c' = Some (Done (Inr RspOk), c2)" "se_authed (cx_me c2)" by (fact rest)+
  qed
qed

definition locked_ctx :: "(Mem, abs_path) Ctx" where
  "locked_ctx = ctx_of (demo False) (session_with_token 0 1 (Some ''secret''))"

theorem auth_gate_witness:
  "map_option fst (serve_all mem_os no_globs [(1, ReqAttach ''x''), (2, ReqAuth ''guess''), (3, ReqStatfs)] locked_ctx)
    = Some [Done (Inl AuthRequired), Done (Inl PermissionDenied), Done (Inl AuthRequired)]
   \<and> (\<exists>seen. map_option snd (serve_all mem_os no_globs [(1, ReqAttach ''x''), (2, ReqAuth ''guess''), (3, ReqStatfs)] locked_ctx)
        = Some (locked_ctx\<lparr>cx_me := (cx_me locked_ctx)\<lparr>se_last_seen := seen\<rparr>\<rparr>))"
proof
  let ?rs = "[(1, ReqAttach ''x''), (2, ReqAuth ''guess''), (3, ReqStatfs)]"
  show "map_option fst (serve_all mem_os no_globs ?rs locked_ctx)
    = Some [Done (Inl AuthRequired), Done (Inl PermissionDenied), Done (Inl AuthRequired)]"
    by code_simp
  show "\<exists>seen. map_option snd (serve_all mem_os no_globs ?rs locked_ctx)
      = Some (locked_ctx\<lparr>cx_me := (cx_me locked_ctx)\<lparr>se_last_seen := seen\<rparr>\<rparr>)"
    using auth_gate [of locked_ctx "''secret''" ?rs mem_os no_globs 0]
    by (fastforce simp: locked_ctx_def session_with_token_def)
qed

section \<open>Confinement\<close>

text \<open>A file-system call a session attached to \<open>root\<close> may make: a read on an open file, or a call whose
  every path lies under the root.\<close>

definition names :: "('s, 'f) os \<Rightarrow> abs_path option \<Rightarrow> 's \<Rightarrow> 's \<Rightarrow> bool" where
  "names os root s s' =
    ((\<exists>f n off. s' = snd (os_pread os f s n off))
     \<or> (\<exists>r. root = Some r \<and> (sys_step os r s s' \<or> (\<exists>p. under r p \<and> s' = snd (os_open os s p look_opts)))))"

definition root_of :: "('s, 'f) Ctx \<Rightarrow> abs_path option" where
  "root_of c = map_option ex_root (attached_export c)"

definition stays :: "('s, 'f) os \<Rightarrow> ('s, 'f) Ctx \<Rightarrow> ('s, 'f) Ctx \<Rightarrow> bool" where
  "stays os a b = ((root_of a = None \<or> root_of b = root_of a) \<and> (names os (root_of b))\<^sup>*\<^sup>* (cx_fs a) (cx_fs b))"

lemma names_mono: "root = None \<or> root = root' \<Longrightarrow> (names os root)\<^sup>*\<^sup>* s t \<Longrightarrow> (names os root')\<^sup>*\<^sup>* s t"
  by (erule rtranclp_mono [THEN predicate2D, rotated]) (auto simp: names_def)

lemma root_of_set_export: "attached_export a = Some ex \<Longrightarrow> root_of (set_export ex' a) = Some (ex_root ex')"
  by (simp add: root_of_def)

lemma set_export_fs [simp]: "cx_fs (set_export ex c) = cx_fs c"
  by (simp add: set_export_def)

lemma stays_same_fs: "cx_fs b = cx_fs a \<Longrightarrow> root_of a = None \<or> root_of b = root_of a \<Longrightarrow> stays os a b"
  by (simp add: stays_def)

lemma stays_fs: "names os (root_of a) (cx_fs a) s \<Longrightarrow> stays os a (a\<lparr>cx_fs := s\<rparr>)"
  by (auto simp: stays_def root_of_def)

lemma stays_move: "move os a b \<Longrightarrow> stays os a b"
proof (induction rule: move.induct)
  case (mv_pread c f n off)
  then show ?case by (intro stays_fs) (auto simp: names_def)
next
  case (mv_look c ex p)
  then show ?case by (intro stays_fs) (auto simp: names_def root_of_def)
next
  case (mv_sys c ex s)
  then show ?case by (intro stays_fs) (auto simp: names_def root_of_def writable_now_def)
next
  case (mv_attach c name)
  then show ?case by (intro stays_same_fs) (auto simp: root_of_def attached_export_def)
qed (rule stays_same_fs; simp add: root_of_def writable_now_def with_handle_def; fail)+

interpretation inside: ctx_frame os "stays os" for os
proof
  show "stays os a b \<Longrightarrow> stays os b c \<Longrightarrow> stays os a c" for a b c
    using names_mono [of "root_of b" "root_of c" os "cx_fs a" "cx_fs b"] by (auto simp: stays_def)
qed (simp_all add: stays_move, simp add: stays_def)


definition open_ctx :: "(Mem, abs_path) Ctx" where
  "open_ctx = ctx_of (demo False) ((session_with_token 0 1 None)\<lparr>se_attached := Some ''x''\<rparr>)"




section \<open>Conditional writes\<close>

lemma exA_run:
  "attached_export c = Some ex \<Longrightarrow> bindA (exA f) k c = k (fst (f ex)) (set_export (snd (f ex)) c)"
  by (simp add: bindA_def exA_def export_of_def readA_def split: prod.splits)

lemma bind_sys:
  "bindA (sysA f) k c = (case or_code (fst (f (cx_fs c))) of
     Inl e \<Rightarrow> (Inl e, c\<lparr>cx_fs := snd (f (cx_fs c))\<rparr>) | Inr x \<Rightarrow> k x (c\<lparr>cx_fs := snd (f (cx_fs c))\<rparr>))"
  by (simp add: bindA_def sysA_def split: prod.splits sum.splits)

lemma set_export_me [simp]: "cx_me (set_export ex c) = cx_me c"
  by (simp add: set_export_def)

lemma set_export_set [simp]: "set_export e2 (set_export e1 c) = set_export e2 c"
  by (simp add: set_export_def update_last)

definition noted :: "nat \<Rightarrow> RelPath \<Rightarrow> u64 \<Rightarrow> Export \<Rightarrow> Export" where
  "noted now path sid ex = ex\<lparr>ex_events := note_local_write now path sid (ex_events ex)\<rparr>"

lemma write_written:
  assumes "write_file os now fh off data v c = Some (Inr (RspWritten n nv f), c')"
    and "attached_export c = Some ex" "hm_get (se_handles (cx_me c)) fh = Some h"
  obtains s where "writable_now c ex" "op_writable h" "\<And>w. v = Some w \<Longrightarrow> w = version_of ex (op_path h)"
    "nv = ex_vclock ex + 1"
    "c' = set_export (snd (bump (op_path h) (noted now (op_path h) (se_id (cx_me c)) ex))) (c\<lparr>cx_fs := s\<rparr>)"
proof -
  obtain ex1 h1 where g: "write_guard fh v c = (Inr (ex1, h1), c)"
    using assms(1) write_guard_Inr [of fh v c] by (auto simp: write_file_def split: prod.splits sum.splits)
  then have w: "writable_now c ex" "op_writable h" "\<And>w. v = Some w \<Longrightarrow> w = version_of ex (op_path h)"
    and same: "ex1 = ex" "h1 = h"
    using write_guard_Inr [OF g] assms(2,3) by (auto simp: writable_now_def)
  obtain r s where ws: "write_fully (os_pwrite os (op_file h)) (cx_fs c) data off = Some (r, s)"
    and tail: "bindA (readA (\<lambda>_. or_code r)) (\<lambda>_. bindA (noteA now (op_path h)) (\<lambda>_.
      bindA (bumpA (op_path h)) (\<lambda>nv. retA (RspWritten (of_nat (length data)) nv False)))) (c\<lparr>cx_fs := s\<rparr>)
      = (Inr (RspWritten n nv f), c')"
    using assms(1) g same by (auto simp: write_file_def)
  have noteA_run: "bindA (noteA now (op_path h)) k d = k () (set_export (noted now (op_path h) (se_id (cx_me d)) ex) d)"
    if "attached_export d = Some ex" for k :: "unit \<Rightarrow> ('a, 'b, Response) agent_op" and d :: "('a, 'b) Ctx"
    using that by (simp add: noteA_def bindA_def exA_def export_of_def readA_def noted_def)
  have "nv = ex_vclock ex + 1"
    "c' = set_export (snd (bump (op_path h) (noted now (op_path h) (se_id (cx_me c)) ex))) (c\<lparr>cx_fs := s\<rparr>)"
    using tail assms(2)
    by (cases "or_code r"; simp add: bind_read noteA_run bumpA_def exA_run retA_def;
        simp add: bump_def noted_def Let_def)+
  then show thesis using that w by blast
qed

lemma version_after_bump: "version_of (snd (bump p ex)) p = ex_vclock ex + 1"
  by (simp add: version_of_def bump_def Let_def hmap_simps)

lemma write_refused:
  assumes "writable_now c ex" "hm_get (se_handles (cx_me c)) fh = Some h" "op_writable h" "v \<noteq> version_of ex (op_path h)"
  shows "write_file os now fh off data (Some v) c = Some (Inl Conflict, c)"
  using assms by (simp add: write_file_def write_guard_def op_simps)


definition writer :: "u64 \<Rightarrow> abs_path Session" where
  "writer sid = (session_with_token 0 sid None)\<lparr>se_attached := Some ''x'', se_next_fh := 2,
     se_handles := [(1, \<lparr> op_file = [''srv'', ''a''], op_path = ''a'', op_writable = True \<rparr>)]\<rparr>"

definition write_ctx :: "(Mem, abs_path) Ctx" where
  "write_ctx = ctx_of (demo False) (writer 1)"

lemma write_ctx_run:
  "map_option (\<lambda>(r, c). (r, mem_files (cx_fs c))) (write_file mem_os 5 1 3 [7] (Some 0) write_ctx)
    = Some (Inr (RspWritten 1 1 False), [([''srv'', ''a''], [1, 2, 3, 7]), ([''etc'', ''pw''], [9])])"
  by code_simp


text \<open>C23: the watcher's echo of a session's own write bumps the version again, so the session's next write,
  which expects the version its last write was given, is refused although nobody else touched the file.\<close>

theorem own_echo_conflicts:
  assumes "write_file os now fh off data v c = Some (Inr (RspWritten n nv f), c')"
    and "attached_export c = Some ex" "hm_get (se_handles (cx_me c)) fh = Some h"
    and "attached_export c' = Some ex'" "c2 = set_export (publish_batch t [(op_path h, Modified)] ex') c'"
  shows "write_file os now2 fh off2 data2 (Some nv) c2 = Some (Inl Conflict, c2)"
proof -
  obtain s where w: "writable_now c ex" "op_writable h" "nv = ex_vclock ex + 1"
    and c': "c' = set_export (snd (bump (op_path h) (noted now (op_path h) (se_id (cx_me c)) ex))) (c\<lparr>cx_fs := s\<rparr>)"
    using write_written [OF assms(1-3)] by metis
  have ex': "ex' = snd (bump (op_path h) (noted now (op_path h) (se_id (cx_me c)) ex))"
    using assms(2,4) by (simp add: c')
  have clock: "ex_vclock ex' = nv" by (simp add: ex' bump_def noted_def Let_def w(3))
  have "version_of (publish_batch t [(op_path h, Modified)] ex') (op_path h) = nv + 1"
    by (simp add: publish_batch_def Let_def version_of_def bump_def hmap_simps clock)
  then have "nv \<noteq> version_of (publish_batch t [(op_path h, Modified)] ex') (op_path h)" by simp
  moreover have "attached_export c2 = Some (publish_batch t [(op_path h, Modified)] ex')"
    using assms(4) by (simp add: assms(5))
  moreover have "\<not> ex_read_only ex'" using w(1) by (simp add: ex' noted_def writable_now_def)
  moreover have "hm_get (se_handles (cx_me c2)) fh = Some h" using assms(3) by (simp add: assms(5) c')
  ultimately show ?thesis using w(2)
    by (intro write_refused [of c2 "publish_batch t [(op_path h, Modified)] ex'"]) (simp_all add: writable_now_def)
qed

theorem own_echo_conflicts_witness:
  "\<exists>c' ex'. write_file mem_os 5 1 3 [7] (Some 0) write_ctx = Some (Inr (RspWritten 1 1 False), c')
     \<and> attached_export c' = Some ex'
     \<and> (let c2 = set_export (publish_batch 6 [(''a'', Modified)] ex') c'
        in write_file mem_os 7 1 4 [8] (Some 1) c2 = Some (Inl Conflict, c2))"
proof -
  let ?h = "\<lparr> op_file = [''srv'', ''a''], op_path = ''a'', op_writable = True \<rparr>"
  obtain c' where c': "write_file mem_os 5 1 3 [7] (Some 0) write_ctx = Some (Inr (RspWritten 1 1 False), c')"
    using write_ctx_run by auto
  have at: "attached_export write_ctx = Some (demo_export ''x'' False)" "hm_get (se_handles (cx_me write_ctx)) 1 = Some ?h"
    by (simp_all add: write_ctx_def writer_def demo_def agent_start_def attached_export_def session_with_token_def)
  obtain ex' where ex': "attached_export c' = Some ex'"
    using write_written [OF c' at] at(1) by (metis attached_fs(1) attached_set_export)
  then show ?thesis using own_echo_conflicts [OF c' at ex' refl, of 7 4 "[8]" 6] c' by (auto simp: Let_def)
qed

section \<open>Handles\<close>

definition same_me :: "('s, 'f, 'a) agent_op \<Rightarrow> bool" where
  "same_me m = (\<forall>c. cx_me (snd (m c)) = cx_me c)"

definition opens :: "RelPath \<Rightarrow> ('s, 'f, Response) agent_op \<Rightarrow> bool" where
  "opens p m = (\<forall>c fh a c'. m c = (Inr (RspOpened fh a), c') \<longrightarrow>
     (\<exists>h. op_path h = p \<and> fh = se_next_fh (cx_me c) \<and> cx_me c' = with_handle fh h (cx_me c)))"

lemma same_me_ops:
  "same_me (retA x)" "same_me (readA f)" "same_me (sysA g)" "same_me (exA e)" "same_me (noteA now p)"
  "same_me (bumpA p)" "same_me (set_mode os file mode)" "same_me (openA os q opts)" "same_me export_of"
  "same_me (resolveA os lib ex p)" "same_me (resolve_newA os lib ex p)" "same_me (file_metadataA os file)"
  by (simp_all add: same_me_def retA_def readA_def sysA_def exA_def noteA_def bumpA_def set_mode_def openA_def
      export_of_def resolveA_def resolve_newA_def file_metadataA_def bindA_def split: prod.splits sum.splits)

lemma opens_bind: "same_me m \<Longrightarrow> (\<And>x. opens p (k x)) \<Longrightarrow> opens p (bindA m k)"
proof -
  assume m: "same_me m" and k: "\<And>x. opens p (k x)"
  show "opens p (bindA m k)"
    unfolding opens_def
  proof (intro allI impI)
    fix c fh a c'
    assume run: "bindA m k c = (Inr (RspOpened fh a), c')"
    then obtain x c1 where mc: "m c = (Inr x, c1)" "k x c1 = (Inr (RspOpened fh a), c')"
      by (auto simp: bindA_def split: prod.splits sum.splits)
    have "cx_me c1 = cx_me c" using m mc(1) unfolding same_me_def by (metis snd_conv)
    then show "\<exists>h. op_path h = p \<and> fh = se_next_fh (cx_me c) \<and> cx_me c' = with_handle fh h (cx_me c)"
      using k [of x] mc(2) unfolding opens_def by metis
  qed
qed

lemma opens_fail: "opens p (failA e)"
  by (simp add: opens_def failA_def)

lemma opens_insert: "opens p (bindA (insert_handle file p w) (\<lambda>fh. retA (RspOpened fh (g fh))))"
  by (auto simp: opens_def insert_handle_def bind_me retA_def with_handle_def
      intro!: exI [of _ "\<lparr> op_file = file, op_path = p, op_writable = w \<rparr>"])

lemma same_me_writable: "same_me writable_export"
  by (auto simp: same_me_def writable_export_def export_of_def bindA_def readA_def failA_def retA_def split: sum.splits)

lemma opens_open: "opens p (open_file os lib p fl)"
  unfolding open_file_def Let_def
  by (auto intro!: opens_bind opens_fail opens_insert simp: same_me_ops split: if_splits)

lemma opens_create: "opens p (create os lib now p fl mode)"
  unfolding create_def by (auto intro!: opens_bind opens_insert simp: same_me_ops same_me_writable)

definition handles_ok :: "'f Session \<Rightarrow> bool" where
  "handles_ok me = (\<forall>fh h. hm_get (se_handles me) fh = Some h \<longrightarrow> fh < se_next_fh me)"

lemma map_prod_Done: "map_prod Done id y = (Done r, c) \<longleftrightarrow> y = (r, c)"
  by (cases y) simp

lemma handle_opened:
  assumes "handle os lib now req c = Some (Done (Inr (RspOpened fh a)), c')"
    and "req = ReqOpen p fl \<or> req = ReqCreate p fl mode"
  shows "\<exists>h. op_path h = p \<and> fh = se_next_fh (cx_me c) \<and> cx_me c' = with_handle fh h (cx_me (touch now c))"
proof -
  have "open_file os lib p fl (touch now c) = (Inr (RspOpened fh a), c')
      \<or> create os lib now p fl mode (touch now c) = (Inr (RspOpened fh a), c')"
    using assms by (auto simp: handle_def Let_def map_prod_Done split: if_splits)
  moreover have "se_next_fh (cx_me (touch now c)) = se_next_fh (cx_me c)" by (simp add: touch_def)
  ultimately show ?thesis
    using opens_open [of p os lib fl] opens_create [of p os lib now fl mode] unfolding opens_def by metis
qed

text \<open>C14: an open or a create that succeeds hands out a handle number no open file of the session has,
  bound to the path asked for; every other handle keeps its file, and the next number stays free.\<close>

theorem open_fresh_handle:
  assumes "handle os lib now req c = Some (Done (Inr (RspOpened fh a)), c')"
    and "req = ReqOpen p fl \<or> req = ReqCreate p fl mode"
    and "handles_ok (cx_me c)" "se_next_fh (cx_me c) + 1 \<noteq> 0"
  shows "hm_get (se_handles (cx_me c)) fh = None \<and> handles_ok (cx_me c')
    \<and> (\<exists>h. hm_get (se_handles (cx_me c')) fh = Some h \<and> op_path h = p)
    \<and> (\<forall>k. k \<noteq> fh \<longrightarrow> hm_get (se_handles (cx_me c')) k = hm_get (se_handles (cx_me c)) k)"
proof -
  obtain h where h: "op_path h = p" "fh = se_next_fh (cx_me c)" "cx_me c' = with_handle fh h (cx_me (touch now c))"
    using handle_opened [OF assms(1,2)] by blast
  have hs: "se_handles (cx_me c') = hm_put fh h (se_handles (cx_me c))" "se_next_fh (cx_me c') = fh + 1"
    by (simp_all add: h(3) with_handle_def touch_def)
  have fresh: "hm_get (se_handles (cx_me c)) fh = None"
    using assms(3) h(2) unfolding handles_ok_def by (metis less_irrefl option.exhaust)
  moreover have "handles_ok (cx_me c')"
    unfolding handles_ok_def hs
    using assms(3,4) less_Suc_clock h(2) by (auto simp: hmap_simps handles_ok_def split: if_splits)
  ultimately show ?thesis using h(1) by (auto simp: hs hmap_simps)
qed

theorem open_fresh_handle_witness:
  "\<exists>a c'. handle mem_os no_globs 3 (ReqOpen ''a'' rw) write_ctx = Some (Done (Inr (RspOpened 2 a)), c')
     \<and> hm_get (se_handles (cx_me write_ctx)) 2 = None
     \<and> hm_get (se_handles (cx_me c')) 1 = hm_get (se_handles (cx_me write_ctx)) 1"
proof -
  let ?a = "\<lparr> a_kind = File, a_size = 3, a_mtime = 0, a_ctime = 0, a_mode = 0x1A4, a_version = 0 \<rparr>"
  have "map_option fst (handle mem_os no_globs 3 (ReqOpen ''a'' rw) write_ctx) = Some (Done (Inr (RspOpened 2 ?a)))"
    by code_simp
  then obtain c' where run: "handle mem_os no_globs 3 (ReqOpen ''a'' rw) write_ctx = Some (Done (Inr (RspOpened 2 ?a)), c')"
    by auto
  have "handles_ok (cx_me write_ctx)" "se_next_fh (cx_me write_ctx) + 1 \<noteq> 0"
    by (simp_all add: handles_ok_def write_ctx_def writer_def)
  then show ?thesis using open_fresh_handle [OF run, of "''a''" rw 0] run by auto
qed

section \<open>Locks across sessions\<close>

lemma holds_lock_attempt:
  assumes "x \<noteq> (ses, fh)"
  shows "holds (snd (lock_attempt m p ses fh k w t)) q x = holds m q x"
proof -
  have others: "find (holder_of x) (others m p ses fh) = find (holder_of x) (le_holders (entry_of m p))"
    using assms by (simp add: others_def find_others)
  show ?thesis
    by (cases rule: lock_attempt_cases [of m p ses fh k w t])
      (use assms in \<open>auto simp: holds_entry entry_of_put others find_snoc holder_of_iff split: option.splits\<close>)
qed

lemma holds_unlock: "holds (snd (unlock m p ses fh)) q x = (if q = p \<and> x = (ses, fh) then None else holds m q x)"
  using holds_free_lock [of m p "(ses, fh)" q x] by (simp add: free_lock_def)

lemma holds_release_session:
  assumes "hm_ok m"
  shows "holds (snd (snd (release_session m ses))) p x = (if fst x = ses then None else holds m p x)"
proof -
  obtain ts n m' where rs: "release_session m ses = (ts, n, m')" by (metis prod_cases3)
  have get: "hm_get m' p = (case hm_get m p of None \<Rightarrow> None | Some e \<Rightarrow> left_over ses e)"
    using release_session_spec [OF rs assms] by simp
  show ?thesis
  proof (cases "hm_get m p")
    case None
    then show ?thesis using get rs by (simp add: holds_def)
  next
    case (Some e)
    define e' where "e' = snd (snd (release_entry ses e))"
    have hs: "le_holders e' = filter (\<lambda>h. h_session h \<noteq> ses) (le_holders e)"
      using release_entry_frees(1) [of ses e] unfolding e'_def by (metis prod.collapse)
    have "map_option h_kind (find (holder_of x) (le_holders e')) = (if fst x = ses then None else holds m p x)"
    proof (cases "fst x = ses")
      case True
      then show ?thesis unfolding hs by (subst find_filter_none) (auto simp: holder_of_iff)
    next
      case False
      then show ?thesis unfolding hs using Some by (subst find_filter_same) (auto simp: holder_of_iff holds_def)
    qed
    moreover have "holds m' p x = map_option h_kind (find (holder_of x) (le_holders e'))"
      using get Some by (simp add: holds_def left_over_def Let_def e'_def)
    ultimately show ?thesis using rs by simp
  qed
qed

lemma release_session_ok:
  assumes "manager_ok m"
  shows "manager_ok (snd (snd (release_session m ses)))"
proof -
  obtain ts n m' where rs: "release_session m ses = (ts, n, m')" by (metis prod_cases3)
  have spec: "hm_ok m'" "\<And>p. hm_get m' p = (case hm_get m p of None \<Rightarrow> None | Some e \<Rightarrow> left_over ses e)"
    using release_session_spec [OF rs] assms by (simp_all add: manager_ok_def)
  have "holders_ok (le_holders e')" if get: "hm_get m' p = Some e'" for p e'
  proof -
    obtain e where e: "hm_get m p = Some e" "left_over ses e = Some e'"
      using get spec(2) [of p] by (cases "hm_get m p") auto
    then have "e' = snd (snd (release_entry ses e))" by (auto simp: left_over_def Let_def split: if_splits)
    then have "le_holders e' = filter (\<lambda>h. h_session h \<noteq> ses) (le_holders e)"
      using release_entry_frees(1) [of ses e] by (metis prod.collapse)
    then show ?thesis using holders_ok_filter manager_ok_get [OF assms e(1)] by simp
  qed
  then show ?thesis using rs spec(1) by (simp add: manager_okI)
qed

text \<open>What a request of one session may do to the lock table of an export.\<close>

definition own_locks_only :: "u64 \<Rightarrow> LockManager \<Rightarrow> LockManager \<Rightarrow> bool" where
  "own_locks_only ses m m' = (manager_ok m \<longrightarrow> manager_ok m' \<and> (\<forall>p x. fst x \<noteq> ses \<longrightarrow> holds m' p x = holds m p x))"

definition isolated :: "('s, 'f) Ctx \<Rightarrow> ('s, 'f) Ctx \<Rightarrow> bool" where
  "isolated a b = (se_id (cx_me b) = se_id (cx_me a) \<and> (\<forall>n ex. hm_get (cx_exports a) n = Some ex \<longrightarrow>
     (\<exists>ex'. hm_get (cx_exports b) n = Some ex' \<and> own_locks_only (se_id (cx_me a)) (ex_locks ex) (ex_locks ex'))))"

lemma own_locks_refl [simp]: "own_locks_only ses m m"
  by (simp add: own_locks_only_def)

lemma own_locks_moves:
  "own_locks_only ses m (snd (lock_attempt m p ses fh k w t))" "own_locks_only ses m (snd (unlock m p ses fh))"
  "own_locks_only ses m (snd (snd (release_session m ses)))"
  by (auto simp: own_locks_only_def lock_attempt_ok holds_lock_attempt unlock_ok holds_unlock release_session_ok
      holds_release_session manager_ok_def [THEN iffD1, THEN conjunct1])

lemma isolated_set_export:
  assumes "attached_export a = Some ex" "own_locks_only (se_id (cx_me a)) (ex_locks ex) (ex_locks ex')"
  shows "isolated a (set_export ex' a)"
  using assms by (auto simp: isolated_def set_export_def hmap_simps attached_Some)

lemma isolated_same: "cx_exports b = cx_exports a \<Longrightarrow> se_id (cx_me b) = se_id (cx_me a) \<Longrightarrow> isolated a b"
  by (auto simp: isolated_def)

lemma isolated_trans: "isolated a b \<Longrightarrow> isolated b c \<Longrightarrow> isolated a c"
  unfolding isolated_def own_locks_only_def by metis

lemma isolated_move: "move os a b \<Longrightarrow> isolated a b"
  by (induction rule: move.induct)
    (auto simp: writable_now_def own_locks_moves with_handle_def intro: isolated_set_export isolated_same)

interpretation isolation: ctx_frame os isolated for os
  by unfold_locales (auto simp: isolated_move intro: isolated_trans isolated_same)

text \<open>C13: no request of one session touches a lock another session holds, on any export, and every lock
  table stays well-formed.\<close>

theorem locks_isolated:
  assumes "handle os lib now req c = Some (out, c')"
    and "hm_get (cx_exports c) n = Some ex" "manager_ok (ex_locks ex)"
  shows "\<exists>ex'. hm_get (cx_exports c') n = Some ex' \<and> manager_ok (ex_locks ex')
    \<and> (\<forall>p x. fst x \<noteq> se_id (cx_me c) \<longrightarrow> holds (ex_locks ex') p x = holds (ex_locks ex) p x)"
  using isolation.frame_handle [OF assms(1)] assms(2,3) unfolding isolated_def own_locks_only_def by blast

definition held_export :: Export where
  "held_export = (demo_export ''x'' False)\<lparr>ex_locks :=
     [(''a'', \<lparr> le_holders = [\<lparr> h_session = 2, h_fh = 1, h_kind = Exclusive \<rparr>], le_waiters = [] \<rparr>)]\<rparr>"

definition contend_ctx :: "(Mem, abs_path) Ctx" where
  "contend_ctx = write_ctx\<lparr>cx_exports := [(''x'', held_export)]\<rparr>"

theorem locks_isolated_witness:
  "\<exists>c'. handle mem_os no_globs 4 (ReqLock 1 Shared False) contend_ctx = Some (Done (Inl WouldBlock), c')
     \<and> (\<exists>ex'. hm_get (cx_exports c') ''x'' = Some ex' \<and> holds (ex_locks ex') ''a'' (2, 1) = Some Exclusive)"
proof -
  have "map_option fst (handle mem_os no_globs 4 (ReqLock 1 Shared False) contend_ctx) = Some (Done (Inl WouldBlock))"
    by code_simp
  then obtain c' where run: "handle mem_os no_globs 4 (ReqLock 1 Shared False) contend_ctx = Some (Done (Inl WouldBlock), c')"
    by auto
  have "hm_get (cx_exports contend_ctx) ''x'' = Some held_export" "manager_ok (ex_locks held_export)"
    "se_id (cx_me contend_ctx) = 1" "holds (ex_locks held_export) ''a'' (2, 1) = Some Exclusive"
    by (simp_all add: contend_ctx_def held_export_def manager_ok_def hm_ok_def holders_ok_def holds_def holder_of_def
        owned_def write_ctx_def writer_def session_with_token_def)
  then show ?thesis using locks_isolated [OF run, of "''x''" held_export] run by fastforce
qed



section \<open>Where the code falls short\<close>


text \<open>Unlinking a path whose last component is a symbolic link removes the file the link points to
  (the canonical path is what reaches the operating system), not the link.\<close>

theorem unlink_removes_target:
  assumes "writable_now c ex" "resolve os lib (cx_fs c) ex path = Inr full"
  shows "cx_fs (snd (unlink os lib now path c)) = snd (os_remove_file os (cx_fs c) full)"
proof -
  obtain r s where rs: "os_remove_file os (cx_fs c) full = (r, s)" by fastforce
  have eq: "unlink os lib now path c = bindA (sysA (\<lambda>s. os_remove_file os s full)) (\<lambda>_.
      bindA (noteA now path) (\<lambda>_. bindA (bumpA path) (\<lambda>_. retA RspOk))) c"
    using assms by (simp add: unlink_def op_simps)
  have fs: "cx_fs (snd (bindA (noteA now path) (\<lambda>_. bindA (bumpA path) (\<lambda>_. retA RspOk)) d)) = cx_fs d" for d :: "('a, 'b) Ctx"
    by (cases "attached_export d") (auto simp: noteA_def bindA_def exA_def bumpA_def export_of_def readA_def retA_def
        split: prod.splits sum.splits)
  show ?thesis unfolding eq by (cases r) (simp_all add: bind_sys rs or_code_def fs)
qed

theorem unlink_removes_target_witness:
  "cx_fs (snd (unlink mem_os no_globs 1 ''l'' open_ctx)) = demo_fs\<lparr>mem_files := [([''etc'', ''pw''], [9])]\<rparr>
   \<and> hm_has (mem_links demo_fs) [''srv'', ''l'']"
proof -
  have "writable_now open_ctx (demo_export ''x'' False)"
    by (simp add: open_ctx_def demo_def agent_start_def writable_now_def attached_export_def demo_export_def)
  moreover have "resolve mem_os no_globs (cx_fs open_ctx) (demo_export ''x'' False) ''l'' = Inr [''srv'', ''a'']"
    by code_simp
  ultimately have "cx_fs (snd (unlink mem_os no_globs 1 ''l'' open_ctx)) = snd (os_remove_file mem_os (cx_fs open_ctx) [''srv'', ''a''])"
    by (rule unlink_removes_target)
  also have "\<dots> = demo_fs\<lparr>mem_files := [([''etc'', ''pw''], [9])]\<rparr>" by code_simp
  finally show ?thesis by (simp add: demo_fs_def hm_has_def)
qed

text \<open>A create whose last component is a symbolic link out of the export reaches through it: opening
  the same path is refused, creating it with truncation empties the file outside.\<close>

theorem create_follows_link_out:
  "map_option fst (handle mem_os no_globs 1 (ReqOpen ''out'' rw) open_ctx) = Some (Done (Inl PermissionDenied))
   \<and> map_option (\<lambda>(out, c). (mem_content demo_fs [''etc'', ''pw''], mem_content (cx_fs c) [''etc'', ''pw'']))
       (handle mem_os no_globs 1 (ReqCreate ''out'' (rw\<lparr>of_truncate := True\<rparr>) 0x1A4) open_ctx) = Some ([9], [])"
proof
  show "map_option fst (handle mem_os no_globs 1 (ReqOpen ''out'' rw) open_ctx) = Some (Done (Inl PermissionDenied))"
    by code_simp
  show "map_option (\<lambda>(out, c). (mem_content demo_fs [''etc'', ''pw''], mem_content (cx_fs c) [''etc'', ''pw'']))
       (handle mem_os no_globs 1 (ReqCreate ''out'' (rw\<lparr>of_truncate := True\<rparr>) 0x1A4) open_ctx) = Some ([9], [])"
    by code_simp
qed

end
