(* ===== verification/Agent_Forward.thy ===== *)
theory Agent_Forward
  imports Agent_System
begin

text \<open>
  The forwarding task \<^verbatim>\<open>AgentSession::subscribe\<close> spawns (\<^verbatim>\<open>ops.rs\<close>): push the catch-up, then relay the
  live broadcast without the session's own events, and ask for a resync when the channel overtook it.

  The broadcast channel is the list of batches ever sent; a receiver is a position in it.  As tokio
  documents, a receiver more than the capacity behind is told that it lagged and moves to the oldest
  batch still held.
\<close>

definition BROADCAST_CAP :: nat where "BROADCAST_CAP = 256"

definition strip :: "u64 \<Rightarrow> FsEvent list \<Rightarrow> FsEvent list" where
  "strip session batch = filter (\<lambda>e. ev_origin e \<noteq> Some session) batch"

definition resync_event :: FsEvent where
  "resync_event = \<lparr> ev_seq = 0, ev_kind = ResyncRequired, ev_path = [], ev_new_version = None, ev_origin = None \<rparr>"

text \<open>One turn: the batch pushed, if any, and the task's next state.  The catch-up goes first.\<close>

definition forward_turn :: "u64 \<Rightarrow> FsEvent list list \<Rightarrow> Forwarder \<Rightarrow> FsEvent list option \<times> Forwarder" where
  "forward_turn session sent fw =
    (let nonempty = (\<lambda>b. if b = [] then None else Some b) in
     if fw_catchup fw \<noteq> [] then (nonempty (strip session (fw_catchup fw)), fw\<lparr>fw_catchup := []\<rparr>)
     else if fw_next fw \<ge> length sent then (None, fw)
     else if length sent - fw_next fw > BROADCAST_CAP then
       (Some [resync_event], fw\<lparr>fw_next := length sent - BROADCAST_CAP\<rparr>)
     else (nonempty (strip session (sent ! fw_next fw)), fw\<lparr>fw_next := Suc (fw_next fw)\<rparr>))"

datatype FwAct = FwHub HubAct | FwTurn

text \<open>The hub, the task and everything pushed so far.\<close>

fun forward_run :: "u64 \<Rightarrow> FwAct list \<Rightarrow> EventHub \<times> Forwarder \<times> FsEvent list \<Rightarrow> EventHub \<times> Forwarder \<times> FsEvent list" where
  "forward_run session [] st = st"
| "forward_run session (FwHub a # acts) (hub, fw, out) = forward_run session acts (hub_act a hub, fw, out)"
| "forward_run session (FwTurn # acts) (hub, fw, out) =
    (case forward_turn session (eh_sent hub) fw of
       (b, fw') \<Rightarrow> forward_run session acts (hub, fw', out @ (case b of None \<Rightarrow> [] | Some b \<Rightarrow> b)))"

section \<open>Laws\<close>

definition delivered :: "u64 \<Rightarrow> FsEvent list \<Rightarrow> nat \<Rightarrow> EventHub \<times> Forwarder \<times> FsEvent list \<Rightarrow> bool" where
  "delivered session catchup start = (\<lambda>(hub, fw, out).
    start \<le> fw_next fw \<and> fw_next fw \<le> length (eh_sent hub)
    \<and> (fw_catchup fw = [] \<longrightarrow> resync_event \<notin> set out \<longrightarrow>
         out = strip session (catchup @ concat (take (fw_next fw - start) (drop start (eh_sent hub)))))
    \<and> (fw_catchup fw \<noteq> [] \<longrightarrow> fw_catchup fw = catchup \<and> fw_next fw = start \<and> out = []))"

lemma hub_act_sent: "\<exists>bs. eh_sent (hub_act a hub) = eh_sent hub @ bs"
proof (cases a)
  case (HubPublish now raw)
  then show ?thesis using publish_spec [of now raw hub] by auto
qed (simp add: note_spec)

lemma delivered_hub:
  assumes "delivered session cu start (hub, fw, out)"
  shows "delivered session cu start (hub_act a hub, fw, out)"
proof -
  obtain bs where "eh_sent (hub_act a hub) = eh_sent hub @ bs" using hub_act_sent by blast
  then show ?thesis using assms by (auto simp: delivered_def)
qed

lemma strip_append: "strip s (a @ b) = strip s a @ strip s b"
  by (simp add: strip_def)

lemma nonempty_out: "(case (if b = [] then None else Some b) of None \<Rightarrow> [] | Some b \<Rightarrow> b) = b"
  by simp

lemma take_next:
  assumes "start \<le> i" "i < length xs"
  shows "concat (take (Suc i - start) (drop start xs)) = concat (take (i - start) (drop start xs)) @ xs ! i"
proof -
  have "Suc i - start = Suc (i - start)" "drop start xs ! (i - start) = xs ! i" "i - start < length (drop start xs)"
    using assms by auto
  then show ?thesis by (simp add: take_Suc_conv_app_nth)
qed

lemma delivered_turn:
  assumes inv: "delivered session cu start (hub, fw, out)"
    and turn: "forward_turn session (eh_sent hub) fw = (b, fw')"
  shows "delivered session cu start (hub, fw', out @ (case b of None \<Rightarrow> [] | Some b \<Rightarrow> b))"
proof (cases "fw_catchup fw = []")
  case False
  then have "fw_catchup fw = cu" "fw_next fw = start" "out = []" using inv by (auto simp: delivered_def)
  then show ?thesis using inv turn False by (auto simp: delivered_def forward_turn_def Let_def)
next
  case True
  have pos: "start \<le> fw_next fw" "fw_next fw \<le> length (eh_sent hub)"
    and out: "resync_event \<notin> set out \<Longrightarrow>
      out = strip session (cu @ concat (take (fw_next fw - start) (drop start (eh_sent hub))))"
    using inv True by (auto simp: delivered_def)
  consider (idle) "fw_next fw \<ge> length (eh_sent hub)"
    | (lag) "fw_next fw < length (eh_sent hub)" "length (eh_sent hub) - fw_next fw > BROADCAST_CAP"
    | (live) "fw_next fw < length (eh_sent hub)" "\<not> length (eh_sent hub) - fw_next fw > BROADCAST_CAP"
    by linarith
  then show ?thesis
  proof cases
    case idle
    then show ?thesis using inv turn True by (auto simp: forward_turn_def)
  next
    case lag
    then have "b = Some [resync_event]" "fw' = fw\<lparr>fw_next := length (eh_sent hub) - BROADCAST_CAP\<rparr>"
      using turn True by (auto simp: forward_turn_def)
    then show ?thesis using lag pos True by (auto simp: delivered_def)
  next
    case live
    let ?b = "strip session (eh_sent hub ! fw_next fw)"
    have step: "b = (if ?b = [] then None else Some ?b)" "fw' = fw\<lparr>fw_next := Suc (fw_next fw)\<rparr>"
      using turn True live by (auto simp: forward_turn_def Let_def)
    have "out @ ?b = strip session (cu @ concat (take (Suc (fw_next fw) - start) (drop start (eh_sent hub))))"
      if "resync_event \<notin> set out"
      using out [OF that] take_next [OF pos(1) live(1)] by (simp add: strip_append)
    then show ?thesis using pos live(1) True step by (auto simp: delivered_def)
  qed
qed

lemma forward_run_delivered:
  "delivered session cu start st \<Longrightarrow> delivered session cu start (forward_run session acts st)"
proof (induction session acts st rule: forward_run.induct)
  case (2 session a acts hub fw out)
  then show ?case using delivered_hub by simp
next
  case (3 session acts hub fw out)
  then show ?case using delivered_turn by (auto split: prod.splits)
qed simp

lemma forward_run_sent:
  "forward_run session acts (hub, fw, out) = (hub', fw', out') \<Longrightarrow> \<exists>bs. eh_sent hub' = eh_sent hub @ bs"
proof (induction session acts "(hub, fw, out)" arbitrary: hub fw out rule: forward_run.induct)
  case (2 session a acts hub fw out)
  then obtain bs where "eh_sent hub' = eh_sent (hub_act a hub) @ bs" by auto
  then show ?case using hub_act_sent [of a hub] by auto
qed (auto split: prod.splits)


definition demo_hub :: EventHub where
  "demo_hub = hub_run [HubPublish 0 [(''a'', Created)], HubNote 1 ''b'' 7] (hub_with_capacity 4)"


section \<open>The task catches up\<close>

definition behind :: "FsEvent list list \<Rightarrow> Forwarder \<Rightarrow> nat" where
  "behind sent fw = (if fw_catchup fw \<noteq> [] then 1 else 0) + min (Suc BROADCAST_CAP) (length sent - fw_next fw)"

lemma behind_turn: "behind sent (snd (forward_turn session sent fw)) = behind sent fw - 1"
  by (auto simp: behind_def forward_turn_def Let_def BROADCAST_CAP_def)

lemma turns_behind:
  "forward_run session (replicate k FwTurn) (hub, fw, out) = (hub', fw', out') \<Longrightarrow>
   hub' = hub \<and> behind (eh_sent hub) fw' = behind (eh_sent hub) fw - k"
proof (induction k arbitrary: fw out)
  case (Suc k)
  obtain b fw1 where turn: "forward_turn session (eh_sent hub) fw = (b, fw1)" by fastforce
  have "behind (eh_sent hub) fw1 = behind (eh_sent hub) fw - 1" using behind_turn [of "eh_sent hub" session fw] turn by simp
  then show ?case using Suc turn by (auto split: prod.splits)
qed simp



end
