(* ===== verification/Sync_Plan.thy ===== *)
theory Sync_Plan
  imports Coalesce
begin

text \<open>
  The decision half of sync mode: \<^verbatim>\<open>crates/alloyfs-client/src/sync/{mod,manifest,reconcile}.rs\<close>.

  The baseline manifest, the snapshots of both sides and \<open>plan\<close>, the three-way decision table.
  A \<^verbatim>\<open>BTreeMap\<close> is an association list iterated in key order.
  The second half gives the actions their meaning on snapshots and shows that a plan, carried out,
  leaves nothing to plan.
\<close>

section \<open>Data\<close>

datatype EntryKind = EkFile | EkDir

record SyncEntry =
  sn_kind :: EntryKind
  sn_remote_version :: u64
  sn_size :: u64
  sn_mtime_ns :: nat

record SyncManifest =
  sm_format :: u32
  sm_last_seq :: u64
  sm_entries :: "(string, SyncEntry) hmap"

record Stat =
  st_kind :: EntryKind
  st_size :: u64
  st_mtime_ns :: nat
  st_version :: u64

type_synonym Snapshot = "(string, Stat) hmap"

datatype Action =
    Pull string | Push string | DeleteLocal string EntryKind | DeleteRemote string EntryKind
  | Adopt string Stat | AConflict string Stat Stat | Forget string

datatype ConflictPolicy = PolNewer | PolRemote | PolLocal

definition conflict_policy_from_str :: "string \<Rightarrow> string + ConflictPolicy" where
  "conflict_policy_from_str s =
    (if s = ''newer'' then Inr PolNewer else if s = ''remote'' then Inr PolRemote
     else if s = ''local'' then Inr PolLocal else Inl s)"

definition is_internal :: "string \<Rightarrow> bool" where
  "is_internal path = (let name = last (split_on CHR ''/'' path) in take 8 name = ''.ds-tmp-'')"

section \<open>The manifest\<close>

definition manifest_default :: SyncManifest where
  "manifest_default = \<lparr> sm_format = 0, sm_last_seq = 0, sm_entries = [] \<rparr>"

text \<open>\<open>from_str\<close> is the JSON reader.\<close>

definition manifest_load :: "(string \<Rightarrow> SyncManifest option) \<Rightarrow> string option \<Rightarrow> SyncManifest" where
  "manifest_load from_str text =
    (case text of
       Some t \<Rightarrow> (case from_str t of Some m \<Rightarrow> m | None \<Rightarrow> manifest_default)
     | None \<Rightarrow> manifest_default)"

text \<open>Where an entry goes when \<open>from\<close> becomes \<open>to\<close>: nowhere, or to the same suffix.\<close>

definition moved_to :: "string \<Rightarrow> string \<Rightarrow> string \<Rightarrow> string option" where
  "moved_to from to path =
    (if path = from then Some to
     else map_option (\<lambda>suffix. to @ CHR ''/'' # suffix) (strip_prefix (from @ ''/'') path))"

definition rename_prefix :: "string \<Rightarrow> string \<Rightarrow> SyncManifest \<Rightarrow> bool \<times> SyncManifest" where
  "rename_prefix from to m =
    (let moved = List.map_filter (\<lambda>(path, entry). map_option (\<lambda>q. (q, entry)) (moved_to from to path)) (hm_sorted (sm_entries m));
         kept = hm_retain (\<lambda>path entry. moved_to from to path = None) (sm_entries m)
     in (moved \<noteq> [], m\<lparr>sm_entries := foldl (\<lambda>es (path, entry). hm_put path entry es) kept moved\<rparr>))"

definition mtime_ns_of :: "SystemTime \<Rightarrow> nat" where
  "mtime_ns_of t = (if t < 0 then 0 else nat t)"

section \<open>The decision table\<close>

definition same_stat :: "EntryKind \<Rightarrow> u64 \<Rightarrow> nat \<Rightarrow> Stat \<Rightarrow> bool" where
  "same_stat kind sz mtime_ns s =
    (st_kind s = kind \<and> (kind = EkDir \<or> st_size s = sz \<and> st_mtime_ns s = mtime_ns))"

definition l_changed :: "SyncEntry option \<Rightarrow> Stat option \<Rightarrow> bool" where
  "l_changed base l =
    (case (base, l) of
       (Some b, Some l) \<Rightarrow> \<not> same_stat (sn_kind b) (sn_size b) (sn_mtime_ns b) l
     | (Some _, None) \<Rightarrow> True
     | (None, Some _) \<Rightarrow> True
     | (None, None) \<Rightarrow> False)"

definition r_changed :: "SyncEntry option \<Rightarrow> Stat option \<Rightarrow> bool" where
  "r_changed base r =
    (case (base, r) of
       (Some b, Some r) \<Rightarrow>
         if sn_remote_version b \<noteq> 0 \<and> sn_remote_version b = st_version r then False
         else \<not> same_stat (sn_kind b) (sn_size b) (sn_mtime_ns b) r
     | (Some _, None) \<Rightarrow> True
     | (None, Some _) \<Rightarrow> True
     | (None, None) \<Rightarrow> False)"

definition plan_path :: "SyncEntry option \<Rightarrow> Stat option \<Rightarrow> Stat option \<Rightarrow> string \<Rightarrow> Action list" where
  "plan_path base l r path =
    (case (l, r) of
       (Some ls, Some rs) \<Rightarrow>
         if st_kind ls = EkDir \<and> st_kind rs = EkDir then
           (if base = None then [Adopt path rs] else [])
         else (case (l_changed base l, r_changed base r) of
                 (False, False) \<Rightarrow> []
               | (True, False) \<Rightarrow> [Push path]
               | (False, True) \<Rightarrow> [Pull path]
               | (True, True) \<Rightarrow>
                   if st_kind ls = st_kind rs \<and> st_size ls = st_size rs \<and> st_mtime_ns ls = st_mtime_ns rs
                   then [Adopt path rs] else [AConflict path ls rs])
     | (Some ls, None) \<Rightarrow>
         if base = None then [Push path]
         else if l_changed base l then [Push path]
         else [DeleteLocal path (st_kind ls)]
     | (None, Some rs) \<Rightarrow>
         if base = None then [Pull path]
         else if r_changed base r then [Pull path]
         else [DeleteRemote path (st_kind rs)]
     | (None, None) \<Rightarrow> [Forget path])"

definition plan_paths :: "SyncManifest \<Rightarrow> Snapshot \<Rightarrow> Snapshot \<Rightarrow> string list" where
  "plan_paths m local remote = sort (remdups (hm_keys (sm_entries m) @ hm_keys local @ hm_keys remote))"

definition plan :: "SyncManifest \<Rightarrow> Snapshot \<Rightarrow> Snapshot \<Rightarrow> Action list" where
  "plan m local remote =
    concat (map (\<lambda>path. plan_path (hm_get (sm_entries m) path) (hm_get local path) (hm_get remote path) path)
      (plan_paths m local remote))"

section \<open>What the actions mean\<close>

text \<open>The effect the engine intends, on the two trees and the baseline.  \<open>fresh\<close> is the version the server
  gives a pushed path; a conflict keeps the winner of the policy under the path, and the loser under a
  name of its own, which is a path of its own for the next plan.\<close>

fun action_path :: "Action \<Rightarrow> string" where
  "action_path (Pull p) = p"
| "action_path (Push p) = p"
| "action_path (DeleteLocal p k) = p"
| "action_path (DeleteRemote p k) = p"
| "action_path (Adopt p s) = p"
| "action_path (AConflict p l r) = p"
| "action_path (Forget p) = p"

definition local_wins :: "ConflictPolicy \<Rightarrow> Stat \<Rightarrow> Stat \<Rightarrow> bool" where
  "local_wins policy local remote =
    (case policy of PolLocal \<Rightarrow> True | PolRemote \<Rightarrow> False | PolNewer \<Rightarrow> st_mtime_ns local > st_mtime_ns remote)"

definition entry_of_stat :: "Stat \<Rightarrow> SyncEntry" where
  "entry_of_stat s = \<lparr> sn_kind = st_kind s, sn_remote_version = st_version s, sn_size = st_size s, sn_mtime_ns = st_mtime_ns s \<rparr>"

record World =
  w_base :: "string \<Rightarrow> SyncEntry option"
  w_local :: "string \<Rightarrow> Stat option"
  w_remote :: "string \<Rightarrow> Stat option"

definition pulled :: "string \<Rightarrow> World \<Rightarrow> World" where
  "pulled p w = w\<lparr>w_local := (w_local w)(p := map_option (\<lambda>s. s\<lparr>st_version := 0\<rparr>) (w_remote w p)),
                  w_base := (w_base w)(p := map_option entry_of_stat (w_remote w p))\<rparr>"

definition pushed :: "(string \<Rightarrow> u64) \<Rightarrow> string \<Rightarrow> World \<Rightarrow> World" where
  "pushed fresh p w =
    (let s = map_option (\<lambda>s. s\<lparr>st_version := fresh p\<rparr>) (w_local w p)
     in w\<lparr>w_remote := (w_remote w)(p := s), w_base := (w_base w)(p := map_option entry_of_stat s)\<rparr>)"

fun act_on :: "ConflictPolicy \<Rightarrow> (string \<Rightarrow> u64) \<Rightarrow> Action \<Rightarrow> World \<Rightarrow> World" where
  "act_on pol fresh (Pull p) w = pulled p w"
| "act_on pol fresh (Push p) w = pushed fresh p w"
| "act_on pol fresh (DeleteLocal p k) w = w\<lparr>w_local := (w_local w)(p := None), w_base := (w_base w)(p := None)\<rparr>"
| "act_on pol fresh (DeleteRemote p k) w = w\<lparr>w_remote := (w_remote w)(p := None), w_base := (w_base w)(p := None)\<rparr>"
| "act_on pol fresh (Adopt p s) w = w\<lparr>w_base := (w_base w)(p := Some (entry_of_stat s))\<rparr>"
| "act_on pol fresh (AConflict p l r) w = (if local_wins pol l r then pushed fresh p w else pulled p w)"
| "act_on pol fresh (Forget p) w = w\<lparr>w_base := (w_base w)(p := None)\<rparr>"

definition world :: "SyncManifest \<Rightarrow> Snapshot \<Rightarrow> Snapshot \<Rightarrow> World" where
  "world m local remote = \<lparr> w_base = hm_get (sm_entries m), w_local = hm_get local, w_remote = hm_get remote \<rparr>"

text \<open>The reconciler runs deletions last, children first.\<close>

fun is_delete :: "Action \<Rightarrow> bool" where
  "is_delete (DeleteLocal p k) = True"
| "is_delete (DeleteRemote p k) = True"
| "is_delete _ = False"

definition schedule :: "Action list \<Rightarrow> Action list" where
  "schedule actions = (case partition is_delete actions of (deletes, rest) \<Rightarrow> rest @ rev deletes)"

section \<open>Laws\<close>

definition here :: "World \<Rightarrow> string \<Rightarrow> SyncEntry option \<times> Stat option \<times> Stat option" where
  "here w p = (w_base w p, w_local w p, w_remote w p)"

lemma act_on_other: "action_path a \<noteq> q \<Longrightarrow> here (act_on pol fr a w) q = here w q"
  by (cases a) (auto simp: here_def pulled_def pushed_def Let_def)

lemma act_on_here: "here w p = here w' p \<Longrightarrow> action_path a = p \<Longrightarrow> here (act_on pol fr a w) p = here (act_on pol fr a w') p"
  by (cases a) (auto simp: here_def pulled_def pushed_def Let_def)

lemma fold_other: "p \<notin> action_path ` set as \<Longrightarrow> here (fold (act_on pol fr) as w) p = here w p"
  by (induction as arbitrary: w) (auto simp: act_on_other)

lemma fold_one:
  "distinct (map action_path as) \<Longrightarrow> a \<in> set as \<Longrightarrow>
   here (fold (act_on pol fr) as w) (action_path a) = here (act_on pol fr a w) (action_path a)"
proof (induction as arbitrary: w)
  case (Cons b as)
  show ?case
  proof (cases "a = b")
    case True
    then show ?thesis using Cons.prems fold_other [of "action_path b" as pol fr "act_on pol fr b w"] by simp
  next
    case False
    then have mem: "a \<in> set as" and ne: "action_path b \<noteq> action_path a" using Cons.prems by auto
    have "here (fold (act_on pol fr) as (act_on pol fr b w)) (action_path a) = here (act_on pol fr a (act_on pol fr b w)) (action_path a)"
      using Cons.IH [OF _ mem] Cons.prems(1) by simp
    also have "\<dots> = here (act_on pol fr a w) (action_path a)"
      by (rule act_on_here) (simp_all add: act_on_other ne)
    finally show ?thesis by simp
  qed
qed simp

lemma plan_path_cases:
  obtains "plan_path b l r p = []" | a where "plan_path b l r p = [a]" "action_path a = p"
proof -
  have "plan_path b l r p = [] \<or> (\<exists>a. plan_path b l r p = [a] \<and> action_path a = p)"
    by (auto simp: plan_path_def split: option.split bool.split)
  then show ?thesis using that by blast
qed

lemma plan_path_paths: "map action_path (plan_path b l r p) = (if plan_path b l r p = [] then [] else [p])"
  by (cases rule: plan_path_cases [of b l r p]) auto

lemma plan_paths_props: "sorted (plan_paths m l r)" "distinct (plan_paths m l r)"
  "set (plan_paths m l r) = set (hm_keys (sm_entries m)) \<union> set (hm_keys l) \<union> set (hm_keys r)"
  by (auto simp: plan_paths_def)

lemma concat_paths_sub:
  "(\<And>p. map action_path (f p) = (if f p = [] then [] else [p])) \<Longrightarrow>
   map action_path (concat (map f ps)) = filter (\<lambda>p. f p \<noteq> []) ps"
  by (induction ps) auto

lemma plan_action_paths:
  "map action_path (plan m l r) = filter (\<lambda>p. plan_path (hm_get (sm_entries m) p) (hm_get l p) (hm_get r p) p \<noteq> []) (plan_paths m l r)"
  unfolding plan_def by (rule concat_paths_sub) (simp add: plan_path_paths)

lemma plan_sorted: "sorted (map action_path (plan m l r))" "distinct (map action_path (plan m l r))"
  unfolding plan_action_paths using plan_paths_props [of m l r] by (simp_all add: sorted_wrt_filter)

lemma plan_mem:
  assumes "a \<in> set (plan m l r)"
  shows "plan_path (hm_get (sm_entries m) (action_path a)) (hm_get l (action_path a)) (hm_get r (action_path a)) (action_path a) = [a]"
proof -
  obtain p where p: "a \<in> set (plan_path (hm_get (sm_entries m) p) (hm_get l p) (hm_get r p) p)"
    using assms by (auto simp: plan_def)
  show ?thesis
    by (cases rule: plan_path_cases [of "hm_get (sm_entries m) p" "hm_get l p" "hm_get r p" p]) (use p in auto)
qed

lemma plan_planned:
  assumes "plan_path (hm_get (sm_entries m) p) (hm_get l p) (hm_get r p) p = [a]"
    and "hm_get (sm_entries m) p \<noteq> None \<or> hm_get l p \<noteq> None \<or> hm_get r p \<noteq> None"
  shows "a \<in> set (plan m l r) \<and> action_path a = p"
proof -
  have "p \<in> set (plan_paths m l r)" using assms(2) by (auto simp: plan_paths_props hm_get_None_iff)
  moreover have "action_path a = p"
    using assms(1) by (cases rule: plan_path_cases [of "hm_get (sm_entries m) p" "hm_get l p" "hm_get r p" p]) auto
  ultimately show ?thesis using assms(1) unfolding plan_def by force
qed

lemma schedule_set [simp]: "set (schedule as) = set as"
  by (auto simp: schedule_def)

lemma schedule_distinct: "distinct (map action_path as) \<Longrightarrow> distinct (map action_path (schedule as))"
  by (auto simp: schedule_def distinct_map inj_on_def rev_map [symmetric] distinct_map_filter)

text \<open>What one action leaves at its path: nothing anywhere, or two equal sides and their baseline.\<close>

definition settled :: "SyncEntry option \<times> Stat option \<times> Stat option \<Rightarrow> bool" where
  "settled = (\<lambda>(b, l, r). (b = None \<and> l = None \<and> r = None)
    \<or> (\<exists>b' l' r'. b = Some b' \<and> l = Some l' \<and> r = Some r'
        \<and> same_stat (sn_kind b') (sn_size b') (sn_mtime_ns b') l' \<and> same_stat (sn_kind b') (sn_size b') (sn_mtime_ns b') r'))"

lemma same_stat_entry [simp]:
  "same_stat (sn_kind (entry_of_stat s)) (sn_size (entry_of_stat s)) (sn_mtime_ns (entry_of_stat s)) s"
  "same_stat (sn_kind (entry_of_stat s)) (sn_size (entry_of_stat s)) (sn_mtime_ns (entry_of_stat s)) (s\<lparr>st_version := v\<rparr>)"
  "same_stat (sn_kind (entry_of_stat (s\<lparr>st_version := v\<rparr>))) (sn_size (entry_of_stat (s\<lparr>st_version := v\<rparr>))) (sn_mtime_ns (entry_of_stat (s\<lparr>st_version := v\<rparr>))) s"
  by (simp_all add: same_stat_def entry_of_stat_def)

lemma pulled_settles: "w_remote w p \<noteq> None \<Longrightarrow> settled (here (pulled p w) p)"
  by (auto simp: settled_def here_def pulled_def)

lemma pushed_settles: "w_local w p \<noteq> None \<Longrightarrow> settled (here (pushed fr p w) p)"
  by (auto simp: settled_def here_def pushed_def)

lemma action_settles:
  assumes a: "plan_path (w_base w p) (w_local w p) (w_remote w p) p = [a]"
  shows "settled (here (act_on pol fr a w) p)"
proof (cases "w_local w p")
  case l: None
  show ?thesis
  proof (cases "w_remote w p")
    case None
    then show ?thesis using a l by (auto simp: plan_path_def settled_def here_def)
  next
    case (Some rs)
    then have "a = Pull p \<or> a = DeleteRemote p (st_kind rs)" using a l by (simp add: plan_path_def split: if_splits)
    then show ?thesis using l Some by (elim disjE) (simp_all add: pulled_settles, simp add: settled_def here_def)
  qed
next
  case l: (Some ls)
  show ?thesis
  proof (cases "w_remote w p")
    case None
    then have "a = Push p \<or> a = DeleteLocal p (st_kind ls)" using a l by (simp add: plan_path_def split: if_splits)
    then show ?thesis using l None by (elim disjE) (simp_all add: pushed_settles, simp add: settled_def here_def)
  next
    case (Some rs)
    have "a = Push p \<or> a = Pull p \<or> a = AConflict p ls rs \<or> a = Adopt p rs \<and>
        (st_kind ls = EkDir \<and> st_kind rs = EkDir
         \<or> st_kind ls = st_kind rs \<and> st_size ls = st_size rs \<and> st_mtime_ns ls = st_mtime_ns rs)"
      using a unfolding plan_path_def l Some prod.case option.case by (simp split: if_splits bool.splits)
    then show ?thesis
      using l Some
      by (elim disjE conjE) (simp_all add: pulled_settles pushed_settles,
          simp_all add: settled_def here_def same_stat_def entry_of_stat_def)
  qed
qed

lemma settled_plan:
  "settled (b, l, r) \<Longrightarrow> b \<noteq> None \<or> l \<noteq> None \<or> r \<noteq> None \<Longrightarrow> plan_path b l r p = []"
  by (auto simp: settled_def plan_path_def l_changed_def r_changed_def split: if_splits)

section \<open>Properties\<close>

definition agree :: "Stat option \<Rightarrow> Stat option \<Rightarrow> bool" where
  "agree l r =
    (case (l, r) of
       (None, None) \<Rightarrow> True
     | (Some a, Some b) \<Rightarrow> same_stat (st_kind a) (st_size a) (st_mtime_ns a) b
     | _ \<Rightarrow> False)"

text \<open>What the manifest documents of versions: an equal nonzero version proves freshness.\<close>

definition honest_versions :: "SyncManifest \<Rightarrow> Snapshot \<Rightarrow> bool" where
  "honest_versions m remote = (\<forall>p b r. hm_get (sm_entries m) p = Some b \<longrightarrow> hm_get remote p = Some r \<longrightarrow>
     sn_remote_version b \<noteq> 0 \<longrightarrow> sn_remote_version b = st_version r \<longrightarrow>
     same_stat (sn_kind b) (sn_size b) (sn_mtime_ns b) r)"

lemma settled_agree: "settled (b, l, r) \<Longrightarrow> agree l r"
  by (auto simp: settled_def agree_def same_stat_def)

lemma unplanned_agree:
  assumes "plan_path b l r p = []"
    and "\<And>b' r'. b = Some b' \<Longrightarrow> r = Some r' \<Longrightarrow> sn_remote_version b' \<noteq> 0 \<Longrightarrow> sn_remote_version b' = st_version r' \<Longrightarrow>
      same_stat (sn_kind b') (sn_size b') (sn_mtime_ns b') r'"
  shows "agree l r"
proof (cases l)
  case None
  then show ?thesis using assms(1) by (cases r) (auto simp: plan_path_def split: if_splits)
next
  case l: (Some ls)
  show ?thesis
  proof (cases r)
    case None
    then show ?thesis using assms(1) l by (auto simp: plan_path_def split: if_splits)
  next
    case r: (Some rs)
    show ?thesis
    proof (cases "st_kind ls = EkDir \<and> st_kind rs = EkDir")
      case True
      then show ?thesis using l r by (simp add: agree_def same_stat_def)
    next
      case False
      then have unchanged: "\<not> l_changed b l" "\<not> r_changed b r"
        using assms(1) l r by (auto simp: plan_path_def split: bool.splits if_splits)
      then obtain b' where b: "b = Some b'" using l by (cases b) (auto simp: l_changed_def)
      have "same_stat (sn_kind b') (sn_size b') (sn_mtime_ns b') ls" using unchanged(1) l b by (simp add: l_changed_def)
      moreover have "same_stat (sn_kind b') (sn_size b') (sn_mtime_ns b') rs"
        using unchanged(2) r b assms(2) by (auto simp: r_changed_def split: if_splits)
      ultimately show ?thesis using l r by (auto simp: agree_def same_stat_def)
    qed
  qed
qed


definition file_stat :: "u64 \<Rightarrow> nat \<Rightarrow> u64 \<Rightarrow> Stat" where
  "file_stat sz t v = \<lparr> st_kind = EkFile, st_size = sz, st_mtime_ns = t, st_version = v \<rparr>"

definition demo_manifest :: SyncManifest where
  "demo_manifest = \<lparr> sm_format = 0, sm_last_seq = 5, sm_entries =
     [(''d'', entry_of_stat (file_stat 1 1 3)), (''e'', entry_of_stat (file_stat 2 2 4))] \<rparr>"

definition demo_local :: Snapshot where
  "demo_local = [(''d'', file_stat 9 9 0), (''e'', file_stat 2 2 0), (''n'', file_stat 4 4 0)]"

definition demo_remote :: Snapshot where
  "demo_remote = [(''d'', file_stat 7 7 8)]"

lemma demo_plan: "plan demo_manifest demo_local demo_remote
    = [AConflict ''d'' (file_stat 9 9 0) (file_stat 7 7 8), DeleteLocal ''e'' EkFile, Push ''n'']"
  by code_simp


text \<open>C27: no plan discards an edit.  A side is deleted only when the other side is gone and it is itself
  unchanged since the baseline; a pull or a push overwrites only an unchanged copy; two diverging edits
  always go to the conflict rule.\<close>

theorem plan_keeps_edits:
  assumes "b = hm_get (sm_entries m) p" "l = hm_get local p" "r = hm_get remote p"
  shows "(DeleteLocal p k \<in> set (plan m local remote) \<longrightarrow> r = None \<and> b \<noteq> None \<and> \<not> l_changed b l)
    \<and> (DeleteRemote p k \<in> set (plan m local remote) \<longrightarrow> l = None \<and> b \<noteq> None \<and> \<not> r_changed b r)
    \<and> (Pull p \<in> set (plan m local remote) \<longrightarrow> l = None \<or> \<not> l_changed b l)
    \<and> (Push p \<in> set (plan m local remote) \<longrightarrow> r = None \<or> \<not> r_changed b r)
    \<and> (l_changed b l \<and> r_changed b r \<and> l \<noteq> None \<and> r \<noteq> None \<and> \<not> agree l r \<longrightarrow>
         AConflict p (the l) (the r) \<in> set (plan m local remote))"
proof (intro conjI impI)
  have at: "plan_path b l r p = [a]" if "a \<in> set (plan m local remote)" "action_path a = p" for a
    using plan_mem [OF that(1)] that(2) assms by simp
  show "r = None" "b \<noteq> None" "\<not> l_changed b l" if "DeleteLocal p k \<in> set (plan m local remote)"
    using at [OF that] by (auto simp: plan_path_def split: option.splits if_splits bool.splits)
  show "l = None" "b \<noteq> None" "\<not> r_changed b r" if "DeleteRemote p k \<in> set (plan m local remote)"
    using at [OF that] by (auto simp: plan_path_def split: option.splits if_splits bool.splits)
  show "l = None \<or> \<not> l_changed b l" if "Pull p \<in> set (plan m local remote)"
    using at [OF that] by (auto simp: plan_path_def split: option.splits if_splits bool.splits)
  show "r = None \<or> \<not> r_changed b r" if "Push p \<in> set (plan m local remote)"
    using at [OF that] by (auto simp: plan_path_def split: option.splits if_splits bool.splits)
  assume c: "l_changed b l \<and> r_changed b r \<and> l \<noteq> None \<and> r \<noteq> None \<and> \<not> agree l r"
  then obtain ls rs where s: "l = Some ls" "r = Some rs" by blast
  have g: "hm_get local p = Some ls" "hm_get remote p = Some rs" using assms s by simp_all
  have "plan_path b l r p = [AConflict p ls rs]"
    using c s by (auto simp: plan_path_def agree_def same_stat_def)
  then have "plan_path (hm_get (sm_entries m) p) (hm_get local p) (hm_get remote p) p = [AConflict p ls rs]"
    unfolding assms .
  then show "AConflict p (the l) (the r) \<in> set (plan m local remote)"
    using plan_planned g s by fastforce
qed

theorem plan_keeps_edits_witness:
  "AConflict ''d'' (file_stat 9 9 0) (file_stat 7 7 8) \<in> set (plan demo_manifest demo_local demo_remote)
   \<and> DeleteLocal ''e'' EkFile \<in> set (plan demo_manifest demo_local demo_remote)
   \<and> hm_get demo_remote ''e'' = None \<and> \<not> l_changed (hm_get (sm_entries demo_manifest) ''e'') (hm_get demo_local ''e'')"
  using plan_keeps_edits [of "hm_get (sm_entries demo_manifest) ''e''" demo_manifest "''e''"
      "hm_get demo_local ''e''" demo_local "hm_get demo_remote ''e''" demo_remote EkFile]
  by (simp add: demo_plan)

lemma moved_to_inj: "moved_to f t p = Some q \<Longrightarrow> moved_to f t p' = Some q \<Longrightarrow> p = p'"
  by (auto simp: moved_to_def strip_prefix_Some split: if_splits)

lemma foldl_put:
  "distinct (map fst xs) \<Longrightarrow> hm_get (foldl (\<lambda>es (k, v). hm_put k v es) m xs) q =
   (case map_of xs q of Some v \<Rightarrow> Some v | None \<Rightarrow> hm_get m q)"
proof (induction xs arbitrary: m)
  case (Cons x xs)
  obtain k v where x: "x = (k, v)" by fastforce
  have "map_of xs k = None" using Cons.prems x by (simp add: map_of_eq_None_iff)
  then show ?case using Cons x by (auto simp: hmap_simps split: option.splits)
qed simp

lemma map_filter_moved:
  assumes "distinct (map fst xs)"
  shows "distinct (map fst (List.map_filter (\<lambda>(p, e). map_option (\<lambda>q. (q, e)) (moved_to f t p)) xs))
    \<and> (\<forall>q e. (q, e) \<in> set (List.map_filter (\<lambda>(p, e). map_option (\<lambda>q. (q, e)) (moved_to f t p)) xs)
        \<longleftrightarrow> (\<exists>p. (p, e) \<in> set xs \<and> moved_to f t p = Some q))"
  using assms
proof (induction xs)
  case (Cons x xs)
  obtain p e where x: "x = (p, e)" by fastforce
  have "\<not> (\<exists>p' e'. (p', e') \<in> set xs \<and> moved_to f t p' = Some q)" if "moved_to f t p = Some q" for q
  proof -
    have "p \<notin> fst ` set xs" using Cons.prems x by simp
    then show ?thesis using that moved_to_inj by (metis fst_conv image_eqI)
  qed
  then show ?case using Cons x by (cases "moved_to f t p") (auto simp: map_filter_simps image_iff, blast+)
qed (simp add: map_filter_simps)

text \<open>Renaming a directory in the baseline moves the entry of the path and of everything below it to
  the same place under the new name, drops the old names, keeps the rest, and reports whether anything
  moved.\<close>

theorem rename_prefix_exact:
  assumes "hm_ok (sm_entries m)" "rename_prefix from to m = (any, m')"
  shows "(any \<longleftrightarrow> (\<exists>p. hm_get (sm_entries m) p \<noteq> None \<and> moved_to from to p \<noteq> None))
    \<and> (\<forall>p q e. hm_get (sm_entries m) p = Some e \<longrightarrow> moved_to from to p = Some q \<longrightarrow> hm_get (sm_entries m') q = Some e)
    \<and> (\<forall>q. (\<forall>p. hm_get (sm_entries m) p \<noteq> None \<longrightarrow> moved_to from to p \<noteq> Some q) \<longrightarrow>
         hm_get (sm_entries m') q = (if moved_to from to q = None then hm_get (sm_entries m) q else None))"
proof -
  define mv where "mv = List.map_filter (\<lambda>(path, entry). map_option (\<lambda>q. (q, entry)) (moved_to from to path)) (hm_sorted (sm_entries m))"
  define kept where "kept = hm_retain (\<lambda>path entry. moved_to from to path = None) (sm_entries m)"
  have out: "any = (mv \<noteq> [])" "sm_entries m' = foldl (\<lambda>es (path, entry). hm_put path entry es) kept mv"
    using assms(2) by (auto simp: rename_prefix_def mv_def kept_def Let_def)
  have dist: "distinct (map fst mv)"
    and mem: "\<And>q e. (q, e) \<in> set mv \<longleftrightarrow> (\<exists>p. hm_get (sm_entries m) p = Some e \<and> moved_to from to p = Some q)"
    using map_filter_moved [OF hm_sorted_distinct [OF assms(1)], of "from" "to"] hm_get_set [OF assms(1)]
    unfolding mv_def by auto
  have get: "hm_get (sm_entries m') q = (case map_of mv q of Some v \<Rightarrow> Some v | None \<Rightarrow> hm_get kept q)" for q
    unfolding out(2) by (rule foldl_put [OF dist])
  have some: "map_of mv q = Some e \<longleftrightarrow> (q, e) \<in> set mv" for q e using dist by (rule map_of_eq_Some_iff)
  have kept: "hm_get kept q = (if moved_to from to q = None then hm_get (sm_entries m) q else None)" for q
    unfolding kept_def by (simp add: hm_get_retain [OF assms(1)] split: option.splits)
  show ?thesis
  proof (intro conjI allI impI)
    show "any \<longleftrightarrow> (\<exists>p. hm_get (sm_entries m) p \<noteq> None \<and> moved_to from to p \<noteq> None)"
    proof -
      have "mv \<noteq> [] \<longleftrightarrow> (\<exists>q e. (q, e) \<in> set mv)" by (metis ex_in_conv set_empty surj_pair)
      then show ?thesis unfolding out(1) using mem by auto
    qed
    show "hm_get (sm_entries m') q = Some e" if "hm_get (sm_entries m) p = Some e" "moved_to from to p = Some q" for p q e
      using get [of q] some [of q e] mem [of q e] that by auto
    fix q
    assume none: "\<forall>p. hm_get (sm_entries m) p \<noteq> None \<longrightarrow> moved_to from to p \<noteq> Some q"
    have "map_of mv q = None"
    proof (cases "map_of mv q")
      case (Some e)
      then show ?thesis using some mem none by fastforce
    qed
    then show "hm_get (sm_entries m') q = (if moved_to from to q = None then hm_get (sm_entries m) q else None)"
      using get [of q] kept by simp
  qed
qed

theorem rename_prefix_exact_witness:
  "let m = demo_manifest\<lparr>sm_entries := [(''a'', entry_of_stat (file_stat 1 1 3)), (''a/x'', entry_of_stat (file_stat 2 2 4)),
              (''ab'', entry_of_stat (file_stat 3 3 5))]\<rparr>
   in fst (rename_prefix ''a'' ''c'' m) \<and> hm_get (sm_entries (snd (rename_prefix ''a'' ''c'' m))) ''c/x'' = Some (entry_of_stat (file_stat 2 2 4))
      \<and> hm_get (sm_entries (snd (rename_prefix ''a'' ''c'' m))) ''a'' = None"
proof -
  let ?m = "demo_manifest\<lparr>sm_entries := [(''a'', entry_of_stat (file_stat 1 1 3)), (''a/x'', entry_of_stat (file_stat 2 2 4)),
              (''ab'', entry_of_stat (file_stat 3 3 5))]\<rparr>"
  have ok: "hm_ok (sm_entries ?m)" by (simp add: hm_ok_def)
  have ex: "(fst (rename_prefix ''a'' ''c'' ?m)
      \<longleftrightarrow> (\<exists>p. hm_get (sm_entries ?m) p \<noteq> None \<and> moved_to ''a'' ''c'' p \<noteq> None))
      \<and> (\<forall>p q e. hm_get (sm_entries ?m) p = Some e \<longrightarrow> moved_to ''a'' ''c'' p = Some q \<longrightarrow>
      hm_get (sm_entries (snd (rename_prefix ''a'' ''c'' ?m))) q = Some e)"
    using rename_prefix_exact [OF ok prod.collapse [symmetric]] by blast
  have "moved_to ''a'' ''c'' ''a/x'' = Some ''c/x''" by code_simp
  moreover have "hm_get (sm_entries ?m) ''a/x'' = Some (entry_of_stat (file_stat 2 2 4))" by simp
  moreover have "hm_get (sm_entries (snd (rename_prefix ''a'' ''c'' ?m))) ''a'' = None" by code_simp
  ultimately show ?thesis unfolding Let_def using ex by blast
qed

end
