(* ===== verification/Transport.thy ===== *)
theory Transport
  imports Common
begin

text \<open>
  \<^verbatim>\<open>crates/alloyfs-transport/src/{mux,server}.rs\<close>: the version handshake, the client's request table and
  the server's frame loop, and the client errors of \<^verbatim>\<open>crates/alloyfs-client/src/error.rs\<close>.

  A connection is the two frame queues between a \<open>Mux\<close> and a serving loop; tasks on both sides are
  interleaved by a step relation.
\<close>

section \<open>Errors\<close>

datatype TransportError = TeClosed | TeTimeout | TeHandshake | TeProto ProtoError | TeIo

datatype FsError = FeRemote ErrorCode | FeTransport TransportError

definition posix_errno :: "FsError \<Rightarrow> int" where
  "posix_errno err =
    (case err of
       FeRemote code \<Rightarrow>
         (case code of
            NotFound \<Rightarrow> 2 | NoSuchExport \<Rightarrow> 2
          | PermissionDenied \<Rightarrow> 13
          | AlreadyExists \<Rightarrow> 17
          | NotADirectory \<Rightarrow> 20
          | IsADirectory \<Rightarrow> 21
          | NotEmpty \<Rightarrow> 39
          | InvalidPath \<Rightarrow> 22
          | BadHandle \<Rightarrow> 9
          | ReadOnly \<Rightarrow> 30
          | WouldBlock \<Rightarrow> 11
          | CrossDevice \<Rightarrow> 18
          | VersionMismatch \<Rightarrow> 95
          | _ \<Rightarrow> 5)
     | FeTransport _ \<Rightarrow> 5)"

section \<open>Handshake\<close>

datatype Incoming = Got Frame | BadFrame ProtoError | EndOfStream

text \<open>What the server answers to the first frame, and the agreed version with whether to compress.\<close>

definition server_handshake :: "u16 \<Rightarrow> string \<Rightarrow> Incoming \<Rightarrow> Frame list \<times> (TransportError + u16 \<times> bool)" where
  "server_handshake min_proto server_name inc =
    (case inc of
       Got (FHello proto_min proto_max client) \<Rightarrow>
         (let lo = max (max proto_min PROTO_VERSION_MIN) min_proto;
              hi = min proto_max PROTO_VERSION_MAX
          in if lo > hi then ([FResponse 0 (Inl VersionMismatch)], Inl TeHandshake)
             else ([FHelloAck hi server_name], Inr (hi, hi \<ge> 3)))
     | Got _ \<Rightarrow> ([], Inl TeHandshake)
     | BadFrame e \<Rightarrow> ([], Inl (TeProto e))
     | EndOfStream \<Rightarrow> ([], Inl TeClosed))"

definition client_hello :: "string \<Rightarrow> Frame" where
  "client_hello client_name = FHello PROTO_VERSION_MIN PROTO_VERSION_MAX client_name"

definition client_handshake :: "Incoming \<Rightarrow> TransportError + u16 \<times> string \<times> bool" where
  "client_handshake inc =
    (case inc of
       Got (FHelloAck proto server) \<Rightarrow>
         if \<not> (PROTO_VERSION_MIN \<le> proto \<and> proto \<le> PROTO_VERSION_MAX) then Inl TeHandshake
         else Inr (proto, server, proto \<ge> 3)
     | Got _ \<Rightarrow> Inl TeHandshake
     | BadFrame e \<Rightarrow> Inl (TeProto e)
     | EndOfStream \<Rightarrow> Inl TeClosed)"

section \<open>The client's table of pending requests\<close>

type_synonym Reply = "ErrorCode + Response"

text \<open>The reader task serves frames, then announces the end of the stream, then drops every waiter.\<close>

datatype ReaderPhase = Running | Flagged | Cleared

text \<open>How far a call of \<open>request\<close> is: past the first check, entry parked, second check passed, frame sent.\<close>

datatype CallPc = PcChecked Request | PcInserted u64 Request | PcSending u64 Request | PcWaiting u64

text \<open>A waiter is the receiving end of a one-shot channel; \<open>mx_done\<close> and \<open>mx_pong\<close> hold what each one got,
  \<open>TeClosed\<close> when the sending end was dropped.\<close>

record Mux =
  mx_next_id :: u64
  mx_inflight :: "(u64, nat) hmap"
  mx_pings :: "(u64, nat) hmap"
  mx_phase :: ReaderPhase
  mx_calls :: "(nat, CallPc) hmap"
  mx_count :: nat
  mx_done :: "(nat, TransportError + Reply) hmap"
  mx_pong :: "(nat, TransportError + unit) hmap"
  mx_events :: "FsEvent list list"

definition mux_new :: Mux where
  "mux_new = \<lparr> mx_next_id = 1, mx_inflight = [], mx_pings = [], mx_phase = Running, mx_calls = [], mx_count = 0,
               mx_done = [], mx_pong = [], mx_events = [] \<rparr>"

definition is_closed :: "Mux \<Rightarrow> bool" where
  "is_closed mx = (mx_phase mx \<noteq> Running)"

text \<open>\<open>begin_request\<close>, one definition per stretch that runs undisturbed by the reader.\<close>

definition call_enter :: "Request \<Rightarrow> Mux \<Rightarrow> (TransportError + nat) \<times> Mux" where
  "call_enter body mx =
    (if is_closed mx then (Inl TeClosed, mx)
     else (Inr (mx_count mx), mx\<lparr>mx_count := Suc (mx_count mx), mx_calls := hm_put (mx_count mx) (PcChecked body) (mx_calls mx)\<rparr>))"

definition call_insert :: "nat \<Rightarrow> Request \<Rightarrow> Mux \<Rightarrow> Mux" where
  "call_insert w body mx =
    mx\<lparr>mx_next_id := mx_next_id mx + 1, mx_inflight := hm_put (mx_next_id mx) w (mx_inflight mx),
       mx_calls := hm_put w (PcInserted (mx_next_id mx) body) (mx_calls mx)\<rparr>"

text \<open>Removing the entry and returning an error.\<close>

definition call_fail :: "nat \<Rightarrow> u64 \<Rightarrow> TransportError \<Rightarrow> Mux \<Rightarrow> Mux" where
  "call_fail w i e mx =
    mx\<lparr>mx_inflight := hm_del i (mx_inflight mx), mx_calls := hm_del w (mx_calls mx), mx_done := hm_put w (Inl e) (mx_done mx)\<rparr>"

definition call_recheck :: "nat \<Rightarrow> u64 \<Rightarrow> Request \<Rightarrow> Mux \<Rightarrow> Mux" where
  "call_recheck w i body mx =
    (if is_closed mx then call_fail w i TeClosed mx
     else mx\<lparr>mx_calls := hm_put w (PcSending i body) (mx_calls mx)\<rparr>)"

definition call_send :: "bool \<Rightarrow> nat \<Rightarrow> u64 \<Rightarrow> Request \<Rightarrow> Mux \<Rightarrow> Frame list \<times> Mux" where
  "call_send sent w i body mx =
    (if sent then ([FRequest i body], mx\<lparr>mx_calls := hm_put w (PcWaiting i) (mx_calls mx)\<rparr>)
     else ([], call_fail w i TeClosed mx))"

text \<open>A deadline or a peer that stopped answering pings ends the wait, unless the one-shot is already served.\<close>

definition call_timeout :: "nat \<Rightarrow> u64 \<Rightarrow> Mux \<Rightarrow> Mux" where
  "call_timeout w i mx = (if hm_get (mx_done mx) w = None then call_fail w i TeTimeout mx else mx)"

definition ping :: "bool \<Rightarrow> Mux \<Rightarrow> Frame list \<times> Mux" where
  "ping sent mx =
    (let nonce = mx_next_id mx; w = mx_count mx;
         mx1 = mx\<lparr>mx_next_id := nonce + 1, mx_count := Suc w, mx_pings := hm_put nonce w (mx_pings mx)\<rparr>
     in if sent then ([FPing nonce], mx1)
        else ([], mx1\<lparr>mx_pings := hm_del nonce (mx_pings mx1), mx_pong := hm_put w (Inl TeClosed) (mx_pong mx1)\<rparr>))"

text \<open>The reader task: one frame, and the two steps after the end of the stream.\<close>

definition reader_frame :: "Frame \<Rightarrow> Mux \<Rightarrow> Mux" where
  "reader_frame fr mx =
    (case fr of
       FResponse i body \<Rightarrow>
         (case hm_get (mx_inflight mx) i of
            Some w \<Rightarrow> mx\<lparr>mx_inflight := hm_del i (mx_inflight mx), mx_done := hm_put w (Inr body) (mx_done mx)\<rparr>
          | None \<Rightarrow> mx)
     | FEvents batch \<Rightarrow> mx\<lparr>mx_events := mx_events mx @ [batch]\<rparr>
     | FPong nonce \<Rightarrow>
         (case hm_get (mx_pings mx) nonce of
            Some w \<Rightarrow> mx\<lparr>mx_pings := hm_del nonce (mx_pings mx), mx_pong := hm_put w (Inr ()) (mx_pong mx)\<rparr>
          | None \<Rightarrow> mx)
     | _ \<Rightarrow> mx)"

definition reader_flag :: "Mux \<Rightarrow> Mux" where
  "reader_flag mx = mx\<lparr>mx_phase := Flagged\<rparr>"

definition drop_all :: "(u64, nat) hmap \<Rightarrow> (nat, TransportError + 'a) hmap \<Rightarrow> (nat, TransportError + 'a) hmap" where
  "drop_all waiters outcomes = foldl (\<lambda>m (_, w). hm_put w (Inl TeClosed) m) outcomes waiters"

definition reader_clear :: "Mux \<Rightarrow> Mux" where
  "reader_clear mx =
    mx\<lparr>mx_phase := Cleared, mx_inflight := [], mx_pings := [],
       mx_done := drop_all (mx_inflight mx) (mx_done mx), mx_pong := drop_all (mx_pings mx) (mx_pong mx)\<rparr>"

section \<open>The server's loop\<close>

datatype ServeEffect = SpawnHandler u64 Request | SendPong u64 | IgnoreFrame

fun serve_frame :: "Frame \<Rightarrow> ServeEffect" where
  "serve_frame (FRequest i body) = SpawnHandler i body"
| "serve_frame (FPing nonce) = SendPong nonce"
| "serve_frame _ = IgnoreFrame"

text \<open>A connection: the mux, the frames under way in each direction and the handler tasks running.\<close>

record Link =
  ln_mux :: Mux
  ln_up :: "Frame list"
  ln_down :: "Frame list"
  ln_tasks :: "(u64 \<times> Request) list"

definition link_new :: Link where
  "link_new = \<lparr> ln_mux = mux_new, ln_up = [], ln_down = [], ln_tasks = [] \<rparr>"

datatype LinkAct =
    LaEnter Request | LaInsert u64 Request nat | LaRecheck nat | LaSend nat bool | LaTimeout nat | LaPing bool
  | LaServe | LaAnswer u64 Request Reply | LaPush "FsEvent list" | LaDeliver | LaFlag | LaClear

text \<open>One step of one of the tasks; None when that step is not enabled.\<close>

fun link_next :: "LinkAct \<Rightarrow> Link \<Rightarrow> Link option" where
  "link_next (LaEnter body) l = Some (l\<lparr>ln_mux := snd (call_enter body (ln_mux l))\<rparr>)"
| "link_next (LaInsert i body w) l =
    (if hm_get (mx_calls (ln_mux l)) w = Some (PcChecked body) \<and> i = mx_next_id (ln_mux l)
     then Some (l\<lparr>ln_mux := call_insert w body (ln_mux l)\<rparr>) else None)"
| "link_next (LaRecheck w) l =
    (case hm_get (mx_calls (ln_mux l)) w of
       Some (PcInserted i body) \<Rightarrow> Some (l\<lparr>ln_mux := call_recheck w i body (ln_mux l)\<rparr>)
     | _ \<Rightarrow> None)"
| "link_next (LaSend w sent) l =
    (case hm_get (mx_calls (ln_mux l)) w of
       Some (PcSending i body) \<Rightarrow>
         (let (frames, mx) = call_send sent w i body (ln_mux l) in Some (l\<lparr>ln_mux := mx, ln_up := ln_up l @ frames\<rparr>))
     | _ \<Rightarrow> None)"
| "link_next (LaTimeout w) l =
    (case hm_get (mx_calls (ln_mux l)) w of
       Some (PcWaiting i) \<Rightarrow> Some (l\<lparr>ln_mux := call_timeout w i (ln_mux l)\<rparr>)
     | _ \<Rightarrow> None)"
| "link_next (LaPing sent) l =
    (let (frames, mx) = ping sent (ln_mux l) in Some (l\<lparr>ln_mux := mx, ln_up := ln_up l @ frames\<rparr>))"
| "link_next LaServe l =
    (case ln_up l of
       [] \<Rightarrow> None
     | fr # up \<Rightarrow> Some
         (case serve_frame fr of
            SpawnHandler i body \<Rightarrow> l\<lparr>ln_up := up, ln_tasks := (i, body) # ln_tasks l\<rparr>
          | SendPong nonce \<Rightarrow> l\<lparr>ln_up := up, ln_down := ln_down l @ [FPong nonce]\<rparr>
          | IgnoreFrame \<Rightarrow> l\<lparr>ln_up := up\<rparr>))"
| "link_next (LaAnswer i body reply) l =
    (if (i, body) \<in> set (ln_tasks l)
     then Some (l\<lparr>ln_tasks := removeAll (i, body) (ln_tasks l), ln_down := ln_down l @ [FResponse i reply]\<rparr>)
     else None)"
| "link_next (LaPush batch) l = Some (l\<lparr>ln_down := ln_down l @ [FEvents batch]\<rparr>)"
| "link_next LaDeliver l =
    (case ln_down l of
       fr # down \<Rightarrow> if mx_phase (ln_mux l) = Running
                    then Some (l\<lparr>ln_mux := reader_frame fr (ln_mux l), ln_down := down\<rparr>) else None
     | [] \<Rightarrow> None)"
| "link_next LaFlag l =
    (if mx_phase (ln_mux l) = Running then Some (l\<lparr>ln_mux := reader_flag (ln_mux l)\<rparr>) else None)"
| "link_next LaClear l =
    (if mx_phase (ln_mux l) = Flagged then Some (l\<lparr>ln_mux := reader_clear (ln_mux l)\<rparr>) else None)"

inductive link_run :: "Link \<Rightarrow> LinkAct list \<Rightarrow> Link \<Rightarrow> bool" where
  lr_nil: "link_run l [] l"
| lr_step: "link_run l acts l' \<Longrightarrow> link_next a l' = Some l'' \<Longrightarrow> link_run l (acts @ [a]) l''"

fun link_exec :: "LinkAct list \<Rightarrow> Link \<Rightarrow> Link option" where
  "link_exec [] l = Some l"
| "link_exec (a # acts) l = Option.bind (link_next a l) (link_exec acts)"

section \<open>Laws\<close>

text \<open>The two ends agree on a version exactly when their ranges (and the listener's minimum) overlap:
  then both take the highest common one and both compress or neither does; otherwise the client sees the
  refusal.\<close>

theorem handshake_agrees:
  assumes "server_handshake min_proto name (Got (FHello cmin cmax client)) = (frames, res)"
  shows "(case res of
      Inr (v, z) \<Rightarrow> frames = [FHelloAck v name] \<and> cmin \<le> v \<and> v \<le> cmax \<and> min_proto \<le> v
        \<and> client_handshake (Got (FHelloAck v name)) = Inr (v, name, z)
        \<and> (\<forall>u. cmin \<le> u \<and> u \<le> cmax \<and> PROTO_VERSION_MIN \<le> u \<and> u \<le> PROTO_VERSION_MAX \<longrightarrow> u \<le> v)
    | Inl e \<Rightarrow> frames = [FResponse 0 (Inl VersionMismatch)]
        \<and> client_handshake (Got (FResponse 0 (Inl VersionMismatch))) = Inl TeHandshake
        \<and> \<not> (\<exists>u. cmin \<le> u \<and> u \<le> cmax \<and> min_proto \<le> u \<and> PROTO_VERSION_MIN \<le> u \<and> u \<le> PROTO_VERSION_MAX))"
proof (cases "max (max cmin PROTO_VERSION_MIN) min_proto > min cmax PROTO_VERSION_MAX")
  case True
  have "\<not> (cmin \<le> u \<and> u \<le> cmax \<and> min_proto \<le> u \<and> PROTO_VERSION_MIN \<le> u \<and> u \<le> PROTO_VERSION_MAX)" for u
  proof
    assume u: "cmin \<le> u \<and> u \<le> cmax \<and> min_proto \<le> u \<and> PROTO_VERSION_MIN \<le> u \<and> u \<le> PROTO_VERSION_MAX"
    then have "max (max cmin PROTO_VERSION_MIN) min_proto \<le> u" "u \<le> min cmax PROTO_VERSION_MAX"
      by (simp_all only: max.bounded_iff min.bounded_iff)
    then show False using True by (meson leD order_trans)
  qed
  moreover have "frames = [FResponse 0 (Inl VersionMismatch)]" "res = Inl TeHandshake"
    using assms True by (simp_all only: server_handshake_def Let_def Incoming.case Frame.case if_True prod.inject)
  ultimately show ?thesis by (simp only: client_handshake_def Incoming.case Frame.case sum.case simp_thms)
next
  case False
  then have le: "max (max cmin PROTO_VERSION_MIN) min_proto \<le> min cmax PROTO_VERSION_MAX" by (simp only: not_less)
  let ?v = "min cmax PROTO_VERSION_MAX"
  have "frames = [FHelloAck ?v name]" "res = Inr (?v, ?v \<ge> 3)"
    using assms False by (simp_all only: server_handshake_def Let_def Incoming.case Frame.case if_False prod.inject)
  moreover have "cmin \<le> ?v" "PROTO_VERSION_MIN \<le> ?v" "min_proto \<le> ?v"
    using le by (simp_all only: max.bounded_iff)
  moreover have "?v \<le> cmax" "?v \<le> PROTO_VERSION_MAX" by (rule min.cobounded1, rule min.cobounded2)
  moreover have "\<forall>u. cmin \<le> u \<and> u \<le> cmax \<and> PROTO_VERSION_MIN \<le> u \<and> u \<le> PROTO_VERSION_MAX \<longrightarrow> u \<le> ?v"
    unfolding min.bounded_iff by blast
  ultimately show ?thesis
    by (simp only: client_handshake_def Incoming.case Frame.case sum.case prod.case simp_thms if_False)
qed

theorem handshake_agrees_witness:
  "server_handshake 3 ''s'' (Got (FHello 1 9 ''c'')) = ([FHelloAck 4 ''s''], Inr (4, True))
   \<and> client_handshake (Got (FHelloAck 4 ''s'')) = Inr (4, ''s'', True)
   \<and> \<not> (\<exists>u. (1::u16) \<le> u \<and> u \<le> 2 \<and> 3 \<le> u \<and> PROTO_VERSION_MIN \<le> u \<and> u \<le> PROTO_VERSION_MAX)"
proof -
  have ok: "server_handshake 3 ''s'' (Got (FHello 1 9 ''c'')) = ([FHelloAck 4 ''s''], Inr (4, True))" by code_simp
  have no: "server_handshake 3 ''s'' (Got (FHello 1 2 ''c'')) = ([FResponse 0 (Inl VersionMismatch)], Inl TeHandshake)" by code_simp
  show ?thesis using handshake_agrees [OF ok] handshake_agrees [OF no] ok by simp
qed

section \<open>Requests and replies\<close>

definition issued :: "LinkAct list \<Rightarrow> u64 \<Rightarrow> Request \<Rightarrow> nat \<Rightarrow> bool" where
  "issued acts i body w = (LaInsert i body w \<in> set acts)"

definition asked :: "LinkAct list \<Rightarrow> u64 \<Rightarrow> Request \<Rightarrow> bool" where
  "asked acts i body = (\<exists>w. issued acts i body w)"

definition answered :: "LinkAct list \<Rightarrow> u64 \<Rightarrow> Reply \<Rightarrow> bool" where
  "answered acts i reply = (\<exists>body. asked acts i body \<and> LaAnswer i body reply \<in> set acts)"

definition got_own :: "LinkAct list \<Rightarrow> nat \<Rightarrow> Reply \<Rightarrow> bool" where
  "got_own acts w reply = (\<exists>i body. issued acts i body w \<and> LaAnswer i body reply \<in> set acts)"

text \<open>Ids were handed out once, below the counter.\<close>

definition ids_ok :: "LinkAct list \<Rightarrow> Mux \<Rightarrow> bool" where
  "ids_ok acts mx =
    (unat (mx_next_id mx) \<le> Suc (length acts)
     \<and> (\<forall>i body w. issued acts i body w \<longrightarrow> unat i < unat (mx_next_id mx))
     \<and> (\<forall>i body w body' w'. issued acts i body w \<longrightarrow> issued acts i body' w' \<longrightarrow> body = body' \<and> w = w'))"

text \<open>The id and request a call's program counter speaks of, and whether it has passed the second check.\<close>

fun pc_issued :: "LinkAct list \<Rightarrow> nat \<Rightarrow> CallPc \<Rightarrow> bool" where
  "pc_issued acts w (PcChecked body) = True"
| "pc_issued acts w (PcInserted i body) = issued acts i body w"
| "pc_issued acts w (PcSending i body) = issued acts i body w"
| "pc_issued acts w (PcWaiting i) = (\<exists>body. issued acts i body w)"

fun pc_id :: "CallPc \<Rightarrow> u64 option" where
  "pc_id (PcChecked body) = None"
| "pc_id (PcInserted i body) = Some i"
| "pc_id (PcSending i body) = Some i"
| "pc_id (PcWaiting i) = Some i"

fun committed :: "CallPc \<Rightarrow> bool" where
  "committed (PcSending i body) = True"
| "committed (PcWaiting i) = True"
| "committed _ = False"

definition routed :: "LinkAct list \<Rightarrow> Link \<Rightarrow> bool" where
  "routed acts l =
    ((\<forall>i w. hm_get (mx_inflight (ln_mux l)) i = Some w \<longrightarrow> (\<exists>body. issued acts i body w))
     \<and> (\<forall>w pc. hm_get (mx_calls (ln_mux l)) w = Some pc \<longrightarrow> pc_issued acts w pc)
     \<and> (\<forall>i body. FRequest i body \<in> set (ln_up l) \<longrightarrow> asked acts i body)
     \<and> (\<forall>i body. (i, body) \<in> set (ln_tasks l) \<longrightarrow> asked acts i body)
     \<and> (\<forall>i reply. FResponse i reply \<in> set (ln_down l) \<longrightarrow> answered acts i reply)
     \<and> (\<forall>w reply. hm_get (mx_done (ln_mux l)) w = Some (Inr reply) \<longrightarrow> got_own acts w reply))"

text \<open>No call is orphaned: one that parked an entry is served or still in the table, every entry belongs to a
  live call, and once the table was cleared only calls that still have to make the second check are in it.\<close>

definition no_orphan :: "Mux \<Rightarrow> bool" where
  "no_orphan mx =
    ((\<forall>w pc. hm_get (mx_calls mx) w = Some pc \<longrightarrow> w < mx_count mx)
     \<and> (\<forall>w pc i. hm_get (mx_calls mx) w = Some pc \<longrightarrow> pc_id pc = Some i \<longrightarrow>
        hm_get (mx_done mx) w \<noteq> None \<or> hm_get (mx_inflight mx) i = Some w)
     \<and> (\<forall>i w. hm_get (mx_inflight mx) i = Some w \<longrightarrow>
        (\<exists>pc. hm_get (mx_calls mx) w = Some pc \<and> pc_id pc = Some i \<and> (mx_phase mx = Cleared \<longrightarrow> \<not> committed pc))))"

lemma issued_snoc [simp]:
  "issued (acts @ [a]) i body w \<longleftrightarrow> issued acts i body w \<or> a = LaInsert i body w"
  by (auto simp: issued_def)

lemma pc_issued_snoc [intro]: "pc_issued acts w pc \<Longrightarrow> pc_issued (acts @ [a]) w pc"
  by (cases pc) auto

lemma history_snoc [intro]:
  "asked acts i body \<Longrightarrow> asked (acts @ [a]) i body"
  "answered acts i reply \<Longrightarrow> answered (acts @ [a]) i reply"
  "got_own acts w reply \<Longrightarrow> got_own (acts @ [a]) w reply"
  by (auto simp: asked_def answered_def got_own_def)

lemma history_new [simp]:
  "asked (acts @ [LaInsert i body w]) i body"
  "asked acts i body \<Longrightarrow> answered (acts @ [LaAnswer i body reply]) i reply"
  "issued acts i body w \<Longrightarrow> asked acts i body"
  by (auto simp: asked_def answered_def)

lemma get_drop_all [hmap_simps]:
  "hm_get (drop_all xs d) w = (if w \<in> snd ` set xs then Some (Inl TeClosed) else hm_get d w)"
  unfolding drop_all_def by (induction xs arbitrary: d) (auto simp: hmap_simps split: if_splits)

lemma get_in_snd: "hm_get m i = Some w \<Longrightarrow> w \<in> snd ` set m"
  by (metis image_eqI map_of_SomeD snd_conv)

lemmas mux_defs = call_enter_def call_insert_def call_fail_def call_recheck_def call_send_def call_timeout_def
  ping_def reader_frame_def reader_flag_def reader_clear_def Let_def

lemmas link_splits = option.splits if_splits list.splits CallPc.splits ServeEffect.splits prod.splits

lemma serve_frame_spawn [simp]: "serve_frame fr = SpawnHandler i body \<longleftrightarrow> fr = FRequest i body"
  by (cases fr) auto

lemma mux_next_id:
  "mx_next_id (snd (call_enter body mx)) = mx_next_id mx" "mx_next_id (call_fail w i e mx) = mx_next_id mx"
  "mx_next_id (call_recheck w i body mx) = mx_next_id mx" "mx_next_id (snd (call_send sent w i body mx)) = mx_next_id mx"
  "mx_next_id (call_timeout w i mx) = mx_next_id mx" "mx_next_id (reader_frame fr mx) = mx_next_id mx"
  "mx_next_id (reader_flag mx) = mx_next_id mx" "mx_next_id (reader_clear mx) = mx_next_id mx"
  "mx_next_id (call_insert w body mx) = mx_next_id mx + 1" "mx_next_id (snd (ping sent mx)) = mx_next_id mx + 1"
  by (auto simp: mux_defs split: Frame.splits option.splits)

lemma ids_ok_step:
  assumes "link_next a l = Some l'" "ids_ok acts (ln_mux l)" "Suc (Suc (length acts)) < 2 ^ 64"
  shows "ids_ok (acts @ [a]) (ln_mux l')"
proof -
  have nx: "mx_next_id (ln_mux l') = (case a of LaInsert _ _ _ \<Rightarrow> mx_next_id (ln_mux l) + 1
      | LaPing _ \<Rightarrow> mx_next_id (ln_mux l) + 1 | _ \<Rightarrow> mx_next_id (ln_mux l))"
    using assms(1) mux_next_id
    by (cases a) (auto split: link_splits simp: case_prod_beta Let_def)
  have new: "a = LaInsert i body w \<Longrightarrow> i = mx_next_id (ln_mux l)" for i body w using assms(1) by (auto split: if_splits)
  have le: "unat (mx_next_id (ln_mux l)) \<le> Suc (length acts)" using assms(2) by (simp add: ids_ok_def)
  then have suc: "unat (mx_next_id (ln_mux l) + 1) = Suc (unat (mx_next_id (ln_mux l)))"
    using assms(3) by (simp add: unat_word_ariths)
  show ?thesis unfolding ids_ok_def
  proof (intro conjI allI impI)
    show "unat (mx_next_id (ln_mux l')) \<le> Suc (length (acts @ [a]))" using nx suc le by (auto split: LinkAct.splits)
    show "unat i < unat (mx_next_id (ln_mux l'))" if "issued (acts @ [a]) i body w" for i body w
      using that assms(2) nx suc new unfolding ids_ok_def by (auto split: LinkAct.splits) (metis less_SucI)+
    fix i body w body' w'
    assume "issued (acts @ [a]) i body w" "issued (acts @ [a]) i body' w'"
    then show "body = body'" "w = w'" using assms(2) new unfolding ids_ok_def by (auto) (metis less_irrefl)+
  qed
qed

lemma routed_reader_frame:
  assumes "routed acts l" "ids_ok acts (ln_mux l)" "ln_down l = fr # down"
  shows "routed acts (l\<lparr>ln_mux := reader_frame fr (ln_mux l), ln_down := down\<rparr>)"
proof (cases "\<exists>i reply w. fr = FResponse i reply \<and> hm_get (mx_inflight (ln_mux l)) i = Some w")
  case True
  then obtain i reply w where r: "fr = FResponse i reply" "hm_get (mx_inflight (ln_mux l)) i = Some w" by blast
  obtain body where "issued acts i body w" using assms(1) r(2) unfolding routed_def by blast
  moreover have "answered acts i reply" using assms(1,3) r(1) unfolding routed_def by auto
  ultimately have "got_own acts w reply"
    using assms(2) unfolding ids_ok_def answered_def asked_def got_own_def by metis
  then show ?thesis using assms(1,3) r
    unfolding routed_def by (auto simp: reader_frame_def hmap_simps split: if_splits)
next
  case False
  then have "mx_inflight (reader_frame fr (ln_mux l)) = mx_inflight (ln_mux l)"
    "mx_calls (reader_frame fr (ln_mux l)) = mx_calls (ln_mux l)"
    "mx_done (reader_frame fr (ln_mux l)) = mx_done (ln_mux l)"
    by (auto simp: reader_frame_def split: Frame.splits option.splits)
  then show ?thesis using assms(1,3) unfolding routed_def by auto
qed

lemma routed_snoc: "routed acts l \<Longrightarrow> routed (acts @ [a]) l"
  unfolding routed_def by (auto; blast)

lemma routed_step:
  assumes "link_next a l = Some l'" "routed acts l" "ids_ok acts (ln_mux l)"
  shows "routed (acts @ [a]) l'"
proof (cases a)
  case LaDeliver
  then show ?thesis using assms routed_reader_frame routed_snoc by (auto split: link_splits)
next
  case (LaInsert i body w)
  then show ?thesis using assms(1,2) unfolding routed_def
    by (auto simp: call_insert_def hmap_simps split: if_splits) blast+
next
  case (LaAnswer i body reply)
  then have "asked acts i body" "l' = l\<lparr>ln_tasks := removeAll (i, body) (ln_tasks l), ln_down := ln_down l @ [FResponse i reply]\<rparr>"
    using assms(1,2) by (auto simp: routed_def split: if_splits)
  then show ?thesis using routed_snoc [OF assms(2), of a] LaAnswer unfolding routed_def by auto
next
  case LaServe
  then show ?thesis using assms(1) routed_snoc [OF assms(2), of a] unfolding routed_def
    by (auto simp: hmap_simps split: link_splits)
next
  case (LaRecheck w)
  then obtain i body where pc: "hm_get (mx_calls (ln_mux l)) w = Some (PcInserted i body)"
    and l': "l' = l\<lparr>ln_mux := call_recheck w i body (ln_mux l)\<rparr>" using assms(1) by (auto split: link_splits)
  then have "issued acts i body w" using assms(2) unfolding routed_def by fastforce
  then show ?thesis using l' routed_snoc [OF assms(2), of a] unfolding routed_def
    by (auto simp: call_recheck_def call_fail_def hmap_simps split: if_splits)
next
  case (LaSend w sent)
  then obtain i body where pc: "hm_get (mx_calls (ln_mux l)) w = Some (PcSending i body)"
    and l': "l' = l\<lparr>ln_mux := snd (call_send sent w i body (ln_mux l)), ln_up := ln_up l @ fst (call_send sent w i body (ln_mux l))\<rparr>"
    using assms(1) by (auto split: link_splits)
  then have "issued acts i body w" using assms(2) unfolding routed_def by fastforce
  then show ?thesis using l' routed_snoc [OF assms(2), of a] unfolding routed_def
    by (auto simp: call_send_def call_fail_def hmap_simps split: if_splits)
qed (use assms(1) routed_snoc [OF assms(2), of a] in
      \<open>auto simp: routed_def mux_defs hmap_simps split: link_splits\<close>)+

lemma same_call:
  assumes "routed acts l" "ids_ok acts (ln_mux l)" "hm_get (mx_calls (ln_mux l)) w = Some pc"
    "hm_get (mx_calls (ln_mux l)) w' = Some pc'" "pc_id pc = Some i" "pc_id pc' = Some i"
  shows "w' = w"
proof -
  have "pc_issued acts w pc" "pc_issued acts w' pc'" using assms(1,3,4) unfolding routed_def by blast+
  then obtain b b' where "issued acts i b w" "issued acts i b' w'" using assms(5,6) by (cases pc; cases pc') auto
  then show ?thesis using assms(2) unfolding ids_ok_def by blast
qed

lemma no_orphanI:
  assumes "\<And>w pc. hm_get (mx_calls mx) w = Some pc \<Longrightarrow> w < mx_count mx"
    and "\<And>w pc i. hm_get (mx_calls mx) w = Some pc \<Longrightarrow> pc_id pc = Some i \<Longrightarrow>
        hm_get (mx_done mx) w \<noteq> None \<or> hm_get (mx_inflight mx) i = Some w"
    and "\<And>i w. hm_get (mx_inflight mx) i = Some w \<Longrightarrow>
        \<exists>pc. hm_get (mx_calls mx) w = Some pc \<and> pc_id pc = Some i \<and> (mx_phase mx = Cleared \<longrightarrow> \<not> committed pc)"
  shows "no_orphan mx"
  using assms unfolding no_orphan_def by blast

lemma no_orphanD:
  assumes "no_orphan mx"
  shows "hm_get (mx_calls mx) w = Some pc \<Longrightarrow> w < mx_count mx"
    and "hm_get (mx_calls mx) w = Some pc \<Longrightarrow> pc_id pc = Some i \<Longrightarrow>
        hm_get (mx_done mx) w = None \<Longrightarrow> hm_get (mx_inflight mx) i = Some w"
    and "hm_get (mx_inflight mx) i = Some w \<Longrightarrow>
        \<exists>pc. hm_get (mx_calls mx) w = Some pc \<and> pc_id pc = Some i \<and> (mx_phase mx = Cleared \<longrightarrow> \<not> committed pc)"
  using assms unfolding no_orphan_def by blast+

text \<open>Removing an entry together with its call, or serving it, keeps the table sound.\<close>

lemma no_orphan_fail:
  assumes "no_orphan mx" "hm_get (mx_calls mx) w = Some pc" "pc_id pc = Some i"
    and uniq: "\<And>w' pc'. hm_get (mx_calls mx) w' = Some pc' \<Longrightarrow> pc_id pc' = Some i \<Longrightarrow> w' = w"
  shows "no_orphan (call_fail w i e mx)"
proof (rule no_orphanI)
  fix j v assume "hm_get (mx_inflight (call_fail w i e mx)) j = Some v"
  then have j: "hm_get (mx_inflight mx) j = Some v" "j \<noteq> i" by (auto simp: call_fail_def hmap_simps split: if_splits)
  then have "v \<noteq> w" using no_orphanD(3) [OF assms(1) j(1)] assms(2,3) by auto
  then show "\<exists>pc. hm_get (mx_calls (call_fail w i e mx)) v = Some pc \<and> pc_id pc = Some j
      \<and> (mx_phase (call_fail w i e mx) = Cleared \<longrightarrow> \<not> committed pc)"
    using no_orphanD(3) [OF assms(1) j(1)] by (auto simp: call_fail_def hmap_simps)
qed (use assms(1) uniq in \<open>auto simp: no_orphan_def call_fail_def hmap_simps split: if_splits\<close>)

lemma no_orphan_frame: "no_orphan mx \<Longrightarrow> no_orphan (reader_frame fr mx)"
  by (cases fr; auto simp: no_orphan_def reader_frame_def hmap_simps split: option.splits) (metis option.inject)+

lemma no_orphan_clear: "no_orphan mx \<Longrightarrow> no_orphan (reader_clear mx)"
  by (auto simp: no_orphan_def reader_clear_def hmap_simps) (metis get_in_snd)

lemma no_orphan_insert:
  assumes "no_orphan mx" "hm_get (mx_calls mx) w = Some (PcChecked body)"
    and fresh: "\<And>w' pc'. hm_get (mx_calls mx) w' = Some pc' \<Longrightarrow> pc_id pc' \<noteq> Some (mx_next_id mx)"
  shows "no_orphan (call_insert w body mx)"
proof (rule no_orphanI)
  fix j v assume j: "hm_get (mx_inflight (call_insert w body mx)) j = Some v"
  show "\<exists>pc. hm_get (mx_calls (call_insert w body mx)) v = Some pc \<and> pc_id pc = Some j
      \<and> (mx_phase (call_insert w body mx) = Cleared \<longrightarrow> \<not> committed pc)"
  proof (cases "j = mx_next_id mx")
    case False
    then have j': "hm_get (mx_inflight mx) j = Some v" using j by (simp add: call_insert_def hmap_simps)
    then have "v \<noteq> w" using no_orphanD(3) [OF assms(1) j'] assms(2) by auto
    then show ?thesis using no_orphanD(3) [OF assms(1) j'] by (auto simp: call_insert_def hmap_simps)
  qed (use j in \<open>auto simp: call_insert_def hmap_simps\<close>)
qed (use assms(1,2) fresh in \<open>auto simp: no_orphan_def call_insert_def hmap_simps split: if_splits\<close>)

lemma no_orphan_advance:
  assumes "no_orphan mx" "hm_get (mx_calls mx) w = Some pc" "pc_id pc' = pc_id pc"
    "mx_phase mx = Cleared \<Longrightarrow> committed pc' \<Longrightarrow> committed pc"
  shows "no_orphan (mx\<lparr>mx_calls := hm_put w pc' (mx_calls mx)\<rparr>)"
proof (rule no_orphanI)
  fix j v assume "hm_get (mx_inflight (mx\<lparr>mx_calls := hm_put w pc' (mx_calls mx)\<rparr>)) j = Some v"
  then show "\<exists>q. hm_get (mx_calls (mx\<lparr>mx_calls := hm_put w pc' (mx_calls mx)\<rparr>)) v = Some q \<and> pc_id q = Some j
      \<and> (mx_phase (mx\<lparr>mx_calls := hm_put w pc' (mx_calls mx)\<rparr>) = Cleared \<longrightarrow> \<not> committed q)"
    using no_orphanD(3) [OF assms(1), of j v] assms(2-4) by (cases "v = w") (auto simp: hmap_simps)
qed (use assms(1-3) in \<open>auto simp: no_orphan_def hmap_simps split: if_splits\<close>)

lemma no_orphan_step:
  assumes "link_next a l = Some l'" "no_orphan (ln_mux l)" "ids_ok acts (ln_mux l)" "routed acts l"
  shows "no_orphan (ln_mux l')"
proof -
  let ?mx = "ln_mux l"
  have fail: "no_orphan (call_fail w i e ?mx)" if "hm_get (mx_calls ?mx) w = Some pc" "pc_id pc = Some i" for w pc i e
    using no_orphan_fail [OF assms(2) that] same_call [OF assms(4,3) that(1) _ that(2)] by blast
  show ?thesis
  proof (cases a)
    case (LaEnter body)
    then have l': "ln_mux l' = snd (call_enter body ?mx)" using assms(1) by auto
    have "hm_get (mx_calls ?mx) (mx_count ?mx) = None" using no_orphanD(1) [OF assms(2)] by (metis less_irrefl option.exhaust)
    then show ?thesis using assms(2) unfolding l'
      by (auto simp: call_enter_def no_orphan_def hmap_simps less_SucI split: if_splits) fastforce
  next
    case (LaInsert i body w)
    then have pc: "hm_get (mx_calls ?mx) w = Some (PcChecked body)" and l': "ln_mux l' = call_insert w body ?mx"
      using assms(1) by (auto split: if_splits)
    have "pc_id pc' \<noteq> Some (mx_next_id ?mx)" if "hm_get (mx_calls ?mx) w' = Some pc'" for w' pc'
    proof
      assume "pc_id pc' = Some (mx_next_id ?mx)"
      moreover have "pc_issued acts w' pc'" using that assms(4) unfolding routed_def by blast
      ultimately obtain b where "issued acts (mx_next_id ?mx) b w'" by (cases pc') auto
      then show False using assms(3) unfolding ids_ok_def by (metis less_irrefl)
    qed
    then show ?thesis unfolding l' using no_orphan_insert [OF assms(2) pc] by blast
  next
    case (LaRecheck w)
    then obtain i body where pc: "hm_get (mx_calls ?mx) w = Some (PcInserted i body)"
      and l': "ln_mux l' = call_recheck w i body ?mx" using assms(1) by (auto split: link_splits)
    show ?thesis unfolding l' call_recheck_def
      using fail [OF pc] no_orphan_advance [OF assms(2) pc, of "PcSending i body"] by (auto simp: is_closed_def)
  next
    case (LaSend w sent)
    then obtain i body where pc: "hm_get (mx_calls ?mx) w = Some (PcSending i body)"
      and l': "ln_mux l' = snd (call_send sent w i body ?mx)" using assms(1) by (auto split: link_splits)
    show ?thesis unfolding l' call_send_def
      using fail [OF pc] no_orphan_advance [OF assms(2) pc, of "PcWaiting i"] by auto
  next
    case (LaTimeout w)
    then obtain i where pc: "hm_get (mx_calls ?mx) w = Some (PcWaiting i)"
      and l': "ln_mux l' = call_timeout w i ?mx" using assms(1) by (auto split: link_splits)
    show ?thesis unfolding l' call_timeout_def using fail [OF pc] assms(2) by auto
  next
    case (LaPing sent)
    then have "ln_mux l' = snd (ping sent ?mx)" using assms(1) by (auto simp: Let_def split: prod.splits)
    then show ?thesis using assms(2) by (auto simp: no_orphan_def ping_def Let_def less_SucI)
  next
    case LaFlag
    then show ?thesis using assms(1,2) by (auto simp: no_orphan_def reader_flag_def split: if_splits) blast
  qed (use assms(1,2) no_orphan_frame no_orphan_clear in \<open>auto split: link_splits\<close>)
qed

lemma link_run_invariant:
  assumes "link_run link_new acts l" "Suc (length acts) < 2 ^ 64"
  shows "ids_ok acts (ln_mux l) \<and> routed acts l \<and> no_orphan (ln_mux l)"
proof -
  have "link_run k acts l \<Longrightarrow> k = link_new \<Longrightarrow> Suc (length acts) < 2 ^ 64 \<Longrightarrow>
      ids_ok acts (ln_mux l) \<and> routed acts l \<and> no_orphan (ln_mux l)" for k
  proof (induction rule: link_run.induct)
    case (lr_nil l)
    then show ?case by (simp add: link_new_def mux_new_def ids_ok_def routed_def no_orphan_def issued_def)
  next
    case (lr_step l acts l' a l'')
    then show ?case using ids_ok_step [of a l' l'' acts] routed_step [of a l' l'' acts] no_orphan_step [of a l' l'' acts]
      by simp
  qed
  then show ?thesis using assms by blast
qed

lemma link_exec_run: "link_run l0 acts0 l \<Longrightarrow> link_exec acts l = Some l' \<Longrightarrow> link_run l0 (acts0 @ acts) l'"
proof (induction acts arbitrary: acts0 l)
  case (Cons a acts)
  then obtain l1 where "link_next a l = Some l1" "link_exec acts l1 = Some l'" by (auto simp: bind_eq_Some_conv)
  then show ?case using Cons.IH [of "acts0 @ [a]" l1] lr_step [OF Cons.prems(1)] by simp
qed simp

text \<open>C25: however calls, replies, pushed events, pings, timeouts and the loss of the connection interleave, a call
  that is handed a reply is handed the answer to its own request; and once the reader has dropped the waiters no
  call is orphaned: every one that sent its frame has an outcome, and one that parked its entry too late fails
  with Closed at its second check.\<close>

theorem replies_reach_their_request:
  assumes "link_run link_new acts l" "Suc (length acts) < 2 ^ 64"
  shows "(\<forall>w reply. hm_get (mx_done (ln_mux l)) w = Some (Inr reply) \<longrightarrow>
            (\<exists>i body. LaInsert i body w \<in> set acts \<and> LaAnswer i body reply \<in> set acts))
    \<and> (mx_phase (ln_mux l) = Cleared \<longrightarrow>
        (\<forall>w i. hm_get (mx_calls (ln_mux l)) w = Some (PcWaiting i) \<longrightarrow> hm_get (mx_done (ln_mux l)) w \<noteq> None)
      \<and> (\<forall>w i body. hm_get (mx_calls (ln_mux l)) w = Some (PcInserted i body) \<longrightarrow>
           (\<exists>l'. link_next (LaRecheck w) l = Some l' \<and> hm_get (mx_done (ln_mux l')) w = Some (Inl TeClosed)
              \<and> hm_get (mx_inflight (ln_mux l')) i = None)))"
proof (intro conjI impI allI)
  note inv = link_run_invariant [OF assms]
  show "\<exists>i body. LaInsert i body w \<in> set acts \<and> LaAnswer i body reply \<in> set acts"
    if "hm_get (mx_done (ln_mux l)) w = Some (Inr reply)" for w reply
    using inv that by (auto simp: routed_def got_own_def issued_def)
  show "hm_get (mx_done (ln_mux l)) w \<noteq> None"
    if "mx_phase (ln_mux l) = Cleared" "hm_get (mx_calls (ln_mux l)) w = Some (PcWaiting i)" for w i
  proof
    assume "hm_get (mx_done (ln_mux l)) w = None"
    then have "hm_get (mx_inflight (ln_mux l)) i = Some w" using no_orphanD(2) [OF _ that(2)] inv by simp
    then show False using no_orphanD(3) [of "ln_mux l" i w] inv that by auto
  qed
  show "\<exists>l'. link_next (LaRecheck w) l = Some l' \<and> hm_get (mx_done (ln_mux l')) w = Some (Inl TeClosed)
      \<and> hm_get (mx_inflight (ln_mux l')) i = None"
    if "mx_phase (ln_mux l) = Cleared" "hm_get (mx_calls (ln_mux l)) w = Some (PcInserted i body)" for w i body
    using that by (simp add: call_recheck_def call_fail_def is_closed_def hmap_simps)
qed

text \<open>Two calls answered in the opposite order, a third that parks its entry after the table was cleared.\<close>

definition demo_calls :: "LinkAct list" where
  "demo_calls = [LaEnter (ReqReadLink ''a''), LaInsert 1 (ReqReadLink ''a'') 0, LaRecheck 0, LaSend 0 True,
     LaEnter (ReqRmdir ''b''), LaInsert 2 (ReqRmdir ''b'') 1, LaRecheck 1, LaSend 1 True, LaServe, LaServe,
     LaAnswer 2 (ReqRmdir ''b'') (Inr RspOk), LaDeliver, LaEnter ReqStatfs,
     LaFlag, LaClear, LaInsert 3 ReqStatfs 2]"

definition demo_link :: Link where
  "demo_link = the (link_exec demo_calls link_new)"

theorem replies_reach_their_request_witness:
  "link_run link_new demo_calls demo_link
   \<and> hm_get (mx_done (ln_mux demo_link)) 1 = Some (Inr (Inr RspOk))
   \<and> (\<exists>i body. LaInsert i body 1 \<in> set demo_calls \<and> LaAnswer i body (Inr RspOk) \<in> set demo_calls)
   \<and> hm_get (mx_done (ln_mux demo_link)) 0 \<noteq> None
   \<and> (\<exists>l'. link_next (LaRecheck 2) demo_link = Some l' \<and> hm_get (mx_done (ln_mux l')) 2 = Some (Inl TeClosed)
        \<and> hm_get (mx_inflight (ln_mux l')) 3 = None)"
proof -
  have run: "link_exec demo_calls link_new = Some demo_link" by code_simp
  have phase: "mx_phase (ln_mux demo_link) = Cleared" by code_simp
  have got: "hm_get (mx_done (ln_mux demo_link)) 1 = Some (Inr (Inr RspOk))" by code_simp
  have waiting: "hm_get (mx_calls (ln_mux demo_link)) 0 = Some (PcWaiting 1)" by code_simp
  have late: "hm_get (mx_calls (ln_mux demo_link)) 2 = Some (PcInserted 3 ReqStatfs)" by code_simp
  have len: "Suc (length demo_calls) < 2 ^ 64" by (simp add: demo_calls_def)
  have link: "link_run link_new demo_calls demo_link" using link_exec_run [OF lr_nil run] by simp
  show ?thesis using replies_reach_their_request [OF link len] link phase got waiting late by blast
qed



end
