(* ===== verification/Sync_Engine.thy ===== *)
theory Sync_Engine
  imports Sync_Plan Transport
begin

text \<open>
  The sync runtime: \<^verbatim>\<open>crates/alloyfs-client/src/sync/{engine,transfer}.rs\<close> and the two tree walks of
  \<^verbatim>\<open>reconcile.rs\<close>.

  The engine is one sequential executor, so an operation is a function of the engine's state that returns an error
  or a value with the new state.  The local file system and the server are parameters: \<open>env\<close> has one field per
  library call and \<open>net_request\<close> for a round trip on the current connection.  Time is the field \<open>en_now\<close>
  (milliseconds, monotonic) and \<open>en_wall\<close> (seconds since the epoch), which the environment advances.
\<close>

section \<open>The world outside\<close>

text \<open>A directory as a walk sees it: each item with its \<open>lstat\<close>, whether following it gives a directory, and what
  reading that directory gives (None when it cannot be read).\<close>

datatype Item = ItemErr | Item string "Metadata option" bool "Item list option"

record ('f, 'n) env =
  lf_lstat :: "'f \<Rightarrow> abs_path \<Rightarrow> Metadata option"
  lf_modified :: "'f \<Rightarrow> abs_path \<Rightarrow> SystemTime option"
  lf_exists :: "'f \<Rightarrow> abs_path \<Rightarrow> bool"
  lf_read_dir :: "'f \<Rightarrow> abs_path \<Rightarrow> Item list option"
  lf_canonicalize :: "'f \<Rightarrow> abs_path \<Rightarrow> abs_path option"
  lf_read :: "'f \<Rightarrow> abs_path \<Rightarrow> bytes option"
  lf_read_to_string :: "'f \<Rightarrow> abs_path \<Rightarrow> string option"
  lf_create_dir_all :: "abs_path \<Rightarrow> 'f \<Rightarrow> bool \<times> 'f"
  lf_write :: "abs_path \<Rightarrow> bytes \<Rightarrow> 'f \<Rightarrow> bool \<times> 'f"
  lf_set_modified :: "abs_path \<Rightarrow> SystemTime \<Rightarrow> 'f \<Rightarrow> bool \<times> 'f"
  lf_rename :: "abs_path \<Rightarrow> abs_path \<Rightarrow> 'f \<Rightarrow> bool \<times> 'f"
  lf_copy :: "abs_path \<Rightarrow> abs_path \<Rightarrow> 'f \<Rightarrow> bool \<times> 'f"
  lf_remove_file :: "abs_path \<Rightarrow> 'f \<Rightarrow> bool \<times> 'f"
  lf_remove_dir_all :: "abs_path \<Rightarrow> 'f \<Rightarrow> bool \<times> 'f"
  net_request :: "Request \<Rightarrow> 'n \<Rightarrow> (TransportError + Reply) \<times> 'n"
  ev_globs :: glob_lib
  ev_to_json :: "SyncManifest \<Rightarrow> bytes option"
  ev_from_json :: "string \<Rightarrow> SyncManifest option"

section \<open>The engine's state\<close>

definition SUPPRESS_TTL :: nat where "SUPPRESS_TTL = 2000"

datatype Expect = Present u64 nat | Absent | DirThere

record Suppress =
  sp_expect :: Expect
  sp_at :: nat

datatype SyncOp = OpRemote "FsEvent list" | OpLocal "(RelPath \<times> EventKind) list" | OpReconcile

record SyncStats =
  ss_pulls :: u64
  ss_pushes :: u64
  ss_deletes_local :: u64
  ss_deletes_remote :: u64
  ss_conflicts :: u64
  ss_pending :: u64

definition stats_default :: SyncStats where
  "stats_default = \<lparr> ss_pulls = 0, ss_pushes = 0, ss_deletes_local = 0, ss_deletes_remote = 0, ss_conflicts = 0, ss_pending = 0 \<rparr>"

record SyncOptions =
  so_excludes :: "string list"
  so_data_dir :: abs_path
  so_sync_key :: string
  so_debounce :: nat
  so_conflict_policy :: ConflictPolicy
  so_has_dialer :: bool
  so_one_shot :: bool

definition sync_options_default :: SyncOptions where
  "sync_options_default =
    \<lparr> so_excludes = [], so_data_dir = [], so_sync_key = ''sync'', so_debounce = 250, so_conflict_policy = PolNewer,
      so_has_dialer = False, so_one_shot = False \<rparr>"

record ('f, 'n) Engine =
  en_fs :: 'f
  en_net :: 'n
  en_now :: nat
  en_wall :: nat
  en_root :: abs_path
  en_export :: string
  en_exclude :: ExcludeSet
  en_manifest :: SyncManifest
  en_manifest_path :: abs_path
  en_suppress :: "(string, Suppress) hmap"
  en_policy :: ConflictPolicy
  en_has_dialer :: bool
  en_epoch :: u64
  en_queue :: "SyncOp list"
  en_stats :: SyncStats
  en_stopped :: bool

section \<open>Operations that may fail\<close>

type_synonym ('f, 'n, 'a) sync = "('f, 'n) Engine \<Rightarrow> (FsError + 'a) \<times> ('f, 'n) Engine"

definition failE :: "ErrorCode \<Rightarrow> ('f, 'n, 'a) sync" where
  "failE e st = (Inl (FeRemote e), st)"

text \<open>A call on the local file system: its success as a value, or its failure as \<open>IoError\<close>.\<close>

definition fsB :: "('f \<Rightarrow> bool \<times> 'f) \<Rightarrow> ('f, 'n, bool) sync" where
  "fsB f st = (case f (en_fs st) of (ok, fs) \<Rightarrow> (Inr ok, st\<lparr>en_fs := fs\<rparr>))"

definition fsE :: "('f \<Rightarrow> bool \<times> 'f) \<Rightarrow> ('f, 'n, unit) sync" where
  "fsE f = bindE (fsB f) (\<lambda>ok. if ok then retE () else failE IoError)"

text \<open>A request: the transport error raised, the server's answer a value; or both raised.\<close>

definition netE :: "('f, 'n) env \<Rightarrow> Request \<Rightarrow> ('f, 'n, Reply) sync" where
  "netE env req st =
    (case net_request env req (en_net st) of (r, net) \<Rightarrow> (map_err FeTransport r, st\<lparr>en_net := net\<rparr>))"

definition net2E :: "('f, 'n) env \<Rightarrow> Request \<Rightarrow> ('f, 'n, Response) sync" where
  "net2E env req = bindE (netE env req) (\<lambda>reply. ofE (map_err FeRemote reply))"

lemmas sync_op_defs = bindE_def retE_def failE_def getE_def modE_def tryE_def ofE_def fsB_def fsE_def netE_def net2E_def

section \<open>Paths\<close>

definition full_path :: "abs_path \<Rightarrow> string \<Rightarrow> abs_path" where
  "full_path root rel = root @ filter (\<lambda>c. c \<noteq> []) (split_on CHR ''/'' rel)"

definition parent_of :: "abs_path \<Rightarrow> abs_path option" where
  "parent_of p = (if p = [] then None else Some (butlast p))"

definition file_name :: "abs_path \<Rightarrow> string option" where
  "file_name p = (if p = [] \<or> last p = ''..'' then None else if utf8_valid (last p) then Some (last p) else None)"

definition with_file_name :: "abs_path \<Rightarrow> string \<Rightarrow> abs_path" where
  "with_file_name p name = (if p = [] then [name] else butlast p @ [name])"

fun dec :: "nat \<Rightarrow> string" where
  "dec n = (if n < 10 then [char_of (48 + n)] else dec (n div 10) @ [char_of (48 + n mod 10)])"

declare dec.simps [simp del]

definition conflict_name :: "nat \<Rightarrow> string \<Rightarrow> string" where
  "conflict_name ts path = path @ ''.sync-conflict-'' @ dec ts"

section \<open>Transfers\<close>

definition chunk_plan :: "u64 \<Rightarrow> (u64 \<times> u32) list" where
  "chunk_plan sz =
    (let n = uint sz; c = uint DATA_CHUNK
     in filter (\<lambda>(off, len). len > 0)
          (map (\<lambda>i. (word_of_int (i * c), word_of_int (min (n - min (i * c) n) c))) [0..(max n 1 - 1) div c]))"

fun fetch_chunks :: "('f, 'n) env \<Rightarrow> u64 \<Rightarrow> (u64 \<times> u32) list \<Rightarrow> bytes \<Rightarrow> ('f, 'n, bytes) sync" where
  "fetch_chunks env fh [] out = retE out"
| "fetch_chunks env fh ((off, len) # chunks) out =
    bindE (net2E env (ReqRead fh off len)) (\<lambda>resp.
      case resp of RspData data \<Rightarrow> fetch_chunks env fh chunks (out @ data) | _ \<Rightarrow> failE IoError)"

definition fetch_body :: "('f, 'n) env \<Rightarrow> u64 \<Rightarrow> u64 \<Rightarrow> abs_path \<Rightarrow> ('f, 'n, unit) sync" where
  "fetch_body env fh sz staging =
    bindE (fetch_chunks env fh (chunk_plan sz) []) (\<lambda>out. fsE (lf_write env staging out))"

definition no_flags :: OpenFlags where
  "no_flags = \<lparr> of_read = False, of_write = False, of_truncate = False, of_append = False, of_excl = False \<rparr>"

definition download_to :: "('f, 'n) env \<Rightarrow> string \<Rightarrow> abs_path \<Rightarrow> ('f, 'n, Attr) sync" where
  "download_to env rel staging =
    bindE (net2E env (ReqOpen rel (no_flags\<lparr>of_read := True\<rparr>))) (\<lambda>resp.
      case resp of
        RspOpened fh attr \<Rightarrow>
          bindE (tryE (fetch_body env fh (a_size attr) staging)) (\<lambda>result.
          bindE (tryE (netE env (ReqRelease fh))) (\<lambda>_.
          bindE (ofE result) (\<lambda>_.
          bindE (fsE (lf_set_modified env staging (a_mtime attr))) (\<lambda>_. retE attr))))
      | _ \<Rightarrow> failE IoError)"

function chunks :: "bytes \<Rightarrow> bytes list" where
  "chunks data =
    (if data = [] then []
     else if int (length data) \<le> uint DATA_CHUNK then [data]
     else take (unat DATA_CHUNK) data # chunks (drop (unat DATA_CHUNK) data))"
  by auto
termination by (relation "measure length") (auto simp: DATA_CHUNK_def)

declare chunks.simps [simp del]

fun write_chunks :: "('f, 'n) env \<Rightarrow> u64 \<Rightarrow> int \<Rightarrow> bytes list \<Rightarrow> ('f, 'n, unit) sync" where
  "write_chunks env fh i [] = retE ()"
| "write_chunks env fh i (chunk # rest) =
    bindE (tryE (netE env (ReqWrite fh (word_of_int (i * uint DATA_CHUNK)) chunk None))) (\<lambda>resp.
      case resp of Inr (Inr (RspWritten n v c)) \<Rightarrow> write_chunks env fh (i + 1) rest | _ \<Rightarrow> failE IoError)"

definition upload :: "('f, 'n) env \<Rightarrow> string \<Rightarrow> abs_path \<Rightarrow> ('f, 'n, Attr) sync" where
  "upload env rel full =
    bindE (getE (\<lambda>st. lf_read env (en_fs st) full)) (\<lambda>data.
    bindE (getE (\<lambda>st. lf_modified env (en_fs st) full)) (\<lambda>mtime.
      case (data, mtime) of
        (Some data, Some mtime) \<Rightarrow>
          bindE (net2E env (ReqCreate rel (no_flags\<lparr>of_write := True, of_truncate := True\<rparr>) 420)) (\<lambda>resp.
            case resp of
              RspOpened fh _ \<Rightarrow>
                bindE (tryE (write_chunks env fh 0 (chunks data))) (\<lambda>result.
                bindE (tryE (netE env (ReqRelease fh))) (\<lambda>_.
                bindE (ofE result) (\<lambda>_.
                bindE (net2E env (ReqSetattr rel None (Some mtime) None)) (\<lambda>resp.
                  case resp of RspAttr attr \<Rightarrow> retE attr | _ \<Rightarrow> failE IoError))))
            | _ \<Rightarrow> failE IoError)
      | _ \<Rightarrow> failE IoError))"

section \<open>The two tree walks\<close>

definition dir_stat :: "u64 \<Rightarrow> Stat" where
  "dir_stat v = \<lparr> st_kind = EkDir, st_size = 0, st_mtime_ns = 0, st_version = v \<rparr>"

definition md_mtime_ns :: "Metadata \<Rightarrow> nat" where
  "md_mtime_ns md = (case md_modified md of Some t \<Rightarrow> mtime_ns_of t | None \<Rightarrow> 0)"

definition stat_of_md :: "Metadata \<Rightarrow> Stat" where
  "stat_of_md md =
    (if md_is_dir md then dir_stat 0
     else \<lparr> st_kind = EkFile, st_size = md_len md, st_mtime_ns = md_mtime_ns md, st_version = 0 \<rparr>)"

definition stat_of_attr :: "Attr \<Rightarrow> Stat" where
  "stat_of_attr a = \<lparr> st_kind = EkFile, st_size = a_size a, st_mtime_ns = mtime_ns_of (a_mtime a), st_version = a_version a \<rparr>"

type_synonym dir_stack = "(abs_path \<times> Item list option) list"

fun walk_items :: "glob_lib \<Rightarrow> abs_path \<Rightarrow> ExcludeSet \<Rightarrow> abs_path \<Rightarrow> Item list \<Rightarrow> Snapshot \<times> dir_stack \<Rightarrow> unit + Snapshot \<times> dir_stack" where
  "walk_items lib root ex dir [] acc = Inr acc"
| "walk_items lib root ex dir (ItemErr # items) acc = Inl ()"
| "walk_items lib root ex dir (Item name md is_dir sub # items) (snap, stack) =
    (case (rel_of root (dir @ [name]), md) of
       (Some rel, Some md) \<Rightarrow>
         if is_excluded lib ex rel \<or> is_internal rel \<or> md_is_symlink md
         then walk_items lib root ex dir items (snap, stack)
         else walk_items lib root ex dir items
           (hm_put rel (stat_of_md md) snap, if md_is_dir md then (dir @ [name], sub) # stack else stack)
     | _ \<Rightarrow> walk_items lib root ex dir items (snap, stack))"

definition stack_size :: "dir_stack \<Rightarrow> nat" where
  "stack_size stack = sum_list (map (\<lambda>(dir, items). Suc (size_option (size_list size) items)) stack)"

lemma walk_items_size:
  "walk_items lib root ex dir items (snap, stack) = Inr (snap', stack') \<Longrightarrow>
   stack_size stack' \<le> stack_size stack + size_list size items"
  by (induction lib root ex dir items "(snap, stack)" arbitrary: snap stack rule: walk_items.induct)
    (fastforce simp: stack_size_def split: option.splits if_splits)+

function snapshot_loop :: "glob_lib \<Rightarrow> abs_path \<Rightarrow> ExcludeSet \<Rightarrow> dir_stack \<Rightarrow> Snapshot \<Rightarrow> unit + Snapshot" where
  "snapshot_loop lib root ex [] snap = Inr snap"
| "snapshot_loop lib root ex ((dir, None) # stack) snap = Inl ()"
| "snapshot_loop lib root ex ((dir, Some items) # stack) snap =
    (case walk_items lib root ex dir items (snap, stack) of
       Inl () \<Rightarrow> Inl ()
     | Inr (snap', stack') \<Rightarrow> snapshot_loop lib root ex stack' snap')"
  by pat_completeness auto
termination
  by (relation "measure (\<lambda>(lib, root, ex, stack, snap). stack_size stack)")
    (auto dest: walk_items_size simp: stack_size_def)

definition snapshot_local :: "('f, 'n) env \<Rightarrow> 'f \<Rightarrow> abs_path \<Rightarrow> ExcludeSet \<Rightarrow> Snapshot option" where
  "snapshot_local env fs root ex =
    (case snapshot_loop (ev_globs env) root ex [(root, lf_read_dir env fs root)] [] of Inr snap \<Rightarrow> Some snap | Inl () \<Rightarrow> None)"

fun remote_page :: "glob_lib \<Rightarrow> ExcludeSet \<Rightarrow> string \<Rightarrow> DirEntry list \<Rightarrow> Snapshot \<times> string list \<Rightarrow> Snapshot \<times> string list" where
  "remote_page lib ex dir [] acc = acc"
| "remote_page lib ex dir (e # entries) (snap, dirs) =
    (let path = (if dir = [] then de_name e else dir @ CHR ''/'' # de_name e) in
     if is_excluded lib ex path \<or> is_internal path then remote_page lib ex dir entries (snap, dirs)
     else case a_kind (de_attr e) of
            Dir \<Rightarrow> remote_page lib ex dir entries (hm_put path (dir_stat (a_version (de_attr e))) snap, path # dirs)
          | File \<Rightarrow> remote_page lib ex dir entries (hm_put path (stat_of_attr (de_attr e)) snap, dirs)
          | Symlink \<Rightarrow> remote_page lib ex dir entries (snap, dirs))"

text \<open>The walk asks for pages until the server names no next one; \<open>cur\<close> is the directory being read.\<close>

partial_function (option) remote_loop :: "('f, 'n) env \<Rightarrow> ExcludeSet \<Rightarrow> string list \<Rightarrow> (string \<times> u64) option \<Rightarrow> Snapshot
    \<Rightarrow> ('f, 'n) Engine \<Rightarrow> ((FsError + Snapshot) \<times> ('f, 'n) Engine) option" where
  "remote_loop env ex dirs cur snap st =
    (case cur of
       None \<Rightarrow>
         (case dirs of
            [] \<Rightarrow> Some (Inr snap, st)
          | dir # dirs' \<Rightarrow> remote_loop env ex dirs' (Some (dir, 0)) snap st)
     | Some dc \<Rightarrow>
         (case fst (net2E env (ReqReaddir (fst dc) (snd dc)) st) of
            Inl e \<Rightarrow> Some (Inl e, snd (net2E env (ReqReaddir (fst dc) (snd dc)) st))
          | Inr resp \<Rightarrow>
              (case resp of
                 RspDir entries nxt \<Rightarrow>
                   remote_loop env ex (snd (remote_page (ev_globs env) ex (fst dc) entries (snap, dirs)))
                     (map_option (Pair (fst dc)) nxt)
                     (fst (remote_page (ev_globs env) ex (fst dc) entries (snap, dirs)))
                     (snd (net2E env (ReqReaddir (fst dc) (snd dc)) st))
               | _ \<Rightarrow> Some (Inl (FeRemote IoError), snd (net2E env (ReqReaddir (fst dc) (snd dc)) st)))))"

declare remote_loop.simps [code]

definition snapshot_remote :: "('f, 'n) env \<Rightarrow> ExcludeSet \<Rightarrow> ('f, 'n) Engine \<Rightarrow> ((FsError + Snapshot) \<times> ('f, 'n) Engine) option" where
  "snapshot_remote env ex st = remote_loop env ex [Nil] None [] st"

section \<open>Bookkeeping\<close>

definition enqueue :: "SyncOp \<Rightarrow> ('f, 'n) Engine \<Rightarrow> ('f, 'n) Engine" where
  "enqueue op st =
    (if en_stopped st then st
     else st\<lparr>en_queue := en_queue st @ [op], en_stats := (en_stats st)\<lparr>ss_pending := ss_pending (en_stats st) + 1\<rparr>\<rparr>)"

definition local_stat :: "('f, 'n) env \<Rightarrow> string \<Rightarrow> ('f, 'n) Engine \<Rightarrow> Stat option" where
  "local_stat env rel st = map_option stat_of_md (lf_lstat env (en_fs st) (full_path (en_root st) rel))"

definition expect :: "string \<Rightarrow> Expect \<Rightarrow> ('f, 'n, unit) sync" where
  "expect rel x = modE (\<lambda>st. st\<lparr>en_suppress := hm_put rel \<lparr> sp_expect = x, sp_at = en_now st \<rparr> (en_suppress st)\<rparr>)"

definition as_expected :: "Expect \<Rightarrow> Stat option \<Rightarrow> bool" where
  "as_expected x stat =
    (case (x, stat) of
       (Absent, None) \<Rightarrow> True
     | (DirThere, Some s) \<Rightarrow> st_kind s = EkDir
     | (Present sz mtime_ns, Some s) \<Rightarrow> st_kind s = EkFile \<and> st_size s = sz \<and> st_mtime_ns s = mtime_ns
     | _ \<Rightarrow> False)"

definition is_own_echo :: "('f, 'n) env \<Rightarrow> string \<Rightarrow> ('f, 'n, bool) sync" where
  "is_own_echo env rel st =
    (case hm_get (en_suppress st) rel of
       None \<Rightarrow> (Inr False, st)
     | Some entry \<Rightarrow>
         if en_now st - sp_at entry > SUPPRESS_TTL
         then (Inr False, st\<lparr>en_suppress := hm_del rel (en_suppress st)\<rparr>)
         else (Inr (as_expected (sp_expect entry) (local_stat env rel st)), st))"

definition baseline :: "string \<Rightarrow> ('f, 'n) Engine \<Rightarrow> SyncEntry option" where
  "baseline rel st = hm_get (sm_entries (en_manifest st)) rel"

definition on_manifest :: "((string, SyncEntry) hmap \<Rightarrow> (string, SyncEntry) hmap) \<Rightarrow> ('f, 'n) Engine \<Rightarrow> ('f, 'n) Engine" where
  "on_manifest f st = st\<lparr>en_manifest := (en_manifest st)\<lparr>sm_entries := f (sm_entries (en_manifest st))\<rparr>\<rparr>"

definition record_entry :: "string \<Rightarrow> EntryKind \<Rightarrow> u64 \<Rightarrow> nat \<Rightarrow> u64 \<Rightarrow> ('f, 'n, unit) sync" where
  "record_entry rel kind sz mtime_ns version =
    modE (on_manifest (hm_put rel \<lparr> sn_kind = kind, sn_remote_version = version, sn_size = sz, sn_mtime_ns = mtime_ns \<rparr>))"

definition forget_entry :: "string \<Rightarrow> ('f, 'n, unit) sync" where
  "forget_entry rel = modE (on_manifest (hm_del rel))"

definition forget_tree :: "string \<Rightarrow> ('f, 'n, unit) sync" where
  "forget_tree rel = modE (on_manifest (hm_retain (\<lambda>p _. p \<noteq> rel \<and> take (Suc (length rel)) p \<noteq> rel @ ''/'')))"

definition count :: "(SyncStats \<Rightarrow> SyncStats) \<Rightarrow> ('f, 'n, unit) sync" where
  "count f = modE (\<lambda>st. st\<lparr>en_stats := f (en_stats st)\<rparr>)"

section \<open>Transfers of one path\<close>

definition staging_name :: "string \<Rightarrow> string" where
  "staging_name name = ''.ds-tmp-'' @ name"

definition pull :: "('f, 'n) env \<Rightarrow> string \<Rightarrow> ('f, 'n, unit) sync" where
  "pull env rel =
    bindE (getE (\<lambda>st. full_path (en_root st) rel)) (\<lambda>full.
      case parent_of full of
        None \<Rightarrow> failE InvalidPath
      | Some parent \<Rightarrow>
          bindE (fsE (lf_create_dir_all env parent)) (\<lambda>_.
          case file_name full of
            None \<Rightarrow> failE InvalidPath
          | Some name \<Rightarrow>
              let staging = parent @ [staging_name name] in
              bindE (tryE (download_to env rel staging)) (\<lambda>got.
              case got of
                Inl e \<Rightarrow> bindE (fsB (lf_remove_file env staging)) (\<lambda>_. ofE (Inl e))
              | Inr attr \<Rightarrow>
                  let mtime_ns = mtime_ns_of (a_mtime attr) in
                  bindE (expect rel (Present (a_size attr) mtime_ns)) (\<lambda>_.
                  bindE (fsE (lf_rename env staging full)) (\<lambda>_.
                  bindE (record_entry rel EkFile (a_size attr) mtime_ns (a_version attr)) (\<lambda>_.
                  count (\<lambda>ss. ss\<lparr>ss_pulls := ss_pulls ss + 1\<rparr>)))))))"

definition push_file :: "('f, 'n) env \<Rightarrow> string \<Rightarrow> ('f, 'n, unit) sync" where
  "push_file env rel =
    bindE (getE (\<lambda>st. full_path (en_root st) rel)) (\<lambda>full.
    bindE (upload env rel full) (\<lambda>attr.
    bindE (getE (local_stat env rel)) (\<lambda>local.
      case local of
        None \<Rightarrow> failE IoError
      | Some l \<Rightarrow>
          bindE (record_entry rel EkFile (st_size l) (st_mtime_ns l) (a_version attr)) (\<lambda>_.
          count (\<lambda>ss. ss\<lparr>ss_pushes := ss_pushes ss + 1\<rparr>)))))"

section \<open>Conflicts\<close>

definition contains :: "string \<Rightarrow> string \<Rightarrow> bool" where
  "contains needle s = list_ex (\<lambda>i. take (length needle) (drop i s) = needle) [0..<Suc (length s)]"

text \<open>The copy of the loser, when one could be made, is pushed as well.\<close>

definition push_kept :: "('f, 'n) env \<Rightarrow> string \<Rightarrow> bool \<Rightarrow> ('f, 'n, unit) sync" where
  "push_kept env keep kept = (if kept then bindE (tryE (push_file env keep)) (\<lambda>_. retE ()) else retE ())"

definition keep_remote :: "('f, 'n) env \<Rightarrow> string \<Rightarrow> string \<Rightarrow> ('f, 'n, bool) sync" where
  "keep_remote env rel keep =
    bindE (getE (\<lambda>st. full_path (en_root st) keep)) (\<lambda>full.
    let staging = with_file_name full (staging_name (case file_name full of Some n \<Rightarrow> n | None \<Rightarrow> ''conflict'')) in
    bindE (case parent_of full of Some parent \<Rightarrow> fsB (lf_create_dir_all env parent) | None \<Rightarrow> retE True) (\<lambda>_.
    bindE (tryE (download_to env rel staging)) (\<lambda>got.
      case got of Inr _ \<Rightarrow> fsB (lf_rename env staging full) | Inl _ \<Rightarrow> retE False)))"

definition resolve_conflict :: "('f, 'n) env \<Rightarrow> string \<Rightarrow> Stat \<Rightarrow> Stat \<Rightarrow> ('f, 'n, unit) sync" where
  "resolve_conflict env rel local remote =
    bindE (count (\<lambda>ss. ss\<lparr>ss_conflicts := ss_conflicts ss + 1\<rparr>)) (\<lambda>_.
    bindE (getE (\<lambda>st. (local_wins (en_policy st) local remote, conflict_name (en_wall st) rel, en_root st))) (\<lambda>(wins, keep, root).
      if contains ''.sync-conflict-'' rel then (if wins then push_file env rel else pull env rel)
      else if wins then
        bindE (keep_remote env rel keep) (\<lambda>kept.
        bindE (tryE (push_file env rel)) (\<lambda>res.
        bindE (push_kept env keep kept) (\<lambda>_. ofE res)))
      else
        bindE (fsB (lf_copy env (full_path root rel) (full_path root keep))) (\<lambda>kept.
        bindE (tryE (pull env rel)) (\<lambda>res.
        bindE (push_kept env keep kept) (\<lambda>_. ofE res)))))"

section \<open>From the server\<close>

definition pull_dirty :: "SyncEntry option \<Rightarrow> Stat option \<Rightarrow> bool" where
  "pull_dirty base local =
    (case (base, local) of
       (Some b, Some l) \<Rightarrow> \<not> (st_kind l = sn_kind b \<and> st_size l = sn_size b \<and> st_mtime_ns l = sn_mtime_ns b)
     | (None, Some _) \<Rightarrow> True
     | _ \<Rightarrow> False)"

definition pull_if_needed :: "('f, 'n) env \<Rightarrow> string \<Rightarrow> ('f, 'n, unit) sync" where
  "pull_if_needed env rel =
    bindE (netE env (ReqGetattr rel)) (\<lambda>reply.
      case reply of
        Inl e \<Rightarrow> if e = NotFound then retE () else failE e
      | Inr (RspAttr attr) \<Rightarrow>
          if a_kind attr = Dir then
            bindE (expect rel DirThere) (\<lambda>_.
            bindE (getE (\<lambda>st. full_path (en_root st) rel)) (\<lambda>full.
            bindE (fsE (lf_create_dir_all env full)) (\<lambda>_.
            record_entry rel EkDir 0 0 (a_version attr))))
          else
            let remote = stat_of_attr attr in
            bindE (getE (\<lambda>st. (baseline rel st, local_stat env rel st))) (\<lambda>(base, local).
              if (case base of Some b \<Rightarrow> sn_size b = st_size remote \<and> sn_mtime_ns b = st_mtime_ns remote | None \<Rightarrow> False)
              then retE ()
              else case local of
                     Some l \<Rightarrow>
                       if pull_dirty base local then
                         (if st_size l = st_size remote \<and> st_mtime_ns l = st_mtime_ns remote
                          then record_entry rel (st_kind l) (st_size l) (st_mtime_ns l) (st_version remote)
                          else resolve_conflict env rel l remote)
                       else pull env rel
                   | None \<Rightarrow> pull env rel)
      | Inr _ \<Rightarrow> failE IoError)"

fun expect_absent :: "string \<Rightarrow> string list \<Rightarrow> ('f, 'n, unit) sync" where
  "expect_absent rel [] = retE ()"
| "expect_absent rel (child # rest) = bindE (expect (rel @ CHR ''/'' # child) Absent) (\<lambda>_. expect_absent rel rest)"

definition delete_local :: "('f, 'n) env \<Rightarrow> string \<Rightarrow> ('f, 'n, unit) sync" where
  "delete_local env rel =
    bindE (getE (\<lambda>st. (full_path (en_root st) rel, local_stat env rel st, baseline rel st))) (\<lambda>(full, local, base).
      case local of
        None \<Rightarrow> forget_entry rel
      | Some stat \<Rightarrow>
          if (case base of Some b \<Rightarrow> \<not> same_stat (sn_kind b) (sn_size b) (sn_mtime_ns b) stat | None \<Rightarrow> False) then retE ()
          else bindE
            (if st_kind stat = EkDir then
               bindE (getE (\<lambda>st. snapshot_local env (en_fs st) full no_excludes)) (\<lambda>snap.
               bindE (case snap of Some sn \<Rightarrow> expect_absent rel (hm_keys (hm_sorted sn)) | None \<Rightarrow> retE ()) (\<lambda>_.
               bindE (expect rel Absent) (\<lambda>_.
               bindE (fsE (lf_remove_dir_all env full)) (\<lambda>_.
               forget_tree rel))))
             else
               bindE (expect rel Absent) (\<lambda>_.
               bindE (fsE (lf_remove_file env full)) (\<lambda>_.
               forget_entry rel)))
            (\<lambda>_. count (\<lambda>ss. ss\<lparr>ss_deletes_local := ss_deletes_local ss + 1\<rparr>)))"

definition expect_of :: "Stat \<Rightarrow> Expect" where
  "expect_of s = (case st_kind s of EkDir \<Rightarrow> DirThere | EkFile \<Rightarrow> Present (st_size s) (st_mtime_ns s))"

text \<open>Replaying a remote rename locally; True when the baseline moved along.\<close>

definition rename_locally :: "('f, 'n) env \<Rightarrow> string \<Rightarrow> string \<Rightarrow> ('f, 'n, bool) sync" where
  "rename_locally env rel to_rel =
    bindE (getE (\<lambda>st. (full_path (en_root st) rel, full_path (en_root st) to_rel))) (\<lambda>(from_full, to_full).
    bindE (getE (\<lambda>st. lf_exists env (en_fs st) from_full)) (\<lambda>there.
      if \<not> there then retE False
      else
        bindE (expect rel Absent) (\<lambda>_.
        bindE (case parent_of to_full of Some parent \<Rightarrow> fsB (lf_create_dir_all env parent) | None \<Rightarrow> retE True) (\<lambda>_.
        bindE (fsB (lf_rename env from_full to_full)) (\<lambda>renamed.
          if \<not> renamed then retE False
          else
            bindE (getE (local_stat env to_rel)) (\<lambda>local.
            bindE (case local of Some s \<Rightarrow> expect to_rel (expect_of s) | None \<Rightarrow> retE ()) (\<lambda>_.
            (\<lambda>st. case rename_prefix rel to_rel (en_manifest st) of (any, m) \<Rightarrow> (Inr any, st\<lparr>en_manifest := m\<rparr>)))))))))"

definition apply_remote :: "('f, 'n) env \<Rightarrow> FsEvent \<Rightarrow> ('f, 'n, unit) sync" where
  "apply_remote env ev =
    bindE (getE en_exclude) (\<lambda>ex.
      let rel = ev_path ev in
      if is_excluded (ev_globs env) ex rel \<or> is_internal rel then retE ()
      else case ev_kind ev of
             Removed \<Rightarrow> delete_local env rel
           | RenamedFrom to_rel \<Rightarrow>
               bindE (rename_locally env rel to_rel) (\<lambda>known. if known then retE () else pull_if_needed env to_rel)
           | ResyncRequired \<Rightarrow> modE (enqueue OpReconcile)
           | _ \<Rightarrow> pull_if_needed env rel)"

section \<open>To the server\<close>

definition mkdir_remote :: "('f, 'n) env \<Rightarrow> string \<Rightarrow> ('f, 'n, unit) sync" where
  "mkdir_remote env rel =
    bindE (netE env (ReqMkdir rel 493)) (\<lambda>reply.
      case reply of
        Inr _ \<Rightarrow> record_entry rel EkDir 0 0 0
      | Inl e \<Rightarrow> if e = AlreadyExists then record_entry rel EkDir 0 0 0 else failE e)"

definition known_child :: "SyncEntry option \<Rightarrow> Stat \<Rightarrow> bool" where
  "known_child base stat =
    (case base of
       None \<Rightarrow> False
     | Some b \<Rightarrow>
         (sn_kind b = st_kind stat \<and> sn_size b = st_size stat \<and> sn_mtime_ns b = st_mtime_ns stat)
         \<or> (st_kind stat = EkDir \<and> sn_kind b = EkDir))"

fun push_children :: "('f, 'n) env \<Rightarrow> string \<Rightarrow> (string \<times> Stat) list \<Rightarrow> ('f, 'n, unit) sync" where
  "push_children env rel [] = retE ()"
| "push_children env rel ((child, stat) # rest) =
    (let child_rel = rel @ CHR ''/'' # child in
     bindE (getE (baseline child_rel)) (\<lambda>base.
     bindE (if known_child base stat then retE ()
            else bindE (tryE (if st_kind stat = EkDir then mkdir_remote env child_rel else push_file env child_rel)) (\<lambda>_. retE ())) (\<lambda>_.
     push_children env rel rest)))"

definition push_new_dir_contents :: "('f, 'n) env \<Rightarrow> string \<Rightarrow> ('f, 'n, unit) sync" where
  "push_new_dir_contents env rel =
    bindE (getE (\<lambda>st. snapshot_local env (en_fs st) (full_path (en_root st) rel) (en_exclude st))) (\<lambda>snap.
      case snap of None \<Rightarrow> retE () | Some sn \<Rightarrow> push_children env rel (hm_sorted sn))"

definition remote_dirty :: "SyncEntry option \<Rightarrow> Stat \<Rightarrow> bool" where
  "remote_dirty base r =
    (case base of
       Some b \<Rightarrow> \<not> (sn_remote_version b \<noteq> 0 \<and> sn_remote_version b = st_version r)
               \<and> \<not> (sn_size b = st_size r \<and> sn_mtime_ns b = st_mtime_ns r)
     | None \<Rightarrow> True)"

definition push_present :: "('f, 'n) env \<Rightarrow> string \<Rightarrow> ('f, 'n, unit) sync" where
  "push_present env rel =
    bindE (getE (local_stat env rel)) (\<lambda>local.
      case local of
        None \<Rightarrow> retE ()
      | Some l \<Rightarrow>
          if st_kind l = EkDir then bindE (mkdir_remote env rel) (\<lambda>_. push_new_dir_contents env rel)
          else
            bindE (netE env (ReqGetattr rel)) (\<lambda>reply.
              case reply of
                Inl e \<Rightarrow> if e = NotFound then push_file env rel else failE e
              | Inr (RspAttr a) \<Rightarrow>
                  let r = stat_of_attr a in
                  bindE (getE (baseline rel)) (\<lambda>base.
                    if remote_dirty base r then
                      (if st_size l = st_size r \<and> st_mtime_ns l = st_mtime_ns r
                       then record_entry rel (st_kind l) (st_size l) (st_mtime_ns l) (st_version r)
                       else resolve_conflict env rel l r)
                    else push_file env rel)
              | Inr _ \<Rightarrow> failE IoError))"

definition push_removed :: "('f, 'n) env \<Rightarrow> string \<Rightarrow> ('f, 'n, unit) sync" where
  "push_removed env rel =
    bindE (getE (baseline rel)) (\<lambda>base.
      case base of
        None \<Rightarrow> retE ()
      | Some b \<Rightarrow>
          bindE (netE env (ReqGetattr rel)) (\<lambda>reply.
            case reply of
              Inl e \<Rightarrow> if e = NotFound then forget_entry rel else failE e
            | Inr (RspAttr a) \<Rightarrow>
                if remote_dirty base (stat_of_attr a) \<and> a_kind a \<noteq> Dir then pull env rel
                else
                  bindE (netE env (if a_kind a = Dir then ReqRmdir rel else ReqUnlink rel)) (\<lambda>done'.
                    let drop = bindE (forget_tree rel) (\<lambda>_. count (\<lambda>ss. ss\<lparr>ss_deletes_remote := ss_deletes_remote ss + 1\<rparr>)) in
                    case done' of
                      Inr _ \<Rightarrow> drop
                    | Inl e \<Rightarrow> if e = NotFound then drop else if e = NotEmpty then retE () else failE e)
            | Inr _ \<Rightarrow> failE IoError))"

definition push_renamed :: "('f, 'n) env \<Rightarrow> string \<Rightarrow> string \<Rightarrow> ('f, 'n, unit) sync" where
  "push_renamed env rel to_rel =
    bindE (netE env (ReqRename rel to_rel True)) (\<lambda>reply.
      case reply of
        Inr _ \<Rightarrow>
          bindE (\<lambda>st. case rename_prefix rel to_rel (en_manifest st) of (any, m) \<Rightarrow> (Inr any, st\<lparr>en_manifest := m\<rparr>)) (\<lambda>known.
          bindE (getE (local_stat env to_rel)) (\<lambda>local.
          bindE (case local of
                   Some s \<Rightarrow> if known then retE () else record_entry to_rel (st_kind s) (st_size s) (st_mtime_ns s) 0
                 | None \<Rightarrow> retE ()) (\<lambda>_.
          count (\<lambda>ss. ss\<lparr>ss_pushes := ss_pushes ss + 1\<rparr>))))
      | Inl e \<Rightarrow>
          if e = NotFound then
            bindE (forget_entry rel) (\<lambda>_.
            bindE (getE (local_stat env to_rel)) (\<lambda>local.
              case local of
                Some s \<Rightarrow> if st_kind s = EkDir then mkdir_remote env to_rel else push_file env to_rel
              | None \<Rightarrow> retE ()))
          else failE e)"

definition push_local :: "('f, 'n) env \<Rightarrow> string \<Rightarrow> EventKind \<Rightarrow> ('f, 'n, unit) sync" where
  "push_local env rel kind =
    bindE (is_own_echo env rel) (\<lambda>echo.
      if echo then retE ()
      else case kind of
             Removed \<Rightarrow> push_removed env rel
           | RenamedFrom to_rel \<Rightarrow> push_renamed env rel to_rel
           | ResyncRequired \<Rightarrow> retE ()
           | _ \<Rightarrow> push_present env rel)"

section \<open>Reconciling\<close>

fun action_body :: "('f, 'n) env \<Rightarrow> Action \<Rightarrow> ('f, 'n, unit) sync" where
  "action_body env (Pull p) = pull_if_needed env p"
| "action_body env (Push p) =
    bindE (getE (local_stat env p)) (\<lambda>local.
      push_local env p (case local of Some s \<Rightarrow> if st_kind s = EkDir then Created else Modified | None \<Rightarrow> Modified))"
| "action_body env (DeleteLocal p k) = delete_local env p"
| "action_body env (DeleteRemote p k) = push_local env p Removed"
| "action_body env (Adopt p s) = record_entry p (st_kind s) (st_size s) (st_mtime_ns s) (st_version s)"
| "action_body env (AConflict p l r) = resolve_conflict env p l r"
| "action_body env (Forget p) = forget_entry p"

text \<open>A failed action is logged and left to the next pass.\<close>

definition run_action :: "('f, 'n) env \<Rightarrow> Action \<Rightarrow> ('f, 'n) Engine \<Rightarrow> ('f, 'n) Engine" where
  "run_action env a st = snd (action_body env a st)"

definition reconcile :: "('f, 'n) env \<Rightarrow> ('f, 'n) Engine \<Rightarrow> ((FsError + unit) \<times> ('f, 'n) Engine) option" where
  "reconcile env st0 =
    (case snapshot_remote env (en_exclude st0) st0 of
       None \<Rightarrow> None
     | Some (Inl e, st) \<Rightarrow> Some (Inl e, st)
     | Some (Inr remote, st) \<Rightarrow>
         Some (case snapshot_local env (en_fs st) (en_root st) (en_exclude st) of
                 None \<Rightarrow> (Inl (FeRemote IoError), st)
               | Some local \<Rightarrow> (Inr (), fold (run_action env) (schedule (plan (en_manifest st) local remote)) st)))"

section \<open>The executor and what feeds it\<close>

fun drop_ext :: "string \<Rightarrow> string" where
  "drop_ext name = (case rsplit_once CHR ''.'' name of Some (stem, ext) \<Rightarrow> if stem = [] then name else stem | None \<Rightarrow> name)"

definition manifest_flush :: "('f, 'n) env \<Rightarrow> abs_path \<Rightarrow> SyncManifest \<Rightarrow> 'f \<Rightarrow> 'f" where
  "manifest_flush env path m fs0 =
    (case ev_to_json env m of
       None \<Rightarrow> fs0
     | Some json \<Rightarrow>
         let fs1 = (case parent_of path of Some parent \<Rightarrow> snd (lf_create_dir_all env parent fs0) | None \<Rightarrow> fs0);
             part = with_file_name path (drop_ext (last path) @ ''.json.part'')
         in case lf_write env part json fs1 of
              (True, fs2) \<Rightarrow> snd (lf_rename env part path fs2)
            | (False, fs2) \<Rightarrow> fs2)"

definition seen_seq :: "u64 \<Rightarrow> ('f, 'n) Engine \<Rightarrow> ('f, 'n) Engine" where
  "seen_seq seq st = st\<lparr>en_manifest := (en_manifest st)\<lparr>sm_last_seq := max (sm_last_seq (en_manifest st)) seq\<rparr>\<rparr>"

definition run_op :: "('f, 'n) env \<Rightarrow> SyncOp \<Rightarrow> ('f, 'n) Engine \<Rightarrow> ('f, 'n) Engine option" where
  "run_op env op st =
    (case op of
       OpRemote batch \<Rightarrow> Some (fold (\<lambda>ev st. seen_seq (ev_seq ev) (snd (apply_remote env ev st))) batch st)
     | OpLocal batch \<Rightarrow> Some (fold (\<lambda>(path, kind) st. snd (push_local env path kind st)) batch st)
     | OpReconcile \<Rightarrow> map_option snd (reconcile env st))"

definition finish_op :: "('f, 'n) env \<Rightarrow> ('f, 'n) Engine \<Rightarrow> ('f, 'n) Engine" where
  "finish_op env st =
    st\<lparr>en_fs := manifest_flush env (en_manifest_path st) (en_manifest st) (en_fs st),
       en_stats := (en_stats st)\<lparr>ss_pending := ss_pending (en_stats st) - 1\<rparr>\<rparr>"

text \<open>One turn of the executor: the queue's head is taken; a stopped engine drops it and ends.\<close>

definition executor_turn :: "('f, 'n) env \<Rightarrow> ('f, 'n) Engine \<Rightarrow> ('f, 'n) Engine option" where
  "executor_turn env st =
    (case en_queue st of
       [] \<Rightarrow> Some st
     | op # rest \<Rightarrow>
         let st1 = st\<lparr>en_queue := rest\<rparr> in
         if en_stopped st1 then Some st1 else map_option (finish_op env) (run_op env op st1))"

fun executor :: "nat \<Rightarrow> ('f, 'n) env \<Rightarrow> ('f, 'n) Engine \<Rightarrow> ('f, 'n) Engine option" where
  "executor 0 env st = Some st"
| "executor (Suc n) env st = Option.bind (executor_turn env st) (executor n env)"

definition is_quiescent :: "('f, 'n) Engine \<Rightarrow> bool" where
  "is_quiescent st = (ss_pending (en_stats st) = 0)"

definition shutdown :: "('f, 'n) env \<Rightarrow> ('f, 'n) Engine \<Rightarrow> ('f, 'n) Engine" where
  "shutdown env st =
    st\<lparr>en_stopped := True, en_fs := manifest_flush env (en_manifest_path st) (en_manifest st) (en_fs st)\<rparr>"

datatype LocalInput = LiEvent NotifyEvent | LiTimer

definition local_watch_turn :: "('f, 'n) env \<Rightarrow> LocalInput \<Rightarrow> Coalescer \<times> ('f, 'n) Engine \<Rightarrow> Coalescer \<times> ('f, 'n) Engine" where
  "local_watch_turn env inp = (\<lambda>(co, st).
    if en_stopped st then (co, st)
    else case inp of
           LiEvent event \<Rightarrow> (ingest (ev_globs env) (en_now st) event co, st)
         | LiTimer \<Rightarrow>
             (case take_batch co of
                (batch, co') \<Rightarrow>
                  let batch = filter (\<lambda>(p, _). \<not> is_internal p) batch
                  in (co', if batch = [] then st else enqueue (OpLocal batch) st)))"

datatype PumpInput = PuBatch "FsEvent list" | PuLagged

definition event_pump_turn :: "PumpInput \<Rightarrow> ('f, 'n) Engine \<Rightarrow> ('f, 'n) Engine" where
  "event_pump_turn inp st = (case inp of PuBatch batch \<Rightarrow> enqueue (OpRemote batch) st | PuLagged \<Rightarrow> enqueue OpReconcile st)"

definition since_seq :: "('f, 'n) Engine \<Rightarrow> u64 option" where
  "since_seq st = (if sm_last_seq (en_manifest st) = 0 then None else Some (sm_last_seq (en_manifest st)))"

definition raw_request :: "('f, 'n) env \<Rightarrow> Request \<Rightarrow> ('f, 'n) Engine \<Rightarrow> (TransportError + Reply) \<times> ('f, 'n) Engine" where
  "raw_request env req st = (case net_request env req (en_net st) of (r, net) \<Rightarrow> (r, st\<lparr>en_net := net\<rparr>))"

text \<open>After a reconnect the pump subscribes again from the last applied event.\<close>

definition resubscribe :: "('f, 'n) env \<Rightarrow> ('f, 'n) Engine \<Rightarrow> ('f, 'n) Engine" where
  "resubscribe env st =
    (case raw_request env (ReqSubscribe (since_seq st)) st of
       (Inr (Inr (RspSubscribed seq)), st') \<Rightarrow>
         if (case since_seq st of None \<Rightarrow> True | Some s \<Rightarrow> seq \<ge> s) then st' else enqueue OpReconcile st'
     | (Inr (Inl TooOld), st') \<Rightarrow> enqueue OpReconcile (snd (raw_request env (ReqSubscribe None) st'))
     | (_, st') \<Rightarrow> st')"

definition next_delay :: "nat \<Rightarrow> nat" where
  "next_delay delay = min (delay * 2) 15000"

text \<open>The supervisor re-attaches on a freshly dialled connection and only then swaps it in.\<close>

definition reattach :: "('f, 'n) env \<Rightarrow> 'n \<Rightarrow> ('f, 'n) Engine \<Rightarrow> ('f, 'n) Engine" where
  "reattach env new_conn st =
    (case net_request env (ReqAttach (en_export st)) new_conn of
       (Inr (Inr (RspAttachOk _ _)), net) \<Rightarrow> st\<lparr>en_net := net, en_epoch := en_epoch st + 1\<rparr>
     | _ \<Rightarrow> st)"

section \<open>Starting\<close>

fun sweep_paths :: "abs_path \<Rightarrow> Item list \<Rightarrow> abs_path list" where
  "sweep_paths dir [] = []"
| "sweep_paths dir (ItemErr # items) = sweep_paths dir items"
| "sweep_paths dir (Item name md is_dir sub # items) =
    (if is_dir then (case sub of Some its \<Rightarrow> sweep_paths (dir @ [name]) its | None \<Rightarrow> [])
     else if take 8 name = ''.ds-tmp-'' then [dir @ [name]] else [])
    @ sweep_paths dir items"

definition sweep_staging :: "('f, 'n) env \<Rightarrow> abs_path \<Rightarrow> 'f \<Rightarrow> 'f" where
  "sweep_staging env root fs =
    (case lf_read_dir env fs root of
       None \<Rightarrow> fs
     | Some items \<Rightarrow> fold (\<lambda>path fs. snd (lf_remove_file env path fs)) (sweep_paths root items) fs)"

text \<open>The subscription of a starting engine: from the baseline's sequence number, or from now when the server's
  history does not reach that far.\<close>

definition start_subscribe :: "('f, 'n) env \<Rightarrow> u64 option \<Rightarrow> 'n \<Rightarrow> (FsError + u64) \<times> 'n" where
  "start_subscribe env since net =
    (case net_request env (ReqSubscribe since) net of
       (Inl te, net1) \<Rightarrow> (Inl (FeTransport te), net1)
     | (Inr (Inr (RspSubscribed seq)), net1) \<Rightarrow> (Inr seq, net1)
     | (Inr (Inl TooOld), net1) \<Rightarrow>
         (case net_request env (ReqSubscribe None) net1 of
            (Inl te, net2) \<Rightarrow> (Inl (FeTransport te), net2)
          | (Inr (Inl e), net2) \<Rightarrow> (Inl (FeRemote e), net2)
          | (Inr (Inr (RspSubscribed seq)), net2) \<Rightarrow> (Inr seq, net2)
          | (_, net2) \<Rightarrow> (Inl (FeRemote IoError), net2))
     | (Inr (Inr _), net1) \<Rightarrow> (Inl (FeRemote IoError), net1)
     | (Inr (Inl e), net1) \<Rightarrow> (Inl (FeRemote e), net1))"

definition engine_new :: "'f \<Rightarrow> 'n \<Rightarrow> nat \<Rightarrow> nat \<Rightarrow> abs_path \<Rightarrow> string \<Rightarrow> ExcludeSet \<Rightarrow> SyncManifest \<Rightarrow> abs_path \<Rightarrow> SyncOptions \<Rightarrow> ('f, 'n) Engine" where
  "engine_new fs net now wall root export ex m mpath opts =
    \<lparr> en_fs = fs, en_net = net, en_now = now, en_wall = wall, en_root = root, en_export = export, en_exclude = ex,
      en_manifest = m, en_manifest_path = mpath, en_suppress = [], en_policy = so_conflict_policy opts,
      en_has_dialer = so_has_dialer opts, en_epoch = 0, en_queue = [], en_stats = stats_default, en_stopped = False \<rparr>"

definition start_engine :: "('f, 'n) env \<Rightarrow> nat \<Rightarrow> nat \<Rightarrow> string \<Rightarrow> abs_path \<Rightarrow> SyncOptions \<Rightarrow> 'f \<Rightarrow> 'n \<Rightarrow> FsError + ('f, 'n) Engine" where
  "start_engine env now wall export local_dir opts fs0 net0 =
    (case lf_create_dir_all env local_dir fs0 of
       (False, _) \<Rightarrow> Inl (FeRemote IoError)
     | (True, fs1) \<Rightarrow>
         (case lf_canonicalize env fs1 local_dir of
            None \<Rightarrow> Inl (FeRemote IoError)
          | Some root \<Rightarrow>
              (case net_request env (ReqAttach export) net0 of
                 (Inl te, _) \<Rightarrow> Inl (FeTransport te)
               | (Inr (Inl e), _) \<Rightarrow> Inl (FeRemote e)
               | (Inr (Inr (RspAttachOk _ _)), net1) \<Rightarrow>
                   (case compile_with_defaults (ev_globs env) (so_excludes opts) False of
                      Inl _ \<Rightarrow> Inl (FeRemote InvalidPath)
                    | Inr ex \<Rightarrow>
                        let mpath = so_data_dir opts @ [''sync'', so_sync_key opts @ ''.manifest.json''];
                            m = manifest_load (ev_from_json env) (lf_read_to_string env fs1 mpath);
                            fs2 = sweep_staging env root fs1
                        in (case start_subscribe env (if sm_last_seq m = 0 then None else Some (sm_last_seq m)) net1 of
                              (Inl e, _) \<Rightarrow> Inl e
                            | (Inr _, net2) \<Rightarrow>
                                Inr (enqueue OpReconcile (engine_new fs2 net2 now wall root export ex m mpath opts))))
               | (Inr (Inr _), _) \<Rightarrow> Inl (FeRemote IoError))))"

end
