(* ===== verification/Sync_Laws.thy ===== *)
theory Sync_Laws
  imports Sync_Engine
begin

text \<open>
  Laws of the sync engine.

  The locale \<open>sync_frame\<close> holds what every operation of the engine keeps: a reflexive and transitive relation that
  the engine's elementary state changes respect is respected by every operation and by the executor.  It is
  interpreted for the shape of the baseline, for the accounting of pending work and for the engine's configuration.
  Its parent \<open>sync_base\<close> leaves the local disk out, and covers the operations that only read it.
\<close>

section \<open>What every operation keeps\<close>

text \<open>Directories carry no size and no time stamp, in a snapshot and in the baseline.\<close>

definition stat_wf :: "Stat \<Rightarrow> bool" where
  "stat_wf s = (st_kind s = EkDir \<longrightarrow> st_size s = 0 \<and> st_mtime_ns s = 0)"

definition entry_wf :: "SyncEntry \<Rightarrow> bool" where
  "entry_wf e = (sn_kind e = EkDir \<longrightarrow> sn_size e = 0 \<and> sn_mtime_ns e = 0)"

definition entries_wf :: "(string, SyncEntry) hmap \<Rightarrow> bool" where
  "entries_wf es = (hm_ok es \<and> list_all (\<lambda>(p, e). entry_wf e) es)"

definition manifest_wf :: "SyncManifest \<Rightarrow> bool" where
  "manifest_wf m = entries_wf (sm_entries m)"

definition snapshot_wf :: "Snapshot \<Rightarrow> bool" where
  "snapshot_wf sn = (\<forall>p s. (p, s) \<in> set sn \<longrightarrow> stat_wf s)"

definition ok_at :: "(('f, 'n) Engine \<Rightarrow> ('f, 'n) Engine \<Rightarrow> bool) \<Rightarrow> ('f, 'n, 'a) sync \<Rightarrow> ('f, 'n) Engine \<Rightarrow> bool" where
  "ok_at R m st = R st (snd (m st))"

named_theorems ok_rules \<open>how the combinators keep a relation\<close>

named_theorems sync_simps \<open>running the combinators\<close>

declare bindE_run [sync_simps]

lemma bindE_sync [sync_simps]:
  "bindE (failE e) k st = (Inl (FeRemote e), st)"
  "bindE (fsB h) k'' st = k'' (fst (h (en_fs st))) (st\<lparr>en_fs := snd (h (en_fs st))\<rparr>)"
  by (simp_all add: sync_op_defs case_prod_beta)

lemma fsE_Inr: "fsE f st = (Inr u, st') \<longleftrightarrow> fst (f (en_fs st)) \<and> st' = st\<lparr>en_fs := snd (f (en_fs st))\<rparr>"
  by (auto simp: sync_op_defs split: prod.splits)

lemma stat_of_md_wf [simp]: "stat_wf (stat_of_md md)"
  by (simp add: stat_wf_def stat_of_md_def dir_stat_def)

lemma local_stat_dir: "local_stat env rel st = Some s \<Longrightarrow> st_kind s = EkDir \<Longrightarrow> st_size s = 0 \<and> st_mtime_ns s = 0"
  by (auto simp: local_stat_def stat_of_md_def dir_stat_def split: if_splits)

lemma snapshot_wf_put: "snapshot_wf sn \<Longrightarrow> stat_wf s \<Longrightarrow> snapshot_wf (hm_put p s sn)"
  unfolding snapshot_wf_def by (induction sn) (auto split: if_splits)

lemma stat_wf_simps [simp]: "stat_wf (dir_stat v)" "stat_wf (stat_of_attr a)"
  by (simp_all add: stat_wf_def dir_stat_def stat_of_attr_def)

lemma remote_page_wf:
  "snapshot_wf snap \<Longrightarrow> snapshot_wf (fst (remote_page lib ex dir es (snap, dirs)))"
  by (induction es arbitrary: snap dirs) (auto simp: Let_def snapshot_wf_put split: FileKind.splits)

lemma remote_loop_wf:
  assumes "remote_loop env ex dirs cur snap st = Some y" "snapshot_wf snap"
  shows "case fst y of Inr sn \<Rightarrow> snapshot_wf sn | Inl e \<Rightarrow> True"
  using assms
proof (induction rule: remote_loop.raw_induct [rotated, consumes 1, case_names step])
  case (step go env ex dirs cur snap st y)
  show ?case
  proof (cases cur)
    case None
    then show ?thesis using step by (auto split: list.splits)
  next
    case (Some dc)
    show ?thesis
    proof (cases "fst (net2E env (ReqReaddir (fst dc) (snd dc)) st)")
      case (Inr resp)
      show ?thesis
      proof (cases resp)
        case (RspDir es nxt)
        with step(2) Some Inr have "go env ex (snd (remote_page (ev_globs env) ex (fst dc) es (snap, dirs)))
            (map_option (Pair (fst dc)) nxt) (fst (remote_page (ev_globs env) ex (fst dc) es (snap, dirs)))
            (snd (net2E env (ReqReaddir (fst dc) (snd dc)) st)) = Some y" by simp
        then show ?thesis using step(1) remote_page_wf [OF step(3)] by blast
      qed (use step(2) Some Inr in auto)
    qed (use step(2) Some in auto)
  qed
qed

lemma plan_path_adopt: "Adopt p s \<in> set (plan_path base l r path) \<Longrightarrow> p = path \<and> r = Some s"
  by (cases l; cases r; cases "l_changed base l"; cases "r_changed base r") (simp_all add: plan_path_def split: if_split_asm)

lemma plan_adopts_remote: "Adopt p s \<in> set (plan m l r) \<Longrightarrow> hm_get r p = Some s"
  using plan_path_adopt unfolding plan_def by fastforce

lemma set_schedule [simp]: "set (schedule as) = set as"
  by (auto simp: schedule_def)

locale sync_base =
  fixes R :: "('f, 'n) Engine \<Rightarrow> ('f, 'n) Engine \<Rightarrow> bool"
  assumes refl: "R st st"
    and trans: "R st st' \<Longrightarrow> R st' st'' \<Longrightarrow> R st st''"
    and net: "R st (st\<lparr>en_net := n\<rparr>)"
    and suppress: "R st (st\<lparr>en_suppress := sp\<rparr>)"
    and stats: "ss_pending ss = ss_pending (en_stats st) \<Longrightarrow> R st (st\<lparr>en_stats := ss\<rparr>)"
    and put: "entry_wf e \<Longrightarrow> R st (on_manifest (hm_put rel e) st)"
    and del: "R st (on_manifest (hm_del rel) st)"
    and retain: "R st (on_manifest (hm_retain P) st)"
    and moved: "R st (st\<lparr>en_manifest := snd (rename_prefix a b (en_manifest st))\<rparr>)"
    and seen: "R st (seen_seq q st)"
    and queue: "R st (enqueue op st)"
begin

lemma ok_ret [ok_rules]: "ok_at R (retE x) st" "ok_at R (failE e) st" "ok_at R (ofE r) st" "ok_at R (getE f) st"
  by (simp_all add: ok_at_def refl sync_op_defs)

lemma ok_get [ok_rules]: "ok_at R (k (f st)) st \<Longrightarrow> ok_at R (bindE (getE f) k) st"
  by (simp add: ok_at_def getE_def bindE_def)

lemma ok_bind [ok_rules]:
  "ok_at R m st \<Longrightarrow> (\<And>x st'. ok_at R (k x) st') \<Longrightarrow> ok_at R (bindE m k) st"
  by (auto simp: ok_at_def bindE_def split: prod.splits sum.splits intro: trans)

lemma ok_try [ok_rules]: "ok_at R m st \<Longrightarrow> ok_at R (tryE m) st"
  by (simp add: ok_at_def tryE_def case_prod_beta)

lemma ok_net [ok_rules]: "ok_at R (netE env req) st" "ok_at R (net2E env req) st"
  by (auto simp: ok_at_def sync_op_defs net split: prod.splits sum.splits)

lemma ok_expect [ok_rules]: "ok_at R (expect rel x) st" "ok_at R (is_own_echo env rel) st"
  by (auto simp: ok_at_def expect_def modE_def is_own_echo_def suppress refl split: option.splits)

lemma ok_entries [ok_rules]:
  "(kind = EkDir \<Longrightarrow> sz = 0 \<and> t = 0) \<Longrightarrow> ok_at R (record_entry rel kind sz t v) st"
  "ok_at R (forget_entry rel) st" "ok_at R (forget_tree rel) st"
  by (auto simp: ok_at_def record_entry_def forget_entry_def forget_tree_def modE_def entry_wf_def intro: put del retain)

lemma ok_count [ok_rules]: "(\<And>ss. ss_pending (f ss) = ss_pending ss) \<Longrightarrow> ok_at R (count f) st"
  by (simp add: ok_at_def count_def modE_def stats)

lemma ok_enqueue [ok_rules]: "ok_at R (modE (enqueue op)) st"
  by (simp add: ok_at_def modE_def queue)

lemma ok_rename_prefix [ok_rules]:
  "ok_at R (\<lambda>st. case rename_prefix a b (en_manifest st) of (any, m) \<Rightarrow> (Inr any, st\<lparr>en_manifest := m\<rparr>)) st"
  using moved [of st a b] by (simp add: ok_at_def case_prod_beta)

lemma ok_if [ok_rules]: "(c \<Longrightarrow> ok_at R m st) \<Longrightarrow> (\<not> c \<Longrightarrow> ok_at R m' st) \<Longrightarrow> ok_at R (if c then m else m') st"
  by simp

lemma ok_fetch_chunks [ok_rules]: "ok_at R (fetch_chunks env fh cs out) st"
  by (induction cs arbitrary: out st) (auto intro!: ok_rules split: Response.splits)

lemma ok_write_chunks [ok_rules]: "ok_at R (write_chunks env fh i cs) st"
  by (induction cs arbitrary: i st) (auto intro!: ok_rules split: Response.splits sum.splits)

lemma ok_upload [ok_rules]: "ok_at R (upload env rel full) st"
  unfolding upload_def by (auto intro!: ok_rules split: Response.splits option.splits)

lemma ok_push_file [ok_rules]: "ok_at R (push_file env rel) st"
  unfolding push_file_def by (auto intro!: ok_rules split: option.splits)

lemma ok_push_kept [ok_rules]: "ok_at R (push_kept env keep kept) st"
  unfolding push_kept_def by (auto intro!: ok_rules)

lemma ok_mkdir_remote [ok_rules]: "ok_at R (mkdir_remote env rel) st"
  unfolding mkdir_remote_def by (auto intro!: ok_rules split: sum.splits)

lemma ok_push_children [ok_rules]: "ok_at R (push_children env rel cs) st"
  by (induction cs arbitrary: st) (auto intro!: ok_rules simp: Let_def)

lemma ok_push_new_dir [ok_rules]: "ok_at R (push_new_dir_contents env rel) st"
  unfolding push_new_dir_contents_def by (auto intro!: ok_rules split: option.splits)

end

locale sync_frame = sync_base +
  assumes fs: "R st (st\<lparr>en_fs := f\<rparr>)"
begin

lemma ok_fs [ok_rules]: "ok_at R (fsB f) st" "ok_at R (fsE f) st"
  by (auto simp: ok_at_def sync_op_defs fs split: prod.splits)

lemma ok_download [ok_rules]: "ok_at R (download_to env rel staging) st"
  unfolding download_to_def fetch_body_def by (auto intro!: ok_rules split: Response.splits)

lemma ok_pull [ok_rules]: "ok_at R (pull env rel) st"
  unfolding pull_def Let_def by (auto intro!: ok_rules split: option.splits sum.splits)

lemma ok_keep_remote [ok_rules]: "ok_at R (keep_remote env rel keep) st"
  unfolding keep_remote_def Let_def by (auto intro!: ok_rules split: option.splits sum.splits)

lemma ok_resolve_conflict [ok_rules]: "ok_at R (resolve_conflict env rel l r) st"
  unfolding resolve_conflict_def by (auto intro!: ok_rules)

lemma ok_pull_if_needed [ok_rules]: "ok_at R (pull_if_needed env rel) st"
  unfolding pull_if_needed_def Let_def
  by (auto intro!: ok_rules split: sum.splits Response.splits option.splits) (metis local_stat_dir)+

lemma ok_expect_absent [ok_rules]: "ok_at R (expect_absent rel cs) st"
  by (induction cs arbitrary: st) (auto intro!: ok_rules)

lemma ok_delete_local [ok_rules]: "ok_at R (delete_local env rel) st"
  unfolding delete_local_def by (auto intro!: ok_rules split: option.splits)

lemma ok_rename_locally [ok_rules]: "ok_at R (rename_locally env rel to_rel) st"
  unfolding rename_locally_def by (auto intro!: ok_rules split: option.splits)

lemma ok_apply_remote [ok_rules]: "ok_at R (apply_remote env ev) st"
  unfolding apply_remote_def Let_def by (auto intro!: ok_rules split: EventKind.splits)

lemma ok_push_present [ok_rules]: "ok_at R (push_present env rel) st"
  unfolding push_present_def Let_def
  by (auto intro!: ok_rules split: sum.splits Response.splits option.splits)

lemma ok_push_removed [ok_rules]: "ok_at R (push_removed env rel) st"
  unfolding push_removed_def Let_def by (auto intro!: ok_rules split: sum.splits Response.splits option.splits)

lemma ok_push_renamed [ok_rules]: "ok_at R (push_renamed env rel to_rel) st"
  unfolding push_renamed_def
  by (auto intro!: ok_rules split: sum.splits option.splits) (metis local_stat_dir)+

lemma ok_push_local [ok_rules]: "ok_at R (push_local env rel kind) st"
  unfolding push_local_def by (auto intro!: ok_rules split: EventKind.splits)

lemma ok_action [ok_rules]:
  "(\<And>p s. a = Adopt p s \<Longrightarrow> stat_wf s) \<Longrightarrow> R st (run_action env a st)"
  using ok_rules unfolding run_action_def ok_at_def [symmetric]
  by (cases a) (auto intro!: ok_rules simp: stat_wf_def)

lemma ok_actions: "(\<And>p s. Adopt p s \<in> set as \<Longrightarrow> stat_wf s) \<Longrightarrow> R st (fold (run_action env) as st)"
proof (induction as arbitrary: st)
  case (Cons a as)
  have "R st (run_action env a st)" using Cons.prems by (intro ok_action) auto
  then show ?case using Cons trans by (metis fold_simps(2) list.set_intros(2))
qed (simp add: refl)

lemma ok_remote_loop:
  assumes "remote_loop env ex dirs cur snap st = Some y"
  shows "R st (snd y)"
  using assms
proof (induction rule: remote_loop.raw_induct [rotated, consumes 1, case_names step])
  case (step go env ex dirs cur snap st y)
  have req: "R st (snd (net2E env q st))" for q using ok_net(2) [of env q st] by (simp add: ok_at_def)
  show ?case
  proof (cases cur)
    case None
    then show ?thesis using step by (auto simp: refl split: list.splits)
  next
    case (Some dc)
    note net = req [of "ReqReaddir (fst dc) (snd dc)"]
    show ?thesis
    proof (cases "fst (net2E env (ReqReaddir (fst dc) (snd dc)) st)")
      case (Inr resp)
      show ?thesis
      proof (cases resp)
        case (RspDir es nxt)
        with step(2) Some Inr have "go env ex (snd (remote_page (ev_globs env) ex (fst dc) es (snap, dirs)))
            (map_option (Pair (fst dc)) nxt) (fst (remote_page (ev_globs env) ex (fst dc) es (snap, dirs)))
            (snd (net2E env (ReqReaddir (fst dc) (snd dc)) st)) = Some y" by simp
        then show ?thesis using trans [OF net step(1)] by blast
      qed (use step(2) Some Inr net in auto)
    qed (use step(2) Some net in auto)
  qed
qed

lemma ok_reconcile: "reconcile env st = Some (r, st') \<Longrightarrow> R st st'"
proof -
  assume rec: "reconcile env st = Some (r, st')"
  then obtain y where y: "snapshot_remote env (en_exclude st) st = Some y" by (auto simp: reconcile_def split: option.splits)
  have walk: "R st (snd y)" using ok_remote_loop y unfolding snapshot_remote_def by blast
  show ?thesis
  proof (cases "fst y")
    case (Inr remote)
    have "snapshot_wf remote"
      using remote_loop_wf [of env "en_exclude st" "[Nil]" None "[]" st y] y Inr by (simp add: snapshot_remote_def snapshot_wf_def)
    then have "stat_wf s" if "Adopt p s \<in> set (plan m l remote)" for p s m l
      using plan_adopts_remote [OF that] map_of_SomeD unfolding snapshot_wf_def by metis
    then have "R (snd y) (fold (run_action env) (schedule (plan m l remote)) (snd y))" for m l
      using ok_actions [of "schedule (plan m l remote)"] by auto
    then show ?thesis using rec y Inr walk trans by (cases y) (auto simp: reconcile_def split: option.splits)
  qed (use rec y walk in \<open>cases y; auto simp: reconcile_def\<close>)
qed

lemma ok_run_op:
  assumes "run_op env op st = Some st'"
  shows "R st st'"
proof (cases op)
  case (OpRemote batch)
  have "R st (fold (\<lambda>ev st. seen_seq (ev_seq ev) (snd (apply_remote env ev st))) batch st)" for st
  proof (induction batch arbitrary: st)
    case (Cons ev batch)
    have "R st (seen_seq (ev_seq ev) (snd (apply_remote env ev st)))"
      using ok_apply_remote [of env ev st] seen trans unfolding ok_at_def by blast
    then show ?case using Cons trans by auto
  qed (simp add: refl)
  then show ?thesis using assms OpRemote by (auto simp: run_op_def)
next
  case (OpLocal batch)
  have "R st (fold (\<lambda>(path, kind) st. snd (push_local env path kind st)) batch st)" for st
  proof (induction batch arbitrary: st)
    case (Cons b batch)
    then show ?case using ok_push_local [of env "fst b" "snd b" st] trans by (auto simp: ok_at_def case_prod_beta)
  qed (simp add: refl)
  then show ?thesis using assms OpLocal by (auto simp: run_op_def)
next
  case OpReconcile
  then show ?thesis using assms ok_reconcile by (auto simp: run_op_def)
qed

end

section \<open>The shape of the baseline\<close>

lemma list_all_put: "list_all (\<lambda>(p, e). P e) es \<Longrightarrow> P e \<Longrightarrow> list_all (\<lambda>(p, e). P e) (hm_put rel e es)"
  by (induction es) auto

lemma entries_wf_put: "entries_wf es \<Longrightarrow> entry_wf e \<Longrightarrow> entries_wf (hm_put rel e es)"
  by (simp add: entries_wf_def list_all_put)

lemma entries_wf_del: "entries_wf es \<Longrightarrow> entries_wf (hm_del rel es)"
proof -
  have "set (hm_del rel es) \<subseteq> set es" by (auto simp: AList.delete_eq)
  then show "entries_wf es \<Longrightarrow> entries_wf (hm_del rel es)" by (auto simp: entries_wf_def list_all_iff)
qed

lemma entries_wf_retain: "entries_wf es \<Longrightarrow> entries_wf (hm_retain P es)"
  by (simp add: entries_wf_def) (auto simp: list_all_iff hm_retain_def)

lemma entries_wf_puts:
  "entries_wf es \<Longrightarrow> list_all (\<lambda>(p, e). entry_wf e) moved \<Longrightarrow> entries_wf (foldl (\<lambda>es (p, e). hm_put p e es) es moved)"
  by (induction moved arbitrary: es) (simp_all add: case_prod_beta entries_wf_put)

lemma entries_wf_moved:
  "entries_wf es \<Longrightarrow>
   list_all (\<lambda>(p, e). entry_wf e) (List.map_filter (\<lambda>(path, entry). map_option (\<lambda>q. (q, entry)) (f path)) (hm_sorted es))"
  by (auto simp: entries_wf_def list_all_iff List.map_filter_def)

lemma manifest_wf_rename: "manifest_wf m \<Longrightarrow> manifest_wf (snd (rename_prefix a b m))"
  unfolding rename_prefix_def Let_def manifest_wf_def
  by (simp add: entries_wf_puts entries_wf_retain entries_wf_moved)

interpretation shape: sync_frame "\<lambda>st st'. manifest_wf (en_manifest st) \<longrightarrow> manifest_wf (en_manifest st')"
  by unfold_locales
    (simp_all add: on_manifest_def manifest_wf_def entries_wf_put entries_wf_del entries_wf_retain seen_seq_def enqueue_def
      manifest_wf_rename [unfolded manifest_wf_def])

definition balance :: "('f, 'n) Engine \<Rightarrow> u64" where
  "balance st = ss_pending (en_stats st) - of_nat (length (en_queue st))"

interpretation pending: sync_frame "\<lambda>st st'. en_stopped st' = en_stopped st \<and> balance st' = balance st"
  by unfold_locales (auto simp: balance_def on_manifest_def seen_seq_def enqueue_def)

interpretation config: sync_frame "\<lambda>st st'. en_root st' = en_root st \<and> en_exclude st' = en_exclude st \<and> en_policy st' = en_policy st
    \<and> en_now st' = en_now st \<and> en_wall st' = en_wall st \<and> en_manifest_path st' = en_manifest_path st"
  by unfold_locales (auto simp: on_manifest_def seen_seq_def enqueue_def)

lemma config_root [simp]: "en_root (snd (download_to env rel staging st)) = en_root st"
  "en_root (snd (push_file env rel st)) = en_root st" "en_root (snd (pull env rel st)) = en_root st"
  using config.ok_download [of env rel staging st] config.ok_push_file [of env rel st] config.ok_pull [of env rel st]
  by (simp_all add: ok_at_def)

lemma executor_turn_wf:
  assumes "executor_turn env st = Some st'" "manifest_wf (en_manifest st)"
  shows "manifest_wf (en_manifest st')"
  using assms shape.ok_run_op [of env]
  by (fastforce simp: executor_turn_def finish_op_def Let_def split: list.splits if_splits)

text \<open>C31: the baseline keeps its shape whatever the engine does: no two entries for a path, and no size or time stamp
  on a directory, over any number of turns of the executor, failed transfers and hostile replies included.\<close>

theorem manifest_stays_wf:
  assumes "executor n env st = Some st'" "manifest_wf (en_manifest st)"
  shows "manifest_wf (en_manifest st')"
  using assms
proof (induction n arbitrary: st)
  case (Suc n)
  then obtain st1 where "executor_turn env st = Some st1" "executor n env st1 = Some st'" by (auto simp: bind_eq_Some_conv)
  then show ?case using Suc executor_turn_wf by blast
qed simp

lemma executor_turn_pending:
  assumes "executor_turn env st = Some st'" "\<not> en_stopped st" "balance st = 0"
  shows "\<not> en_stopped st' \<and> balance st' = 0"
proof (cases "en_queue st")
  case (Cons op rest)
  let ?st1 = "st\<lparr>en_queue := rest\<rparr>"
  obtain st2 where st2: "run_op env op ?st1 = Some st2" "st' = finish_op env st2"
    using assms(1,2) Cons by (auto simp: executor_turn_def Let_def)
  then have "\<not> en_stopped st2" "balance st2 = balance ?st1" using pending.ok_run_op [OF st2(1)] assms(2) by auto
  moreover have "balance ?st1 = 1" using assms(3) Cons by (simp add: balance_def)
  ultimately show ?thesis using st2(2) by (simp add: finish_op_def balance_def) (simp add: diff_diff_eq diff_eq_eq)
qed (use assms in \<open>simp add: executor_turn_def\<close>)

text \<open>C32: the pending counter counts the queue: after any number of turns of a running engine, also when the turns
  enqueued work themselves, the engine reports quiescence exactly when nothing is left to process.\<close>

theorem quiescent_iff_idle:
  assumes "executor n env st = Some st'" "\<not> en_stopped st" "ss_pending (en_stats st) = of_nat (length (en_queue st))"
    "length (en_queue st') < 2 ^ 64"
  shows "ss_pending (en_stats st') = of_nat (length (en_queue st')) \<and> (is_quiescent st' \<longleftrightarrow> en_queue st' = [])"
proof -
  have "balance st' = 0" using assms(1-3)
  proof (induction n arbitrary: st)
    case (Suc n)
    then obtain st1 where st1: "executor_turn env st = Some st1" "executor n env st1 = Some st'" by (auto simp: bind_eq_Some_conv)
    have "\<not> en_stopped st1 \<and> balance st1 = 0"
      using executor_turn_pending [OF st1(1) Suc.prems(2)] Suc.prems(3) by (simp add: balance_def)
    then show ?case using Suc.IH [OF st1(2)] by (simp add: balance_def)
  qed (simp add: balance_def)
  then have eq: "ss_pending (en_stats st') = of_nat (length (en_queue st'))" by (simp add: balance_def)
  have "(of_nat (length (en_queue st')) :: u64) = 0 \<longleftrightarrow> en_queue st' = []"
    using assms(4) by (auto simp: word_of_nat_eq_0_iff dest!: dvd_imp_le)
  then show ?thesis using eq by (simp add: is_quiescent_def)
qed

end
