(* ===== verification/Sync_Props.thy ===== *)
theory Sync_Props
  imports Sync_Laws
begin

text \<open>
  What a sync run does to the local tree: a pull mirrors the server's file exactly and is recognised as the engine's
  own change afterwards, a conflict never loses the local content, and the cases in which the engine does lose some.

  The local file system enters through \<open>store_laws\<close>, the documented behaviour of the calls on a tree in which no two
  paths name the same file; \<open>mem_env\<close> at the end is a concrete file system that has it.
\<close>

section \<open>Documented behaviour of the local file system\<close>

abbreviation same_but :: "('f, 'n) env \<Rightarrow> abs_path set \<Rightarrow> 'f \<Rightarrow> 'f \<Rightarrow> bool" where
  "same_but env S fs fs' \<equiv> \<forall>q. q \<notin> S \<longrightarrow> lf_read env fs' q = lf_read env fs q"

definition regular :: "bytes \<Rightarrow> SystemTime \<Rightarrow> Metadata \<Rightarrow> bool" where
  "regular data t md = (\<not> md_is_dir md \<and> \<not> md_is_symlink md \<and> md_len md = of_nat (length data) \<and> md_modified md = Some t)"

definition store_laws :: "('f, 'n) env \<Rightarrow> bool" where
  "store_laws env =
    ((\<forall>p fs. same_but env {} fs (snd (lf_create_dir_all env p fs)))
     \<and> (\<forall>p d fs. same_but env {p} fs (snd (lf_write env p d fs)))
     \<and> (\<forall>p d fs. fst (lf_write env p d fs) \<longrightarrow> lf_read env (snd (lf_write env p d fs)) p = Some d)
     \<and> (\<forall>p t fs. same_but env {} fs (snd (lf_set_modified env p t fs)))
     \<and> (\<forall>p t fs d. fst (lf_set_modified env p t fs) \<longrightarrow> lf_read env fs p = Some d \<longrightarrow>
          (\<exists>md. lf_lstat env (snd (lf_set_modified env p t fs)) p = Some md \<and> regular d t md))
     \<and> (\<forall>p q fs. same_but env {p, q} fs (snd (lf_rename env p q fs)))
     \<and> (\<forall>p q fs. fst (lf_rename env p q fs) \<longrightarrow> lf_read env (snd (lf_rename env p q fs)) q = lf_read env fs p
          \<and> lf_lstat env (snd (lf_rename env p q fs)) q = lf_lstat env fs p)
     \<and> (\<forall>p q fs. same_but env {q} fs (snd (lf_copy env p q fs)))
     \<and> (\<forall>p q fs. fst (lf_copy env p q fs) \<longrightarrow> lf_read env (snd (lf_copy env p q fs)) q = lf_read env fs p)
     \<and> (\<forall>p fs. same_but env {p} fs (snd (lf_remove_file env p fs))))"

text \<open>Operations that leave the files outside a set of paths alone.\<close>

definition leaves :: "('f, 'n) env \<Rightarrow> abs_path set \<Rightarrow> ('f, 'n) Engine \<Rightarrow> ('f, 'n) Engine \<Rightarrow> bool" where
  "leaves env S st st' = same_but env S (en_fs st) (en_fs st')"

interpretation leaves: sync_base "leaves env S" for env S
  by unfold_locales (auto simp: leaves_def on_manifest_def seen_seq_def enqueue_def)

interpretation disk: sync_base "\<lambda>st st'. en_fs st' = en_fs st"
  by unfold_locales (auto simp: on_manifest_def seen_seq_def enqueue_def)

lemma store_lawsD:
  assumes "store_laws env"
  shows "lf_read env (snd (lf_create_dir_all env p fs)) q = lf_read env fs q"
    and "q \<noteq> p \<Longrightarrow> lf_read env (snd (lf_write env p d fs)) q = lf_read env fs q"
    and "fst (lf_write env p d fs) \<Longrightarrow> lf_read env (snd (lf_write env p d fs)) p = Some d"
    and "lf_read env (snd (lf_set_modified env p t fs)) q = lf_read env fs q"
    and "fst (lf_set_modified env p t fs) \<Longrightarrow> lf_read env fs p = Some d \<Longrightarrow>
      \<exists>md. lf_lstat env (snd (lf_set_modified env p t fs)) p = Some md \<and> regular d t md"
    and "q \<noteq> p \<Longrightarrow> q \<noteq> p' \<Longrightarrow> lf_read env (snd (lf_rename env p p' fs)) q = lf_read env fs q"
    and "fst (lf_rename env p p' fs) \<Longrightarrow> lf_read env (snd (lf_rename env p p' fs)) p' = lf_read env fs p"
    and "fst (lf_rename env p p' fs) \<Longrightarrow> lf_lstat env (snd (lf_rename env p p' fs)) p' = lf_lstat env fs p"
    and "q \<noteq> p' \<Longrightarrow> lf_read env (snd (lf_copy env p p' fs)) q = lf_read env fs q"
    and "fst (lf_copy env p p' fs) \<Longrightarrow> lf_read env (snd (lf_copy env p p' fs)) p' = lf_read env fs p"
    and "q \<noteq> p \<Longrightarrow> lf_read env (snd (lf_remove_file env p fs)) q = lf_read env fs q"
  using assms unfolding store_laws_def by (elim conjE, simp)+

lemma leaves_fs:
  assumes "store_laws env"
  shows "ok_at (leaves env S) (fsB (lf_create_dir_all env p)) st"
    and "p \<in> S \<Longrightarrow> ok_at (leaves env S) (fsB (lf_write env p d)) st"
    and "ok_at (leaves env S) (fsB (lf_set_modified env p t)) st"
    and "p \<in> S \<Longrightarrow> p' \<in> S \<Longrightarrow> ok_at (leaves env S) (fsB (lf_rename env p p')) st"
    and "p' \<in> S \<Longrightarrow> ok_at (leaves env S) (fsB (lf_copy env p p')) st"
    and "p \<in> S \<Longrightarrow> ok_at (leaves env S) (fsB (lf_remove_file env p)) st"
  unfolding ok_at_def leaves_def fsB_def
  by (auto simp: case_prod_beta store_lawsD [OF assms] intro!: store_lawsD(2,6,9,11) [OF assms])

lemma leaves_fsE: "ok_at (leaves env S) (fsB f) st \<Longrightarrow> ok_at (leaves env S) (fsE f) st"
  unfolding fsE_def by (rule leaves.ok_bind) (auto intro: leaves.ok_ret)

lemma download_leaves:
  assumes "store_laws env" "staging \<in> S"
  shows "ok_at (leaves env S) (download_to env rel staging) st"
  unfolding download_to_def fetch_body_def
  using assms by (auto intro!: leaves.ok_get leaves.ok_bind leaves.ok_ret leaves.ok_try leaves.ok_net
      leaves.ok_fetch_chunks leaves_fsE leaves_fs split: Response.splits)

lemma pull_leaves:
  assumes "store_laws env" "full_path (en_root st) rel \<in> S" "butlast (full_path (en_root st) rel) @ [staging_name (last (full_path (en_root st) rel))] \<in> S"
  shows "ok_at (leaves env S) (pull env rel) st"
  unfolding pull_def Let_def
  using assms by (auto intro!: leaves.ok_get leaves.ok_bind leaves.ok_ret leaves.ok_try leaves.ok_net
      leaves.ok_expect leaves.ok_entries leaves.ok_count download_leaves leaves_fsE leaves_fs
      simp: parent_of_def file_name_def split: option.splits sum.splits if_splits)

section \<open>Names\<close>

lemma split_on_append_name:
  "c \<notin> set t \<Longrightarrow> split_on c (s @ t) = butlast (split_on c s) @ [last (split_on c s) @ t]"
  by (induction s rule: split_on.induct [of _ c]) (auto simp: path_simps split: list.splits)

lemma dec_digits: "ch \<in> set (dec n) \<Longrightarrow> (48 :: nat) \<le> of_char ch \<and> of_char ch \<le> (57 :: nat)"
proof (induction n rule: dec.induct)
  case (1 n)
  then show ?case by (subst (asm) (2) dec.simps) (auto split: if_splits)
qed

lemma conflict_suffix_no_slash: "CHR ''/'' \<notin> set (''.sync-conflict-'' @ dec ts)"
  using dec_digits [of "CHR ''/''" ts] by auto

text \<open>A path whose last component is a name, with the directory it is in.\<close>

definition dir_of :: "abs_path \<Rightarrow> string \<Rightarrow> abs_path" where
  "dir_of root rel = root @ filter (\<lambda>c. c \<noteq> []) (butlast (split_on CHR ''/'' rel))"

definition name_part :: "string \<Rightarrow> string" where
  "name_part rel = last (split_on CHR ''/'' rel)"

lemma filter_snoc: "xs \<noteq> [] \<Longrightarrow> P (last xs) \<Longrightarrow> filter P xs = filter P (butlast xs) @ [last xs]"
  by (induction xs rule: rev_induct) auto

lemma full_path_name: "name_part rel \<noteq> [] \<Longrightarrow> full_path root rel = dir_of root rel @ [name_part rel]"
  by (simp add: full_path_def dir_of_def name_part_def filter_snoc)

lemma conflict_name_parts:
  "name_part (conflict_name ts rel) = name_part rel @ ''.sync-conflict-'' @ dec ts"
  "dir_of root (conflict_name ts rel) = dir_of root rel"
  using split_on_append_name [OF conflict_suffix_no_slash [of ts], of rel]
  by (simp_all add: name_part_def dir_of_def conflict_name_def)

lemma full_path_conflict:
  "full_path root (conflict_name ts rel) = dir_of root rel @ [name_part rel @ ''.sync-conflict-'' @ dec ts]"
  by (subst full_path_name) (simp_all add: conflict_name_parts)

lemma names_apart:
  "name_part rel @ ''.sync-conflict-'' @ dec ts \<noteq> name_part rel"
  "name_part rel @ ''.sync-conflict-'' @ dec ts \<noteq> staging_name (name_part rel)"
  "\<not> is_internal rel \<Longrightarrow> name_part rel \<noteq> staging_name name"
proof -
  have "length (name_part rel @ ''.sync-conflict-'' @ dec ts) \<noteq> length (staging_name (name_part rel))"
    by (simp add: staging_name_def)
  then show "name_part rel @ ''.sync-conflict-'' @ dec ts \<noteq> staging_name (name_part rel)" by metis
qed (auto simp: is_internal_def name_part_def staging_name_def)

section \<open>Conflicts\<close>

lemma push_file_disk [simp]: "en_fs (snd (push_file env rel st)) = en_fs st" "en_fs (snd (push_kept env keep kept st)) = en_fs st"
  using disk.ok_push_file [of env rel st] disk.ok_push_kept [of env keep kept st] by (simp_all add: ok_at_def)

text \<open>What an operation leaves, read off at one path.\<close>

lemma leaves_read: "ok_at (leaves env S) m st \<Longrightarrow> q \<notin> S \<Longrightarrow> lf_read env (en_fs (snd (m st))) q = lf_read env (en_fs st) q"
  by (simp add: ok_at_def leaves_def)

lemma disk_bind: "(\<And>x st. en_fs (snd (k x st)) = en_fs st) \<Longrightarrow> en_fs (snd (bindE m k st)) = en_fs (snd (m st))"
  by (simp add: bindE_def split: prod.splits sum.splits)

lemma disk_simps [simp]:
  "en_fs (snd (tryE m st)) = en_fs (snd (m st))" "en_fs (snd (ofE r st)) = en_fs st" "en_fs (snd (retE x st)) = en_fs st"
  by (simp_all add: sync_op_defs split: prod.splits)

lemma keep_remote_leaves:
  assumes "store_laws env" "name_part rel \<noteq> []"
    and "\<not> is_internal rel"
  shows "lf_read env (en_fs (snd (keep_remote env rel (conflict_name ts rel) st))) (full_path (en_root st) rel)
    = lf_read env (en_fs st) (full_path (en_root st) rel)"
proof -
  let ?full = "full_path (en_root st) (conflict_name ts rel)"
  let ?staging = "\<lambda>n. with_file_name ?full (staging_name n)"
  let ?S = "{?full, ?staging (case file_name ?full of Some n \<Rightarrow> n | None \<Rightarrow> ''conflict'')}"
  have "ok_at (leaves env ?S) (keep_remote env rel (conflict_name ts rel)) st"
    unfolding keep_remote_def Let_def
    by (auto intro!: leaves.ok_get leaves.ok_bind leaves.ok_ret leaves.ok_try download_leaves leaves_fs assms(1)
        split: option.splits sum.splits)
  moreover have "full_path (en_root st) rel \<notin> ?S"
    using names_apart(1) [of rel ts] names_apart(3) [OF assms(3)]
    by (auto simp: full_path_name [OF assms(2)] full_path_conflict with_file_name_def split: option.splits)
  ultimately show ?thesis by (rule leaves_read)
qed


section \<open>A pull mirrors the server's file\<close>

lemma upto_map_int: "[0..int m - 1] = map int [0..<m]"
proof (induction m)
  case (Suc m)
  then show ?case using upto_rec2 [of 0 "int m"] by simp
qed simp

lemma concat_slices: "concat (map (\<lambda>i. take c (drop (i * c) xs)) [0..<m]) = take (m * c) xs"
proof (induction m)
  case (Suc m)
  then show ?case using take_add [of "m * c" c xs] by (simp add: add.commute)
qed simp

lemma unat_of_int_small: "k < 2 ^ LENGTH('a) \<Longrightarrow> unat (word_of_int (int k) :: 'a::len word) = k"
  by (simp add: unsigned_of_nat take_bit_nat_eq_self)

lemma chunk_plan_exact:
  assumes "length data < 2 ^ 64"
  shows "concat (map (\<lambda>(off, len). take (unat len) (drop (unat off) data)) (chunk_plan (of_nat (length data)))) = data"
proof (cases "data = []")
  case True
  then show ?thesis by (simp add: chunk_plan_def DATA_CHUNK_def)
next
  case False
  define c where "c = (131072 :: nat)"
  define n where "n = length data"
  define m where "m = Suc ((n - 1) div c)"
  have pos: "0 < n" "0 < c" "c < 2 ^ 32" using False by (simp_all add: n_def c_def)
  have size: "uint (of_nat n :: u64) = int n" using assms by (simp add: unsigned_of_nat take_bit_nat_eq_self n_def)
  have chunk: "uint DATA_CHUNK = int c" by (simp add: DATA_CHUNK_def c_def)
  have m: "(max (int n) 1 - 1) div int c = int m - 1"
    using pos by (simp add: m_def max_def of_nat_diff zdiv_int Suc_leI)
  have small: "i * c < n" if "i < m" for i
    using that pos by (auto simp: m_def less_Suc_eq_le less_eq_div_iff_mult_less_eq)
  let ?w = "\<lambda>i. (word_of_int (int (i * c)) :: u64, word_of_int (int (min (n - i * c) c)) :: u32)"
  have w: "unat (fst (?w i)) = i * c" "unat (snd (?w i)) = min (n - i * c) c" if "i < m" for i
    using small [OF that] assms pos unat_of_int_small [of "i * c", where 'a = 64] unat_of_int_small [of "min (n - i * c) c", where 'a = 32]
    by (simp_all add: n_def min_less_iff_disj)
  have "chunk_plan (of_nat n) = filter (\<lambda>(off, len). len > 0) (map ?w [0..<m])"
    unfolding chunk_plan_def Let_def size chunk m upto_map_int map_map
    using small by (intro arg_cong [where f = "filter _"] map_cong) (auto simp: of_nat_diff min_def less_imp_le simp flip: of_nat_mult)
  also have "\<dots> = map ?w [0..<m]"
    using w small pos by (intro filter_True) (auto simp: word_less_nat_alt simp del: of_int_of_nat_eq)
  finally have plan: "chunk_plan (of_nat n) = map ?w [0..<m]" .
  have "concat (map (\<lambda>(off, len). take (unat len) (drop (unat off) data)) (chunk_plan (of_nat n))) =
      concat (map (\<lambda>i. take c (drop (i * c) data)) [0..<m])"
    unfolding plan map_map using w by (intro arg_cong [where f = concat] map_cong) (simp_all add: n_def min_def del: of_int_of_nat_eq)
  also have "\<dots> = take (m * c) data" by (rule concat_slices)
  also have "\<dots> = data"
  proof -
    have "n - 1 < m * c" using pos by (simp add: m_def dividend_less_div_times)
    then show ?thesis by (simp add: n_def)
  qed
  finally show ?thesis by (simp add: n_def)
qed

text \<open>A server that serves a file: an open yields a handle and the attributes, and reads on that handle the slices
  of the content, in whatever state it is meanwhile.\<close>

definition serves_handle :: "('f, 'n) env \<Rightarrow> ('n \<Rightarrow> bool) \<Rightarrow> u64 \<Rightarrow> bytes \<Rightarrow> bool" where
  "serves_handle env I fh data = (\<forall>net off len. I net \<longrightarrow>
     (\<exists>net'. net_request env (ReqRead fh off len) net = (Inr (Inr (RspData (take (unat len) (drop (unat off) data)))), net') \<and> I net'))"

definition serves :: "('f, 'n) env \<Rightarrow> 'n \<Rightarrow> string \<Rightarrow> Attr \<Rightarrow> bytes \<Rightarrow> bool" where
  "serves env net rel attr data =
    (length data < 2 ^ 64 \<and> a_size attr = of_nat (length data)
     \<and> (\<exists>fh net' I. net_request env (ReqOpen rel (no_flags\<lparr>of_read := True\<rparr>)) net = (Inr (Inr (RspOpened fh attr)), net')
          \<and> I net' \<and> serves_handle env I fh data))"

lemma fetch_chunks_exact:
  assumes "serves_handle env I fh data" "I (en_net st)"
  shows "\<exists>net'. fetch_chunks env fh cs out st =
    (Inr (out @ concat (map (\<lambda>(off, len). take (unat len) (drop (unat off) data)) cs)), st\<lparr>en_net := net'\<rparr>) \<and> I net'"
  using assms(2)
proof (induction cs arbitrary: out st)
  case Nil
  have "st\<lparr>en_net := en_net st\<rparr> = st" by simp
  then show ?case using Nil by (intro exI [of _ "en_net st"]) (simp add: retE_def)
next
  case (Cons c cs)
  obtain off len where c: "c = (off, len)" by (cases c)
  obtain net' where net': "net_request env (ReqRead fh off len) (en_net st) =
      (Inr (Inr (RspData (take (unat len) (drop (unat off) data)))), net')" "I net'"
    using assms(1) Cons.prems unfolding serves_handle_def by blast
  then show ?case using Cons.IH [of "st\<lparr>en_net := net'\<rparr>" "out @ take (unat len) (drop (unat off) data)"]
    by (auto simp: c net2E_def netE_def bindE_def ofE_def)
qed

lemma download_exact:
  assumes "store_laws env" "serves env (en_net st) rel attr data" "download_to env rel staging st = (Inr attr', st')"
  shows "attr' = attr \<and> lf_read env (en_fs st') staging = Some data
    \<and> (\<exists>md. lf_lstat env (en_fs st') staging = Some md \<and> regular data (a_mtime attr) md)"
proof -
  have n: "length data < 2 ^ 64" "a_size attr = of_nat (length data)" using assms(2) by (simp_all add: serves_def)
  obtain fh net1 I where op: "net_request env (ReqOpen rel (no_flags\<lparr>of_read := True\<rparr>)) (en_net st) = (Inr (Inr (RspOpened fh attr)), net1)"
    and I: "I net1" and H: "serves_handle env I fh data"
    using assms(2) unfolding serves_def by (elim conjE exE)
  have "\<exists>net'. fetch_chunks env fh (chunk_plan (a_size attr)) [] (st\<lparr>en_net := net1\<rparr>) =
      (Inr ([] @ concat (map (\<lambda>(off, len). take (unat len) (drop (unat off) data)) (chunk_plan (a_size attr)))), st\<lparr>en_net := net1, en_net := net'\<rparr>) \<and> I net'"
    by (rule fetch_chunks_exact [OF H]) (simp add: I)
  then obtain net2 where body: "fetch_chunks env fh (chunk_plan (a_size attr)) [] (st\<lparr>en_net := net1\<rparr>) = (Inr data, st\<lparr>en_net := net2\<rparr>)"
    unfolding n(2) chunk_plan_exact [OF n(1)] by auto
  let ?wr = "lf_write env staging data (en_fs st)"
  have open_step: "net2E env (ReqOpen rel (no_flags\<lparr>of_read := True\<rparr>)) st = (Inr (RspOpened fh attr), st\<lparr>en_net := net1\<rparr>)"
    using op by (simp add: net2E_def netE_def bindE_def ofE_def)
  have fetched: "fetch_body env fh (a_size attr) staging (st\<lparr>en_net := net1\<rparr>) = fsE (lf_write env staging data) (st\<lparr>en_net := net2\<rparr>)"
    unfolding fetch_body_def bindE_def [of "fetch_chunks env fh (chunk_plan (a_size attr)) []"] body by simp
  define rel_st where "rel_st = snd (netE env (ReqRelease fh) (st\<lparr>en_net := net2, en_fs := snd ?wr\<rparr>))"
  have rel_fs: "en_fs rel_st = snd ?wr" by (simp add: rel_st_def netE_def case_prod_beta)
  have wrote: "fsE (lf_write env staging data) (st\<lparr>en_net := net2\<rparr>) =
      (if fst ?wr then Inr () else Inl (FeRemote IoError), st\<lparr>en_net := net2, en_fs := snd ?wr\<rparr>)"
    by (simp add: fsE_def sync_simps retE_def failE_def)
  have dl: "download_to env rel staging st =
      bindE (ofE (if fst ?wr then Inr () else Inl (FeRemote IoError))) (\<lambda>_.
        bindE (fsE (lf_set_modified env staging (a_mtime attr))) (\<lambda>_. retE attr)) rel_st"
    unfolding download_to_def bindE_def [of "net2E env (ReqOpen rel (no_flags\<lparr>of_read := True\<rparr>))"] open_step
    by (simp add: sync_simps fetched wrote rel_st_def)
  have "fst ?wr \<and> attr' = attr
     \<and> fst (lf_set_modified env staging (a_mtime attr) (snd ?wr)) \<and> en_fs st' = snd (lf_set_modified env staging (a_mtime attr) (snd ?wr))"
    using assms(3) [unfolded dl] rel_fs by (cases "fst ?wr") (auto simp: sync_simps bindE_Inr fsE_Inr retE_def)
  then have wr: "fst ?wr" "attr' = attr" "fst (lf_set_modified env staging (a_mtime attr) (snd ?wr))"
    "en_fs st' = snd (lf_set_modified env staging (a_mtime attr) (snd ?wr))" by auto
  show ?thesis
    using store_lawsD(3) [OF assms(1) wr(1)] store_lawsD(4) [OF assms(1)] store_lawsD(5) [OF assms(1) wr(3)] wr(2,4) by simp
qed

text \<open>A successful pull, step by step.\<close>

lemma pull_Inr:
  assumes "pull env rel st = (Inr u, st')" "name_part rel \<noteq> []"
  obtains attr st1 st2 where
    "st1 = st\<lparr>en_fs := snd (lf_create_dir_all env (dir_of (en_root st) rel) (en_fs st))\<rparr>"
    "download_to env rel (dir_of (en_root st) rel @ [staging_name (name_part rel)]) st1 = (Inr attr, st2)"
    "fst (lf_rename env (dir_of (en_root st) rel @ [staging_name (name_part rel)]) (full_path (en_root st) rel) (en_fs st2))"
    "en_fs st' = snd (lf_rename env (dir_of (en_root st) rel @ [staging_name (name_part rel)]) (full_path (en_root st) rel) (en_fs st2))"
    "baseline rel st' = Some \<lparr> sn_kind = EkFile, sn_remote_version = a_version attr, sn_size = a_size attr, sn_mtime_ns = mtime_ns_of (a_mtime attr) \<rparr>"
    "hm_get (en_suppress st') rel = Some \<lparr> sp_expect = Present (a_size attr) (mtime_ns_of (a_mtime attr)), sp_at = en_now st \<rparr>"
proof -
  let ?full = "full_path (en_root st) rel" and ?staging = "dir_of (en_root st) rel @ [staging_name (name_part rel)]"
  let ?st1 = "st\<lparr>en_fs := snd (lf_create_dir_all env (dir_of (en_root st) rel) (en_fs st))\<rparr>"
  have full: "?full = dir_of (en_root st) rel @ [name_part rel]" by (rule full_path_name [OF assms(2)])
  have parent: "parent_of ?full = Some (dir_of (en_root st) rel)" by (simp add: full parent_of_def)
  have "file_name ?full \<noteq> None"
    using assms(1) by (auto simp: pull_def sync_simps parent bindE_Inr [of "fsE _"] failE_def split: option.splits)
  then have name: "file_name ?full = Some (name_part rel)" by (auto simp: full file_name_def split: if_splits)
  have run: "bindE (tryE (download_to env rel ?staging)) (\<lambda>got.
      case got of
        Inl e \<Rightarrow> bindE (fsB (lf_remove_file env ?staging)) (\<lambda>_. ofE (Inl e))
      | Inr attr \<Rightarrow>
          bindE (expect rel (Present (a_size attr) (mtime_ns_of (a_mtime attr)))) (\<lambda>_.
          bindE (fsE (lf_rename env ?staging ?full)) (\<lambda>_.
          bindE (record_entry rel EkFile (a_size attr) (mtime_ns_of (a_mtime attr)) (a_version attr)) (\<lambda>_.
          count (\<lambda>ss. ss\<lparr>ss_pulls := ss_pulls ss + 1\<rparr>))))) ?st1 = (Inr u, st')"
    using assms(1) by (auto simp: pull_def sync_simps parent name bindE_Inr [of "fsE _"] fsE_Inr Let_def)
  obtain got st2 where got: "download_to env rel ?staging ?st1 = (got, st2)" by (cases "download_to env rel ?staging ?st1")
  have now: "en_now st2 = en_now st"
    using config.ok_download [of env rel ?staging ?st1] got by (simp add: ok_at_def)
  show ?thesis
  proof (cases got)
    case (Inl e)
    then show ?thesis using run got by (simp add: sync_simps ofE_def)
  next
    case (Inr attr)
    with run got have tail: "bindE (expect rel (Present (a_size attr) (mtime_ns_of (a_mtime attr)))) (\<lambda>_.
          bindE (fsE (lf_rename env ?staging ?full)) (\<lambda>_.
          bindE (record_entry rel EkFile (a_size attr) (mtime_ns_of (a_mtime attr)) (a_version attr)) (\<lambda>_.
          count (\<lambda>ss. ss\<lparr>ss_pulls := ss_pulls ss + 1\<rparr>)))) st2 = (Inr u, st')" by (simp add: sync_simps)
    show ?thesis
      by (rule that [OF refl, of attr st2])
        (use tail got Inr now in \<open>auto simp: expect_def record_entry_def count_def sync_simps bindE_Inr fsE_Inr modE_def
          baseline_def on_manifest_def hmap_simps\<close>)
  qed
qed


section \<open>A concrete disk and server\<close>

record LMem =
  lm_files :: "(abs_path, bytes \<times> SystemTime) hmap"
  lm_dirs :: "abs_path list"
  lm_full :: bool \<comment> \<open>no room for a copy\<close>

record SrvMem =
  sv_files :: "(string, bytes \<times> SystemTime \<times> u64) hmap"
  sv_open :: "(u64, string) hmap"

definition mem_plain :: "bool \<Rightarrow> nat \<Rightarrow> SystemTime \<Rightarrow> Metadata" where
  "mem_plain d n t = \<lparr> md_is_dir = d, md_is_symlink = False, md_len = of_nat n, md_modified = Some t, md_created = None, md_mode = 420 \<rparr>"

definition lm_lstat :: "LMem \<Rightarrow> abs_path \<Rightarrow> Metadata option" where
  "lm_lstat fs p =
    (case hm_get (lm_files fs) p of
       Some (d, t) \<Rightarrow> Some (mem_plain False (length d) t)
     | None \<Rightarrow> if p \<in> set (lm_dirs fs) then Some (mem_plain True 0 0) else None)"

definition sv_attr :: "bytes \<Rightarrow> SystemTime \<Rightarrow> u64 \<Rightarrow> Attr" where
  "sv_attr d t v = \<lparr> a_kind = File, a_size = of_nat (length d), a_mtime = t, a_ctime = 0, a_mode = 420, a_version = v \<rparr>"

fun sv_request :: "Request \<Rightarrow> SrvMem \<Rightarrow> (TransportError + Reply) \<times> SrvMem" where
  "sv_request (ReqOpen p fl) sv =
    (case hm_get (sv_files sv) p of
       Some (d, t, v) \<Rightarrow> (Inr (Inr (RspOpened 7 (sv_attr d t v))), sv\<lparr>sv_open := hm_put 7 p (sv_open sv)\<rparr>)
     | None \<Rightarrow> (Inr (Inl NotFound), sv))"
| "sv_request (ReqCreate p fl mode) sv =
    (Inr (Inr (RspOpened 7 (sv_attr [] 0 1))), sv\<lparr>sv_open := hm_put 7 p (sv_open sv), sv_files := hm_put p ([], 0, 1) (sv_files sv)\<rparr>)"
| "sv_request (ReqRead fh off len) sv =
    (case Option.bind (hm_get (sv_open sv) fh) (hm_get (sv_files sv)) of
       Some (d, t, v) \<Rightarrow> (Inr (Inr (RspData (take (unat len) (drop (unat off) d)))), sv)
     | None \<Rightarrow> (Inr (Inl BadHandle), sv))"
| "sv_request (ReqWrite fh off data ex) sv =
    (case hm_get (sv_open sv) fh of
       Some p \<Rightarrow> (Inr (Inr (RspWritten (of_nat (length data)) 2 False)), sv\<lparr>sv_files := hm_put p (data, 0, 2) (sv_files sv)\<rparr>)
     | None \<Rightarrow> (Inr (Inl BadHandle), sv))"
| "sv_request (ReqSetattr p sz mt mo) sv =
    (case hm_get (sv_files sv) p of
       Some (d, t, v) \<Rightarrow>
         let t' = (case mt of Some x \<Rightarrow> x | None \<Rightarrow> t)
         in (Inr (Inr (RspAttr (sv_attr d t' v))), sv\<lparr>sv_files := hm_put p (d, t', v) (sv_files sv)\<rparr>)
     | None \<Rightarrow> (Inr (Inl NotFound), sv))"
| "sv_request (ReqGetattr p) sv =
    (case hm_get (sv_files sv) p of Some (d, t, v) \<Rightarrow> (Inr (Inr (RspAttr (sv_attr d t v))), sv) | None \<Rightarrow> (Inr (Inl NotFound), sv))"
| "sv_request (ReqReaddir p c) sv =
    (Inr (Inr (RspDir (map (\<lambda>(n, d, t, v). \<lparr> de_name = n, de_attr = sv_attr d t v \<rparr>) (sv_files sv)) None)), sv)"
| "sv_request (ReqUnlink p) sv = (Inr (Inr RspOk), sv\<lparr>sv_files := hm_del p (sv_files sv)\<rparr>)"
| "sv_request _ sv = (Inr (Inr RspOk), sv)"

definition mem_env :: "(LMem, SrvMem) env" where
  "mem_env =
    \<lparr> lf_lstat = lm_lstat,
      lf_modified = (\<lambda>fs p. map_option snd (hm_get (lm_files fs) p)),
      lf_exists = (\<lambda>fs p. lm_lstat fs p \<noteq> None),
      lf_read_dir = (\<lambda>fs p. Some (map (\<lambda>q. Item (last q) (lm_lstat fs q) False None) (filter (\<lambda>q. q \<noteq> [] \<and> butlast q = p) (map fst (lm_files fs))))),
      lf_canonicalize = (\<lambda>fs p. Some p),
      lf_read = (\<lambda>fs p. map_option fst (hm_get (lm_files fs) p)),
      lf_read_to_string = (\<lambda>fs p. None),
      lf_create_dir_all = (\<lambda>p fs. (True, fs\<lparr>lm_dirs := p # lm_dirs fs\<rparr>)),
      lf_write = (\<lambda>p d fs. (True, fs\<lparr>lm_files := hm_put p (d, 0) (lm_files fs)\<rparr>)),
      lf_set_modified = (\<lambda>p t fs. case hm_get (lm_files fs) p of
          Some (d, _) \<Rightarrow> (True, fs\<lparr>lm_files := hm_put p (d, t) (lm_files fs)\<rparr>) | None \<Rightarrow> (False, fs)),
      lf_rename = (\<lambda>p q fs. case hm_get (lm_files fs) p of
          Some x \<Rightarrow> (True, fs\<lparr>lm_files := hm_put q x (hm_del p (lm_files fs))\<rparr>) | None \<Rightarrow> (False, fs)),
      lf_copy = (\<lambda>p q fs. case hm_get (lm_files fs) p of
          Some x \<Rightarrow> if lm_full fs then (False, fs) else (True, fs\<lparr>lm_files := hm_put q x (lm_files fs)\<rparr>) | None \<Rightarrow> (False, fs)),
      lf_remove_file = (\<lambda>p fs. (hm_has (lm_files fs) p, fs\<lparr>lm_files := hm_del p (lm_files fs)\<rparr>)),
      lf_remove_dir_all = (\<lambda>p fs. (True, fs)),
      net_request = sv_request,
      ev_globs = no_globs,
      ev_to_json = (\<lambda>m. None),
      ev_from_json = (\<lambda>s. None) \<rparr>"

lemma mem_net [simp]: "net_request mem_env = sv_request"
  by (simp add: mem_env_def)

lemma mem_store_laws: "store_laws mem_env"
  unfolding store_laws_def mem_env_def
  by (auto simp: hmap_simps regular_def lm_lstat_def mem_plain_def split: option.splits)

definition demo_sync :: "ConflictPolicy \<Rightarrow> bool \<Rightarrow> (LMem, SrvMem) Engine" where
  "demo_sync pol full =
    engine_new \<lparr> lm_files = [([''h'', ''f''], [1, 2], 50)], lm_dirs = [[''h'']], lm_full = full \<rparr>
      \<lparr> sv_files = [(''f'', [3, 4, 5], 60, 9), (''g'', [6], 70, 4)], sv_open = [] \<rparr>
      10 3 [''h''] ''x'' no_excludes manifest_default [''m''] (sync_options_default\<lparr>so_conflict_policy := pol\<rparr>)"



text \<open>One reconcile of the demo engine: the conflict on \<open>f\<close> is resolved for the server, \<open>g\<close> is pulled.\<close>

definition demo_done :: "(LMem, SrvMem) Engine" where
  "demo_done = the (executor 1 mem_env (enqueue OpReconcile (demo_sync PolNewer False)))"

lemma demo_done_run: "executor 1 mem_env (enqueue OpReconcile (demo_sync PolNewer False)) = Some demo_done"
  unfolding demo_done_def by code_simp

theorem manifest_stays_wf_witness:
  "manifest_wf (en_manifest demo_done)
   \<and> map fst (hm_sorted (sm_entries (en_manifest demo_done))) = [''f'', ''f.sync-conflict-3'', ''g'']"
proof -
  have "manifest_wf (en_manifest (enqueue OpReconcile (demo_sync PolNewer False)))" by code_simp
  from manifest_stays_wf [OF demo_done_run this] show ?thesis by (rule conjI) code_simp
qed

theorem quiescent_iff_idle_witness:
  "is_quiescent demo_done \<and> \<not> is_quiescent (enqueue OpReconcile (demo_sync PolNewer False))"
proof -
  let ?st = "enqueue OpReconcile (demo_sync PolNewer False)"
  have a: "\<not> en_stopped ?st" by code_simp
  have b: "ss_pending (en_stats ?st) = of_nat (length (en_queue ?st))" by code_simp
  have c: "en_queue demo_done = []" by code_simp
  have d: "length (en_queue demo_done) < 2 ^ 64" unfolding c by simp
  have "\<not> is_quiescent ?st" by code_simp
  then show ?thesis using quiescent_iff_idle [OF demo_done_run a b d] c by simp
qed

section \<open>Content the engine loses\<close>

text \<open>C33: a remote deletion removes a local file that was never synchronised: without a baseline the check for local
  edits is skipped, although the same file would be pushed by a reconcile.\<close>

theorem remote_delete_drops_unsynced:
  assumes "\<not> is_excluded (ev_globs env) (en_exclude st) rel" "\<not> is_internal rel" "ev_kind ev = Removed" "ev_path ev = rel"
    and "local_stat env rel st = Some s" "st_kind s = EkFile" "baseline rel st = None"
    and "lf_remove_file env (full_path (en_root st) rel) (en_fs st) = (True, fs')"
  shows "fst (apply_remote env ev st) = Inr () \<and> en_fs (snd (apply_remote env ev st)) = fs'
    \<and> plan_path (baseline rel st) (local_stat env rel st) None rel = [Push rel]"
  using assms
  by (simp add: apply_remote_def delete_local_def sync_op_defs expect_def forget_entry_def count_def on_manifest_def plan_path_def)

theorem remote_delete_drops_unsynced_witness:
  "lm_files (en_fs (snd (apply_remote mem_env \<lparr> ev_seq = 5, ev_kind = Removed, ev_path = ''f'', ev_new_version = None, ev_origin = None \<rparr>
      (demo_sync PolNewer False)))) = []"
proof -
  let ?st = "demo_sync PolNewer False"
  let ?ev = "\<lparr> ev_seq = 5, ev_kind = Removed, ev_path = ''f'', ev_new_version = None, ev_origin = None \<rparr>"
  let ?rm = "lf_remove_file mem_env (full_path (en_root ?st) ''f'') (en_fs ?st)"
  have a: "\<not> is_excluded (ev_globs mem_env) (en_exclude ?st) ''f''" by code_simp
  have b: "\<not> is_internal ''f''" by code_simp
  have c: "local_stat mem_env ''f'' ?st = Some (file_stat 2 50 0)" by code_simp
  have d: "baseline ''f'' ?st = None" by code_simp
  have e: "?rm = (True, snd ?rm)" by code_simp
  have f: "lm_files (snd ?rm) = []" by code_simp
  show ?thesis using remote_delete_drops_unsynced [OF a b _ _ c _ d e, of ?ev] f by (simp add: file_stat_def)
qed

text \<open>When the copy of the losing local file cannot be made the conflict is still resolved for the server, and the
  local content is nowhere afterwards.\<close>

theorem failed_copy_loses_local:
  "let st = demo_sync PolRemote True; st' = snd (resolve_conflict mem_env ''f'' (file_stat 2 50 0) (file_stat 3 60 9) st)
   in lf_read mem_env (en_fs st) [''h'', ''f''] = Some [1, 2] \<and> lf_read mem_env (en_fs st') [''h'', ''f''] = Some [3, 4, 5]
    \<and> list_all (\<lambda>(p, d, t). d \<noteq> [1, 2]) (lm_files (en_fs st')) \<and> list_all (\<lambda>(p, d, t, v). d \<noteq> [1, 2]) (sv_files (en_net st'))"
  by code_simp

text \<open>Replaying a remote rename overwrites a local file of the target's name that was edited since the last sync.\<close>

theorem rename_overwrites_edit:
  "let st = demo_sync PolLocal False;
       st1 = st\<lparr>en_fs := (en_fs st)\<lparr>lm_files := ([''h'', ''g''], [8, 8, 8], 99) # lm_files (en_fs st)\<rparr>,
                en_manifest := manifest_default\<lparr>sm_entries := [(''f'', entry_of_stat (file_stat 2 50 9)), (''g'', entry_of_stat (file_stat 1 70 4))]\<rparr>\<rparr>;
       st2 = snd (apply_remote mem_env \<lparr> ev_seq = 5, ev_kind = RenamedFrom ''g'', ev_path = ''f'', ev_new_version = None, ev_origin = None \<rparr> st1)
   in lf_read mem_env (en_fs st1) [''h'', ''g''] = Some [8, 8, 8] \<and> local_wins (en_policy st1) (file_stat 3 99 0) (file_stat 3 60 9)
    \<and> list_all (\<lambda>(p, d, t). d \<noteq> [8, 8, 8]) (lm_files (en_fs st2))"
  by code_simp

end
