(* ===== verification/Client_Inode.thy ===== *)
theory Client_Inode
  imports Sync_Plan
begin

text \<open>
  \<^verbatim>\<open>crates/alloyfs-client/src/inode.rs\<close>: the two-way table between inode numbers, which the kernel speaks, and
  export-relative paths, which the wire speaks.

  \<open>inode_space\<close> is what the file-system facade relies on: a number that was handed out resolves to its path, and
  numbers of distinct paths differ.  It is interpreted on the table.  \<open>get_or_alloc\<close> is split at its two accesses of
  the shared maps, so that two racing lookups can be interleaved.
\<close>

section \<open>The table\<close>

definition ROOT_INO :: u64 where "ROOT_INO = 1"

record InodeTable =
  it_by_ino :: "(u64, RelPath) hmap"
  it_by_path :: "(RelPath, u64) hmap"
  it_next :: u64

definition itab_new :: InodeTable where
  "itab_new = \<lparr> it_by_ino = hm_put ROOT_INO [] [], it_by_path = hm_put [] ROOT_INO [], it_next = ROOT_INO + 1 \<rparr>"

definition path_of :: "InodeTable \<Rightarrow> u64 \<Rightarrow> RelPath option" where
  "path_of t ino = hm_get (it_by_ino t) ino"

definition ino_of :: "InodeTable \<Rightarrow> RelPath \<Rightarrow> u64 option" where
  "ino_of t path = hm_get (it_by_path t) path"

text \<open>\<open>next.fetch_add\<close>, and the \<open>entry\<close> that makes one racer win.\<close>

definition alloc_number :: "InodeTable \<Rightarrow> u64 \<times> InodeTable" where
  "alloc_number t = (it_next t, t\<lparr>it_next := it_next t + 1\<rparr>)"

definition alloc_entry :: "u64 \<Rightarrow> RelPath \<Rightarrow> InodeTable \<Rightarrow> u64 \<times> InodeTable" where
  "alloc_entry ino path t =
    (case hm_get (it_by_path t) path of
       Some winner \<Rightarrow> (winner, if winner = ino then t\<lparr>it_by_ino := hm_put ino path (it_by_ino t)\<rparr> else t)
     | None \<Rightarrow> (ino, t\<lparr>it_by_path := hm_put path ino (it_by_path t), it_by_ino := hm_put ino path (it_by_ino t)\<rparr>))"

definition get_or_alloc :: "RelPath \<Rightarrow> InodeTable \<Rightarrow> u64 \<times> InodeTable" where
  "get_or_alloc path t =
    (case hm_get (it_by_path t) path of
       Some ino \<Rightarrow> (ino, t)
     | None \<Rightarrow> (case alloc_number t of (ino, t') \<Rightarrow> alloc_entry ino path t'))"

definition retarget :: "u64 \<times> RelPath \<Rightarrow> InodeTable \<Rightarrow> InodeTable" where
  "retarget = (\<lambda>(ino, new_path) t.
    let t = (case hm_get (it_by_ino t) ino of
               Some old_path \<Rightarrow> t\<lparr>it_by_ino := hm_del ino (it_by_ino t), it_by_path := hm_del old_path (it_by_path t)\<rparr>
             | None \<Rightarrow> t)
    in t\<lparr>it_by_path := hm_put new_path ino (it_by_path t), it_by_ino := hm_put ino new_path (it_by_ino t)\<rparr>)"

definition affected :: "RelPath \<Rightarrow> RelPath \<Rightarrow> (u64, RelPath) hmap \<Rightarrow> (u64 \<times> RelPath) list" where
  "affected from to by_ino = List.map_filter (\<lambda>(ino, path). map_option (Pair ino) (moved_to from to path)) by_ino"

definition itab_rename :: "RelPath \<Rightarrow> RelPath \<Rightarrow> InodeTable \<Rightarrow> InodeTable" where
  "itab_rename from to t = fold retarget (affected from to (it_by_ino t)) t"

definition itab_forget :: "u64 \<Rightarrow> InodeTable \<Rightarrow> InodeTable" where
  "itab_forget ino t =
    (if ino = ROOT_INO then t
     else case hm_get (it_by_ino t) ino of
            Some path \<Rightarrow> t\<lparr>it_by_ino := hm_del ino (it_by_ino t), it_by_path := hm_del path (it_by_path t)\<rparr>
          | None \<Rightarrow> t)"

section \<open>Well-formed tables\<close>

text \<open>Every named path points at a number that points back, numbers are below the counter, and the root is 1.\<close>

definition itab_wf :: "InodeTable \<Rightarrow> bool" where
  "itab_wf t \<longleftrightarrow> hm_ok (it_by_ino t) \<and> (\<forall>p i. ino_of t p = Some i \<longrightarrow> path_of t i = Some p)
     \<and> (\<forall>i p. path_of t i = Some p \<longrightarrow> i < it_next t) \<and> ROOT_INO < it_next t
     \<and> path_of t ROOT_INO = Some [] \<and> ino_of t [] = Some ROOT_INO \<and> (\<forall>i. path_of t i = Some [] \<longrightarrow> i = ROOT_INO)"

text \<open>Numbers left before the counter wraps.\<close>

definition itab_room :: "nat \<Rightarrow> InodeTable \<Rightarrow> bool" where
  "itab_room n t \<longleftrightarrow> uint (it_next t) + int n < 2 ^ 64"

lemma itab_new_wf [simp]: "itab_wf itab_new"
  by (auto simp: itab_wf_def itab_new_def path_of_def ino_of_def ROOT_INO_def hmap_simps hm_ok_def split: if_splits)

lemma next_greater: "itab_room (Suc n) t \<Longrightarrow> it_next t < it_next t + 1"
  by (simp add: itab_room_def word_less_def uint_word_ariths)

lemma alloc_wf:
  assumes "itab_wf t" "itab_room (Suc n) t"
  shows "itab_wf (snd (get_or_alloc p t)) \<and> itab_room n (snd (get_or_alloc p t))
    \<and> path_of (snd (get_or_alloc p t)) (fst (get_or_alloc p t)) = Some p
    \<and> ino_of (snd (get_or_alloc p t)) p = Some (fst (get_or_alloc p t))
    \<and> (\<forall>j q. path_of t j = Some q \<longrightarrow> path_of (snd (get_or_alloc p t)) j = Some q)"
proof (cases "hm_get (it_by_path t) p")
  case (Some i)
  then show ?thesis using assms by (auto simp: get_or_alloc_def itab_wf_def ino_of_def itab_room_def)
next
  case None
  let ?t = "t\<lparr>it_next := it_next t + 1, it_by_path := hm_put p (it_next t) (it_by_path t), it_by_ino := hm_put (it_next t) p (it_by_ino t)\<rparr>"
  have run: "get_or_alloc p t = (it_next t, ?t)" using None by (simp add: get_or_alloc_def alloc_number_def alloc_entry_def)
  have fresh: "path_of t (it_next t) = None" using assms(1) by (cases "path_of t (it_next t)") (auto simp: itab_wf_def)
  have up: "it_next t < it_next t + 1" by (rule next_greater [OF assms(2)])
  have root: "ROOT_INO < it_next t" "p \<noteq> []" using assms(1) None by (auto simp: itab_wf_def ino_of_def)
  have "path_of ?t j = (if j = it_next t then Some p else path_of t j)"
    "ino_of ?t q = (if q = p then Some (it_next t) else ino_of t q)" for j q
    by (simp_all add: path_of_def ino_of_def hmap_simps)
  moreover have "itab_room n ?t" using assms(2) up by (simp add: itab_room_def uint_word_ariths)
  ultimately show ?thesis
    unfolding run fst_conv snd_conv using assms(1) fresh up root
    by (auto simp: itab_wf_def dest: less_trans)
qed

lemma retarget_wf:
  assumes "itab_wf t" "i < it_next t" "i \<noteq> ROOT_INO" "q \<noteq> []"
  shows "itab_wf (retarget (i, q) t) \<and> it_next (retarget (i, q) t) = it_next t
    \<and> path_of (retarget (i, q) t) = (path_of t)(i \<mapsto> q)"
proof -
  let ?t = "retarget (i, q) t"
  have p: "path_of ?t = (path_of t)(i \<mapsto> q)" and n: "it_next ?t = it_next t" and ok: "hm_ok (it_by_ino ?t)"
    using assms(1) by (auto simp: retarget_def path_of_def hmap_simps itab_wf_def Let_def split: option.splits)
  have ino: "ino_of ?t r = (if r = q then Some i else if path_of t i = Some r then None else ino_of t r)" for r
    by (auto simp: retarget_def ino_of_def path_of_def hmap_simps Let_def split: option.splits)
  have "itab_wf ?t"
    unfolding itab_wf_def ino p n using ok assms by (auto simp: itab_wf_def split: if_splits)
  then show ?thesis using p n by simp
qed

lemma moved_to_not_Nil: "moved_to from to p = Some q \<Longrightarrow> to \<noteq> [] \<Longrightarrow> q \<noteq> []"
  by (auto simp: moved_to_def split: if_splits)

lemma moved_to_of_Nil [simp]: "f \<noteq> [] \<Longrightarrow> moved_to f to [] = None"
  by (cases f) (auto simp: moved_to_def)

lemma affected_set: "(i, q) \<in> set (affected from to m) \<longleftrightarrow> (\<exists>p. (i, p) \<in> set m \<and> moved_to from to p = Some q)"
  by (induction m) (auto simp: affected_def map_filter_simps split: option.splits)

lemma affected_distinct: "hm_ok m \<Longrightarrow> distinct (map fst (affected from to m))"
proof (induction m)
  case (Cons x m)
  obtain i p where x: "x = (i, p)" by (cases x)
  have "i \<notin> fst ` set (affected from to m)" if "i \<notin> fst ` set m" using that by (force simp: affected_set)
  then show ?case using Cons x by (cases "moved_to from to p") (auto simp: affected_def hm_ok_def map_filter_simps)
qed (simp add: affected_def map_filter_simps)

lemma retargets_wf:
  assumes "itab_wf t" "\<And>i q. (i, q) \<in> set xs \<Longrightarrow> i < it_next t \<and> i \<noteq> ROOT_INO \<and> q \<noteq> []"
  shows "itab_wf (fold retarget xs t) \<and> it_next (fold retarget xs t) = it_next t
    \<and> path_of (fold retarget xs t) = path_of t ++ map_of (rev xs)"
  using assms
proof (induction xs arbitrary: t)
  case (Cons x xs)
  obtain i q where x: "x = (i, q)" by (cases x)
  have "itab_wf (retarget x t)" "it_next (retarget x t) = it_next t" "path_of (retarget x t) = (path_of t)(i \<mapsto> q)"
    using retarget_wf [of t i q] Cons.prems x by auto
  note step = this
  have "itab_wf (fold retarget xs (retarget x t)) \<and> it_next (fold retarget xs (retarget x t)) = it_next (retarget x t)
    \<and> path_of (fold retarget xs (retarget x t)) = path_of (retarget x t) ++ map_of (rev xs)"
    by (rule Cons.IH) (use step Cons.prems in auto)
  moreover have "(path_of t)(i \<mapsto> q) ++ map_of (rev xs) = path_of t ++ map_of (rev (x # xs))" by (simp add: x)
  ultimately show ?case using step by simp
qed simp

lemma itab_rename_wf:
  assumes "itab_wf t" "from \<noteq> []" "to \<noteq> []"
  shows "itab_wf (itab_rename from to t) \<and> it_next (itab_rename from to t) = it_next t
    \<and> path_of (itab_rename from to t) i = map_option (\<lambda>p. case moved_to from to p of Some q \<Rightarrow> q | None \<Rightarrow> p) (path_of t i)"
proof -
  let ?xs = "affected from to (it_by_ino t)"
  have get: "(i, p) \<in> set (it_by_ino t) \<longleftrightarrow> path_of t i = Some p" for i p
    using assms(1) by (simp add: itab_wf_def path_of_def hm_get_set)
  have "i < it_next t \<and> i \<noteq> ROOT_INO \<and> q \<noteq> []" if mem: "(i, q) \<in> set ?xs" for i q
  proof -
    obtain p where p: "path_of t i = Some p" "moved_to from to p = Some q" using mem unfolding affected_set get by blast
    then have "p \<noteq> []" using assms(2) by auto
    then show ?thesis using p assms moved_to_not_Nil [OF p(2)] by (auto simp: itab_wf_def)
  qed
  note R = retargets_wf [OF assms(1) this, of ?xs, simplified]
  have "distinct (map fst (rev ?xs))" using assms(1) affected_distinct by (simp add: itab_wf_def rev_map [symmetric])
  then have m: "map_of (rev ?xs) i = Some q \<longleftrightarrow> (\<exists>p. path_of t i = Some p \<and> moved_to from to p = Some q)" for q
    using map_of_eq_Some_iff [of "rev ?xs" i q] by (simp add: affected_set get)
  have "(path_of t ++ map_of (rev ?xs)) i = map_option (\<lambda>p. case moved_to from to p of Some q \<Rightarrow> q | None \<Rightarrow> p) (path_of t i)"
  proof (cases "map_of (rev ?xs) i")
    case None
    then have "moved_to from to p = None" if "path_of t i = Some p" for p
      using m that by (cases "moved_to from to p") auto
    then show ?thesis using None by (cases "path_of t i") (simp_all add: map_add_def)
  next
    case (Some q)
    then obtain p where "path_of t i = Some p" "moved_to from to p = Some q" using m by blast
    then show ?thesis using Some by (simp add: map_add_def)
  qed
  then show ?thesis using R by (simp add: itab_rename_def)
qed

lemma itab_forget_wf: "itab_wf t \<Longrightarrow> itab_wf (itab_forget i t) \<and> it_next (itab_forget i t) = it_next t"
  unfolding itab_wf_def itab_forget_def path_of_def ino_of_def
  by (auto simp: hmap_simps split: option.splits)


section \<open>The contract of the table\<close>

text \<open>What the facade relies on.  \<open>room n t\<close> says that \<open>n\<close> more numbers are left.\<close>

locale inode_space =
  fixes wf :: "'t \<Rightarrow> bool"
    and room :: "nat \<Rightarrow> 't \<Rightarrow> bool"
    and path :: "'t \<Rightarrow> u64 \<Rightarrow> RelPath option"
    and ino :: "'t \<Rightarrow> RelPath \<Rightarrow> u64 option"
    and alloc :: "RelPath \<Rightarrow> 't \<Rightarrow> u64 \<times> 't"
  assumes named: "wf t \<Longrightarrow> ino t p = Some i \<Longrightarrow> path t i = Some p"
    and alloc_ok: "wf t \<Longrightarrow> room (Suc n) t \<Longrightarrow> wf (snd (alloc p t)) \<and> room n (snd (alloc p t))"
    and alloc_names: "wf t \<Longrightarrow> room (Suc n) t \<Longrightarrow> ino (snd (alloc p t)) p = Some (fst (alloc p t))"
    and alloc_keeps: "wf t \<Longrightarrow> room (Suc n) t \<Longrightarrow> path t j = Some q \<Longrightarrow> path (snd (alloc p t)) j = Some q"
begin

lemma numbers_differ: "wf t \<Longrightarrow> ino t p = Some i \<Longrightarrow> ino t q = Some i \<Longrightarrow> p = q"
  using named [of t p i] named [of t q i] by simp

lemma alloc_resolves: "wf t \<Longrightarrow> room (Suc n) t \<Longrightarrow> path (snd (alloc p t)) (fst (alloc p t)) = Some p"
  using named alloc_ok alloc_names by blast

end

interpretation itab: inode_space itab_wf itab_room path_of ino_of get_or_alloc
proof
  fix t :: InodeTable and p i
  show "itab_wf t \<Longrightarrow> ino_of t p = Some i \<Longrightarrow> path_of t i = Some p" by (simp add: itab_wf_def)
qed (use alloc_wf in blast)+


section \<open>Tables over time\<close>

text \<open>The calls the backends make; the root is never renamed, and the counter has room.\<close>

inductive itab_step :: "InodeTable \<Rightarrow> InodeTable \<Rightarrow> bool" where
  it_alloc: "itab_room 1 t \<Longrightarrow> itab_step t (snd (get_or_alloc p t))"
| it_rename: "from \<noteq> [] \<Longrightarrow> to \<noteq> [] \<Longrightarrow> itab_step t (itab_rename from to t)"
| it_forget: "itab_step t (itab_forget i t)"

lemma itab_step_wf:
  assumes "itab_wf t" "itab_step t t'"
  shows "itab_wf t'"
  using assms(2)
proof cases
  case (it_alloc p)
  then show ?thesis using itab.alloc_ok [OF assms(1), of 0 p] by simp
next
  case (it_rename f to)
  then show ?thesis using itab_rename_wf [OF assms(1)] by simp
next
  case (it_forget i)
  then show ?thesis using itab_forget_wf [OF assms(1)] by simp
qed

lemma itab_steps_wf: "itab_step\<^sup>*\<^sup>* t t' \<Longrightarrow> itab_wf t \<Longrightarrow> itab_wf t'"
  by (induction rule: rtranclp_induct) (simp_all add: itab_step_wf)

text \<open>C35: after any calls a named path resolves both ways, distinct paths have distinct numbers, the root
  is 1, and a lookup yields a number that resolves to the path and disturbs no other number; a rename moves the path of
  every number in the renamed subtree and of no other.\<close>

theorem inode_numbers_consistent:
  assumes "itab_step\<^sup>*\<^sup>* itab_new t"
  shows "(ino_of t p = Some i \<longrightarrow> path_of t i = Some p) \<and> (ino_of t p = Some i \<longrightarrow> ino_of t q = Some i \<longrightarrow> p = q)
    \<and> path_of t ROOT_INO = Some [] \<and> ino_of t [] = Some ROOT_INO
    \<and> (itab_room 1 t \<longrightarrow> path_of (snd (get_or_alloc p t)) (fst (get_or_alloc p t)) = Some p
         \<and> (path_of t j = Some q \<longrightarrow> path_of (snd (get_or_alloc p t)) j = Some q))
    \<and> (from \<noteq> [] \<longrightarrow> to \<noteq> [] \<longrightarrow>
         path_of (itab_rename from to t) j = map_option (\<lambda>p. case moved_to from to p of Some q \<Rightarrow> q | None \<Rightarrow> p) (path_of t j))"
proof -
  have wf: "itab_wf t" using itab_steps_wf [OF assms] by simp
  then have "path_of t ROOT_INO = Some []" "ino_of t [] = Some ROOT_INO" by (simp_all add: itab_wf_def)
  then show ?thesis
    using itab.named [OF wf] itab.numbers_differ [OF wf, of p i q] itab.alloc_resolves [OF wf, of 0]
      itab.alloc_keeps [OF wf, of 0] itab_rename_wf [OF wf] by simp
qed

definition demo_itab :: InodeTable where
  "demo_itab = snd (get_or_alloc ''d/f'' (snd (get_or_alloc ''d'' itab_new)))"

lemma demo_itab_reached: "itab_step\<^sup>*\<^sup>* itab_new demo_itab"
  unfolding demo_itab_def
  by (rule rtranclp.rtrancl_into_rtrancl [OF r_into_rtranclp [of itab_step]]; rule it_alloc; code_simp)

theorem inode_numbers_consistent_witness:
  "ino_of demo_itab ''d/f'' = Some 3 \<and> path_of demo_itab 3 = Some ''d/f''
   \<and> path_of (itab_rename ''d'' ''e'' demo_itab) 3 = Some ''e/f''"
proof -
  note I = inode_numbers_consistent [OF demo_itab_reached, of "''d/f''" 3 _ 3 "''d''" "''e''"]
  have a: "ino_of demo_itab ''d/f'' = Some 3" by code_simp
  with I have b: "path_of demo_itab 3 = Some ''d/f''" by blast
  have "moved_to ''d'' ''e'' ''d/f'' = Some ''e/f''" by code_simp
  with I b have "path_of (itab_rename ''d'' ''e'' demo_itab) 3 = Some ''e/f''" by simp
  with a b show ?thesis by blast
qed

text \<open>Two lookups of one new path that both missed agree on the number, whichever writes first.\<close>

lemma racing_lookups_agree:
  assumes "ino_of t p = None"
  shows "let (i, t1) = alloc_number t; (j, t2) = alloc_number t1; (w1, t3) = alloc_entry i p t2; (w2, t4) = alloc_entry j p t3
    in w1 = w2 \<and> ino_of t4 p = Some w1 \<and> path_of t4 w1 = Some p"
  using assms by (auto simp: alloc_number_def alloc_entry_def ino_of_def path_of_def hmap_simps Let_def)

text \<open>C36: a rename onto a path that already has a number leaves both numbers on that path.  When the kernel
  then forgets the replaced one, the live number loses its name: events for the path no longer find it, and the next
  lookup gives the file another number.\<close>

theorem replaced_inode_orphans_live:
  assumes "itab_wf t" "itab_room 1 t" "ino_of t from = Some i" "ino_of t to = Some j" "from \<noteq> []" "to \<noteq> []"
    "moved_to from to to = None"
  defines "t' \<equiv> itab_forget j (itab_rename from to t)"
  shows "path_of t' i = Some to \<and> ino_of t' to = None \<and> fst (get_or_alloc to t') \<noteq> i"
proof -
  let ?r = "itab_rename from to t"
  note R = itab_rename_wf [OF assms(1,5,6)]
  have paths: "path_of t i = Some from" "path_of t j = Some to" using assms(1,3,4) itab.named by blast+
  have "from \<noteq> to" using assms(7) by (auto simp: moved_to_def)
  then have ij: "i \<noteq> j" using paths by auto
  have root: "j \<noteq> ROOT_INO" using paths assms(1,6) by (auto simp: itab_wf_def)
  have r: "path_of ?r i = Some to" "path_of ?r j = Some to"
    using R [of i] R [of j] paths assms(7) by (simp_all add: moved_to_def)
  then have forgot: "path_of t' i = Some to" "ino_of t' to = None"
    using ij root by (simp_all add: t'_def itab_forget_def path_of_def ino_of_def hmap_simps)
  have wf: "itab_wf t'" "it_next t' = it_next t"
    using R itab_forget_wf [of ?r j] by (simp_all add: t'_def)
  have "fst (get_or_alloc to t') = it_next t'"
    using forgot(2) by (simp add: get_or_alloc_def ino_of_def alloc_number_def alloc_entry_def)
  moreover have "i < it_next t'" using wf(1) forgot(1) by (auto simp: itab_wf_def)
  ultimately show ?thesis using forgot by auto
qed

theorem replaced_inode_orphans_live_witness:
  "let t = snd (get_or_alloc ''f'' (snd (get_or_alloc ''f.tmp'' itab_new))); t' = itab_forget 3 (itab_rename ''f.tmp'' ''f'' t)
   in path_of t' 2 = Some ''f'' \<and> ino_of t' ''f'' = None \<and> fst (get_or_alloc ''f'' t') \<noteq> 2"
proof -
  let ?t = "snd (get_or_alloc ''f'' (snd (get_or_alloc ''f.tmp'' itab_new)))"
  have room: "itab_room 2 itab_new" "itab_room 1 ?t" by code_simp+
  have wf: "itab_wf ?t" using room(1) itab.alloc_ok [of _ 0] itab.alloc_ok [of itab_new 1] by (simp add: numeral_2_eq_2)
  have "ino_of ?t ''f.tmp'' = Some 2" "ino_of ?t ''f'' = Some 3" "moved_to ''f.tmp'' ''f'' ''f'' = None" by code_simp+
  then show ?thesis using replaced_inode_orphans_live [OF wf room(2), of "''f.tmp''" 2 "''f''" 3] by (simp add: Let_def)
qed

end
