(* ===== verification/Client_Cache.thy ===== *)
theory Client_Cache
  imports Agent_System Client_Inode
begin

text \<open>
  The client's caches: sequential read-ahead (\<^verbatim>\<open>crates/alloyfs-client/src/readahead.rs\<close>) and the auto-download cache
  (\<^verbatim>\<open>autocache.rs\<close>).

  A \<^verbatim>\<open>JoinHandle\<close> is the outcome its task will have.  The blob directory is on the local disk, whose calls are the
  fields of \<open>cos\<close>: the operating system of the agent with the three convenience functions of \<^verbatim>\<open>std::fs\<close> the client
  uses besides.  Byte counts of the cache are natural numbers: they sum the sizes of files that were stored.
\<close>

section \<open>The local disk\<close>

record ('s, 'f) cos = "('s, 'f) os" +
  co_create_dir_all :: "'s \<Rightarrow> abs_path \<Rightarrow> (IoKind + unit) \<times> 's"
  co_write :: "'s \<Rightarrow> abs_path \<Rightarrow> bytes \<Rightarrow> (IoKind + unit) \<times> 's"
  co_read_to_string :: "'s \<Rightarrow> abs_path \<Rightarrow> string option"

section \<open>Read-ahead\<close>

definition WINDOW_BLOCKS :: u64 where "WINDOW_BLOCKS = 32"
definition MIN_STREAK :: u32 where "MIN_STREAK = 2"
definition RETAIN_BLOCKS :: nat where "RETAIN_BLOCKS = 4"

record ReadStats =
  rs_window_hits :: u64
  rs_retained_hits :: u64
  rs_sync_fetches :: u64
  rs_clears :: u64
  rs_tolerated_ooo :: u64

record ReadAhead =
  ra_window :: "(u64, bytes option) hmap"
  ra_recent :: "(u64 \<times> bytes) list"
  ra_expected_next :: u64
  ra_streak :: u32
  ra_stats :: ReadStats

definition ra_new :: ReadAhead where
  "ra_new = \<lparr> ra_window = [], ra_recent = [], ra_expected_next = 0, ra_streak = 0,
    ra_stats = \<lparr> rs_window_hits = 0, rs_retained_hits = 0, rs_sync_fetches = 0, rs_clears = 0, rs_tolerated_ooo = 0 \<rparr> \<rparr>"

definition sat_add :: "'a::len word \<Rightarrow> 'a word \<Rightarrow> 'a word" where
  "sat_add a b = (if uint a + uint b < 2 ^ LENGTH('a) then a + b else - 1)"

definition sat_sub :: "'a::len word \<Rightarrow> 'a word \<Rightarrow> 'a word" where
  "sat_sub a b = (if b \<le> a then a - b else 0)"

definition block_of :: "u64 \<Rightarrow> u64" where
  "block_of offset = offset div ucast DATA_CHUNK"

definition ra_clear :: "ReadAhead \<Rightarrow> ReadAhead" where
  "ra_clear ra = ra\<lparr>ra_window := [], ra_recent := []\<rparr>"

definition observe :: "u64 \<Rightarrow> u32 \<Rightarrow> ReadAhead \<Rightarrow> bool \<times> ReadAhead" where
  "observe offset sz ra =
    (if offset = ra_expected_next ra then
       let streak = sat_add (ra_streak ra) 1
       in (streak \<ge> MIN_STREAK, ra\<lparr>ra_streak := streak, ra_expected_next := offset + ucast sz\<rparr>)
     else
       let block = block_of offset; expected_block = block_of (ra_expected_next ra);
           near = block \<ge> sat_sub expected_block WINDOW_BLOCKS \<and> block \<le> sat_add expected_block WINDOW_BLOCKS
       in if near then
            let streak = sat_add (ra_streak ra) 1
            in (streak \<ge> MIN_STREAK,
                ra\<lparr>ra_stats := (ra_stats ra)\<lparr>rs_tolerated_ooo := rs_tolerated_ooo (ra_stats ra) + 1\<rparr>,
                   ra_streak := streak, ra_expected_next := max (ra_expected_next ra) (offset + ucast sz)\<rparr>)
          else
            (False,
             ra_clear (ra\<lparr>ra_stats := (ra_stats ra)\<lparr>rs_clears := rs_clears (ra_stats ra) + 1\<rparr>,
                          ra_streak := (if offset = 0 then 1 else 0), ra_expected_next := offset + ucast sz\<rparr>)))"

definition ra_take :: "u64 \<Rightarrow> ReadAhead \<Rightarrow> bytes option option \<times> ReadAhead" where
  "ra_take block ra = (hm_get (ra_window ra) block, ra\<lparr>ra_window := hm_del block (ra_window ra)\<rparr>)"

definition retained :: "u64 \<Rightarrow> ReadAhead \<Rightarrow> bytes option" where
  "retained block ra = map_option snd (find (\<lambda>(b, _). b = block) (ra_recent ra))"

fun set_slot :: "u64 \<Rightarrow> bytes \<Rightarrow> (u64 \<times> bytes) list \<Rightarrow> (u64 \<times> bytes) list" where
  "set_slot block data [] = []"
| "set_slot block data ((b, d) # rest) = (if b = block then (b, data) # rest else (b, d) # set_slot block data rest)"

definition retain :: "u64 \<Rightarrow> bytes \<Rightarrow> ReadAhead \<Rightarrow> ReadAhead" where
  "retain block data ra =
    (if retained block ra \<noteq> None then ra\<lparr>ra_recent := set_slot block data (ra_recent ra)\<rparr>
     else
       let recent = (if length (ra_recent ra) = RETAIN_BLOCKS then tl (ra_recent ra) else ra_recent ra)
       in ra\<lparr>ra_recent := recent @ [(block, data)]\<rparr>)"

text \<open>The half-open range \<open>a..b\<close> of Rust, and the closed one.\<close>

definition range_excl :: "u64 \<Rightarrow> u64 \<Rightarrow> u64 list" where
  "range_excl a b = map word_of_int [uint a..uint b - 1]"

definition range_incl :: "u64 \<Rightarrow> u64 \<Rightarrow> u64 list" where
  "range_incl a b = map word_of_int [uint a..uint b]"

definition missing :: "u64 \<Rightarrow> u64 \<Rightarrow> ReadAhead \<Rightarrow> u64 list" where
  "missing from_block max_block_exclusive ra =
    filter (\<lambda>b. \<not> hm_has (ra_window ra) b)
      (range_excl from_block (min (sat_add from_block WINDOW_BLOCKS) max_block_exclusive))"

definition ra_put :: "u64 \<Rightarrow> bytes option \<Rightarrow> ReadAhead \<Rightarrow> ReadAhead" where
  "ra_put block fetch ra = ra\<lparr>ra_window := hm_put block fetch (ra_window ra)\<rparr>"

definition count_ra :: "(ReadStats \<Rightarrow> ReadStats) \<Rightarrow> ReadAhead \<Rightarrow> ReadAhead" where
  "count_ra f ra = ra\<lparr>ra_stats := f (ra_stats ra)\<rparr>"

section \<open>The auto-download cache\<close>

record AutoCacheConfig =
  acc_max_file_size :: u64
  acc_budget :: u64
  acc_pins :: "string list"
  acc_root :: abs_path
  acc_manifest :: abs_path

record CacheEntry =
  ce_version :: u64
  ce_size :: u64
  ce_mtime_ns :: nat
  ce_pinned :: bool
  ce_last_used :: u64
  ce_verified :: bool

record CacheManifest =
  cm_format :: u32
  cm_entries :: "(string, CacheEntry) hmap"

record AutoCache =
  ac_cfg :: AutoCacheConfig
  ac_pins :: ExcludeSet
  ac_entries :: "(RelPath, CacheEntry) hmap"
  ac_total :: nat
  ac_tick :: u64
  ac_dirty :: bool
  ac_queue :: "RelPath list"

definition mtime_ns :: "SystemTime \<Rightarrow> nat" where
  "mtime_ns t = (if t < 0 then 0 else nat t)"

definition blob_path :: "abs_path \<Rightarrow> RelPath \<Rightarrow> abs_path" where
  "blob_path root rel = root @ filter (\<lambda>c. c \<noteq> []) (split_on CHR ''/'' rel)"

text \<open>\<open>let _ = remove_file(...)\<close>: the outcome is ignored.\<close>

definition drop_blob :: "('s, 'f) cos \<Rightarrow> abs_path \<Rightarrow> 's \<Rightarrow> 's" where
  "drop_blob os p s = snd (os_remove_file os s p)"

subsection \<open>Loading\<close>

fun load_entries :: "('s, 'f) cos \<Rightarrow> abs_path \<Rightarrow> (string \<times> CacheEntry) list \<Rightarrow> (RelPath, CacheEntry) hmap \<times> nat \<times> 's
    \<Rightarrow> (RelPath, CacheEntry) hmap \<times> nat \<times> 's" where
  "load_entries os root [] acc = acc"
| "load_entries os root ((path, entry) # rest) (entries, tot, s) =
    (case os_metadata os s (blob_path root path) of
       Inr md \<Rightarrow>
         if md_len md = ce_size entry
         then load_entries os root rest (hm_put path (entry\<lparr>ce_verified := True\<rparr>) entries, tot + unat (ce_size entry), s)
         else load_entries os root rest (entries, tot, drop_blob os (blob_path root path) s)
     | Inl e \<Rightarrow> load_entries os root rest (entries, tot, drop_blob os (blob_path root path) s))"

fun shrink :: "('s, 'f) cos \<Rightarrow> AutoCacheConfig \<Rightarrow> (RelPath \<times> CacheEntry) list \<Rightarrow> (RelPath, CacheEntry) hmap \<times> nat \<times> 's
    \<Rightarrow> (RelPath, CacheEntry) hmap \<times> nat \<times> 's" where
  "shrink os cfg [] acc = acc"
| "shrink os cfg ((p, e) # victims) (entries, tot, s) =
    (if tot \<le> unat (acc_budget cfg) then (entries, tot, s)
     else if ce_pinned e then shrink os cfg victims (entries, tot, s)
     else shrink os cfg victims (hm_del p entries, tot - unat (ce_size e), drop_blob os (blob_path (acc_root cfg) p) s))"

text \<open>The victims of an eviction: oldest use first.\<close>

definition by_last_use :: "(RelPath, CacheEntry) hmap \<Rightarrow> (RelPath \<times> CacheEntry) list" where
  "by_last_use entries = sort_key (\<lambda>(p, e). ce_last_used e) (hm_sorted entries)"

definition load_cache :: "('s, 'f) cos \<Rightarrow> glob_lib \<Rightarrow> (string \<Rightarrow> CacheManifest option) \<Rightarrow> AutoCacheConfig \<Rightarrow> 's
    \<Rightarrow> (unit + AutoCache) \<times> 's" where
  "load_cache os lib from_json cfg s =
    (case co_create_dir_all os s (acc_root cfg) of
       (Inl e, s) \<Rightarrow> (Inl (), s)
     | (Inr _, s) \<Rightarrow>
         (case compile lib (acc_pins cfg) False of
            Inl e \<Rightarrow> (Inl (), s)
          | Inr pins \<Rightarrow>
              let (entries, tot, s) =
                    (case Option.bind (co_read_to_string os s (acc_manifest cfg)) from_json of
                       Some m \<Rightarrow> load_entries os (acc_root cfg) (hm_sorted (cm_entries m)) ([], 0, s)
                     | None \<Rightarrow> ([], 0, s));
                  (entries, tot, s) =
                    (if tot > unat (acc_budget cfg) then shrink os cfg (by_last_use entries) (entries, tot, s)
                     else (entries, tot, s));
                  tick = foldl max 0 (map (ce_last_used \<circ> snd) entries) + 1
              in (Inr \<lparr> ac_cfg = cfg, ac_pins = pins, ac_entries = entries, ac_total = tot, ac_tick = tick, ac_dirty = False,
                        ac_queue = [] \<rparr>, s)))"

subsection \<open>Questions\<close>

definition pin_match :: "glob_lib \<Rightarrow> AutoCache \<Rightarrow> RelPath \<Rightarrow> bool" where
  "pin_match lib ac path = is_excluded lib (ac_pins ac) path"

definition wants :: "glob_lib \<Rightarrow> AutoCache \<Rightarrow> RelPath \<Rightarrow> u64 \<Rightarrow> bool" where
  "wants lib ac path sz =
    (pin_match lib ac path \<or> acc_max_file_size (ac_cfg ac) > 0 \<and> sz \<le> acc_max_file_size (ac_cfg ac))"

definition entry_fresh :: "CacheEntry \<Rightarrow> Attr \<Rightarrow> bool" where
  "entry_fresh e attr =
    (a_size attr = ce_size e \<and> mtime_ns (a_mtime attr) = ce_mtime_ns e
     \<and> (a_version attr = ce_version e \<or> a_version attr = 0 \<or> ce_version e = 0))"

definition fresh_for :: "RelPath \<Rightarrow> Attr \<Rightarrow> AutoCache \<Rightarrow> bool \<times> AutoCache" where
  "fresh_for path attr ac =
    (let tick = ac_tick ac + 1; ac = ac\<lparr>ac_tick := tick\<rparr> in
     case hm_get (ac_entries ac) path of
       None \<Rightarrow> (False, ac)
     | Some entry \<Rightarrow>
         if entry_fresh entry attr
         then (True, ac\<lparr>ac_entries := hm_put path (entry\<lparr>ce_last_used := tick, ce_verified := True\<rparr>) (ac_entries ac), ac_dirty := True\<rparr>)
         else (False, ac))"

definition needs_fetch :: "AutoCache \<Rightarrow> RelPath \<Rightarrow> Attr \<Rightarrow> bool" where
  "needs_fetch ac path attr =
    (case hm_get (ac_entries ac) path of Some e \<Rightarrow> \<not> entry_fresh e attr | None \<Rightarrow> True)"

definition known :: "AutoCache \<Rightarrow> RelPath \<Rightarrow> bool" where
  "known ac path = hm_has (ac_entries ac) path"

definition cache_stats :: "AutoCache \<Rightarrow> nat \<times> nat" where
  "cache_stats ac = (length (ac_entries ac), ac_total ac)"

definition read_opts :: OpenOpts where
  "read_opts = \<lparr> oo_read = True, oo_write = False, oo_truncate = False, oo_create = False, oo_create_new = False \<rparr>"

definition read_blob :: "('s, 'f) cos \<Rightarrow> AutoCache \<Rightarrow> RelPath \<Rightarrow> u64 \<Rightarrow> u32 \<Rightarrow> 's \<Rightarrow> (bytes option \<times> 's) option" where
  "read_blob os ac path offset len s =
    (case os_open os s (blob_path (acc_root (ac_cfg ac)) path) read_opts of
       (Inl e, s) \<Rightarrow> Some (None, s)
     | (Inr file, s) \<Rightarrow>
         map_option (\<lambda>(r, s). (case r of Inr buf \<Rightarrow> Some buf | Inl e \<Rightarrow> None, s)) (read_fully (os_pread os file) s (unat len) offset))"

subsection \<open>Changes\<close>

fun evict :: "('s, 'f) cos \<Rightarrow> AutoCacheConfig \<Rightarrow> nat \<Rightarrow> (RelPath \<times> CacheEntry) list \<Rightarrow> AutoCache \<times> 's \<Rightarrow> AutoCache \<times> 's" where
  "evict os cfg sz [] acc = acc"
| "evict os cfg sz ((vp, ve) # victims) (ac, s) =
    (if ac_total ac + sz \<le> unat (acc_budget cfg) then (ac, s)
     else evict os cfg sz victims
            (ac\<lparr>ac_entries := hm_del vp (ac_entries ac), ac_total := ac_total ac - unat (ce_size ve)\<rparr>,
             drop_blob os (blob_path (acc_root cfg) vp) s))"

definition add_entry :: "RelPath \<Rightarrow> Attr \<Rightarrow> bool \<Rightarrow> u64 \<Rightarrow> AutoCache \<Rightarrow> AutoCache" where
  "add_entry path attr pinned tick ac =
    ac\<lparr>ac_total := ac_total ac + unat (a_size attr),
       ac_entries := hm_put path \<lparr> ce_version = a_version attr, ce_size = a_size attr, ce_mtime_ns = mtime_ns (a_mtime attr),
                                   ce_pinned = pinned, ce_last_used = tick, ce_verified = True \<rparr> (ac_entries ac),
       ac_dirty := True\<rparr>"

definition commit :: "('s, 'f) cos \<Rightarrow> RelPath \<Rightarrow> Attr \<Rightarrow> bool \<Rightarrow> AutoCache \<times> 's \<Rightarrow> AutoCache \<times> 's" where
  "commit os path attr pinned = (\<lambda>(ac, s).
    let cfg = ac_cfg ac; budget = unat (acc_budget cfg); sz = unat (a_size attr);
        tick = ac_tick ac + 1;
        ac = ac\<lparr>ac_tick := tick\<rparr>;
        ac = (case hm_get (ac_entries ac) path of
                Some old \<Rightarrow> ac\<lparr>ac_entries := hm_del path (ac_entries ac), ac_total := ac_total ac - unat (ce_size old)\<rparr>
              | None \<Rightarrow> ac);
        (ac, s) = (if ac_total ac + sz > budget
                   then evict os cfg sz (by_last_use (hm_retain (\<lambda>p e. \<not> ce_pinned e) (ac_entries ac))) (ac, s)
                   else (ac, s))
    in if ac_total ac + sz > budget \<and> \<not> pinned \<and> sz > budget
       then (ac, drop_blob os (blob_path (acc_root cfg) path) s)
       else (add_entry path attr pinned tick ac, s))"

definition invalidate :: "('s, 'f) cos \<Rightarrow> RelPath \<Rightarrow> AutoCache \<times> 's \<Rightarrow> AutoCache \<times> 's" where
  "invalidate os path = (\<lambda>(ac, s).
    case hm_get (ac_entries ac) path of
      Some e \<Rightarrow>
        (ac\<lparr>ac_entries := hm_del path (ac_entries ac), ac_total := ac_total ac - unat (ce_size e), ac_dirty := True\<rparr>,
         drop_blob os (blob_path (acc_root (ac_cfg ac)) path) s)
    | None \<Rightarrow> (ac, s))"

definition cache_remove :: "('s, 'f) cos \<Rightarrow> RelPath \<Rightarrow> AutoCache \<times> 's \<Rightarrow> AutoCache \<times> 's" where
  "cache_remove os path = invalidate os path"

definition move_entry :: "('s, 'f) cos \<Rightarrow> RelPath \<times> RelPath \<Rightarrow> AutoCache \<times> 's \<Rightarrow> AutoCache \<times> 's" where
  "move_entry os = (\<lambda>(old, new) (ac, s).
    case hm_get (ac_entries ac) old of
      None \<Rightarrow> (ac, s)
    | Some entry \<Rightarrow>
        let ac = ac\<lparr>ac_entries := hm_del old (ac_entries ac)\<rparr>;
            old_blob = blob_path (acc_root (ac_cfg ac)) old;
            new_blob = blob_path (acc_root (ac_cfg ac)) new;
            s = (if new_blob = [] then s else snd (co_create_dir_all os s (butlast new_blob)))
        in case os_rename os s old_blob new_blob of
             (Inr _, s) \<Rightarrow> (ac\<lparr>ac_entries := hm_put new entry (ac_entries ac), ac_dirty := True\<rparr>, s)
           | (Inl _, s) \<Rightarrow> (ac\<lparr>ac_total := ac_total ac - unat (ce_size entry), ac_dirty := True\<rparr>, drop_blob os old_blob s))"

definition cache_moves :: "RelPath \<Rightarrow> RelPath \<Rightarrow> (RelPath, CacheEntry) hmap \<Rightarrow> (RelPath \<times> RelPath) list" where
  "cache_moves from to m = List.map_filter (\<lambda>(p, e). map_option (Pair p) (moved_to from to p)) (hm_sorted m)"

definition cache_rename :: "('s, 'f) cos \<Rightarrow> RelPath \<Rightarrow> RelPath \<Rightarrow> AutoCache \<times> 's \<Rightarrow> AutoCache \<times> 's" where
  "cache_rename os from to = (\<lambda>(ac, s).
    fold (move_entry os) (cache_moves from to (ac_entries ac)) (ac, s))"

definition mark_all_unverified :: "AutoCache \<Rightarrow> AutoCache" where
  "mark_all_unverified ac = ac\<lparr>ac_entries := map (\<lambda>(p, e). (p, e\<lparr>ce_verified := False\<rparr>)) (ac_entries ac)\<rparr>"

definition enqueue_refetch :: "RelPath \<Rightarrow> AutoCache \<Rightarrow> AutoCache" where
  "enqueue_refetch path ac = ac\<lparr>ac_queue := ac_queue ac @ [path]\<rparr>"

text \<open>\<open>Path::with_extension\<close> on the last component.\<close>

definition with_extension :: "abs_path \<Rightarrow> string \<Rightarrow> abs_path" where
  "with_extension p ext =
    (if p = [] then p
     else butlast p @ [(case rsplit_once CHR ''.'' (last p) of
                          Some (stem, _) \<Rightarrow> if stem = [] then last p else stem
                        | None \<Rightarrow> last p) @ CHR ''.'' # ext])"

definition flush_manifest :: "('s, 'f) cos \<Rightarrow> (CacheManifest \<Rightarrow> bytes option) \<Rightarrow> AutoCache \<times> 's \<Rightarrow> AutoCache \<times> 's" where
  "flush_manifest os to_json = (\<lambda>(ac, s).
    if \<not> ac_dirty ac then (ac, s)
    else let ac = ac\<lparr>ac_dirty := False\<rparr> in
      case to_json \<lparr> cm_format = 1, cm_entries = ac_entries ac \<rparr> of
        None \<Rightarrow> (ac, s)
      | Some json \<Rightarrow>
          let tmp = with_extension (acc_manifest (ac_cfg ac)) ''json.part'' in
          (case co_write os s tmp json of
             (Inl _, s) \<Rightarrow> (ac, s)
           | (Inr _, s) \<Rightarrow> (ac, snd (os_rename os s tmp (acc_manifest (ac_cfg ac))))))"

definition blob_stage_path :: "AutoCache \<Rightarrow> RelPath \<Rightarrow> abs_path" where
  "blob_stage_path ac path =
    (let p = blob_path (acc_root (ac_cfg ac)) path;
         named = (p \<noteq> [] \<and> last p \<noteq> ''..'');
         name = (if named \<and> utf8_valid (last p) then last p else ''blob'')
     in (if named then butlast p else p) @ [name @ ''.part''])"

definition blob_final_path :: "AutoCache \<Rightarrow> RelPath \<Rightarrow> abs_path" where
  "blob_final_path ac path = blob_path (acc_root (ac_cfg ac)) path"

definition stage_write :: "('s, 'f) cos \<Rightarrow> abs_path \<Rightarrow> bytes \<Rightarrow> 's \<Rightarrow> (ErrorCode + unit) \<times> 's" where
  "stage_write os path data s =
    (case (if path = [] then (Inr (), s) else co_create_dir_all os s (butlast path)) of
       (Inl e, s) \<Rightarrow> (Inl (io_to_code e), s)
     | (Inr _, s) \<Rightarrow> (case co_write os s path data of (r, s) \<Rightarrow> (or_code r, s)))"

section \<open>What the cache holds\<close>

definition held_bytes :: "(RelPath, CacheEntry) hmap \<Rightarrow> nat" where
  "held_bytes m = sum_list (map (\<lambda>(p, e). unat (ce_size e)) m)"

text \<open>The recorded total covers the entries; it is exact when it equals them.\<close>

definition ac_covers :: "AutoCache \<Rightarrow> bool" where
  "ac_covers ac \<longleftrightarrow> hm_ok (ac_entries ac) \<and> held_bytes (ac_entries ac) \<le> ac_total ac"

definition ac_exact :: "AutoCache \<Rightarrow> bool" where
  "ac_exact ac \<longleftrightarrow> hm_ok (ac_entries ac) \<and> held_bytes (ac_entries ac) = ac_total ac"

lemma hm_del_absent: "k \<notin> fst ` set m \<Longrightarrow> hm_del k m = m"
  by (simp add: AList.delete_eq filter_id_conv) force

lemma held_bytes_del:
  "hm_ok m \<Longrightarrow> hm_get m k = Some e \<Longrightarrow> held_bytes (hm_del k m) + unat (ce_size e) = held_bytes m"
proof (induction m)
  case (Cons x m)
  obtain k' e' where x: "x = (k', e')" by (cases x)
  show ?case
  proof (cases "k' = k")
    case True
    then have "hm_del k m = m" using Cons.prems x by (simp add: hm_ok_def hm_del_absent)
    then show ?thesis using True Cons.prems x by (simp add: held_bytes_def)
  next
    case False
    then show ?thesis using Cons x by (simp add: held_bytes_def hm_ok_def)
  qed
qed simp

lemma held_bytes_del_None: "hm_get m k = None \<Longrightarrow> hm_del k m = m"
  by (simp add: hm_get_None_iff hm_del_absent)

lemma held_bytes_put_new: "hm_get m k = None \<Longrightarrow> held_bytes (hm_put k e m) = held_bytes m + unat (ce_size e)"
  by (induction m) (auto simp: held_bytes_def split: if_splits)

lemma held_bytes_put_old:
  "hm_get m k = Some e0 \<Longrightarrow> held_bytes (hm_put k e m) + unat (ce_size e0) = held_bytes m + unat (ce_size e)"
  by (induction m) (auto simp: held_bytes_def split: if_splits)

lemma held_bytes_put_le: "held_bytes (hm_put k e m) \<le> held_bytes m + unat (ce_size e)"
  by (induction m) (auto simp: held_bytes_def split: if_splits)

lemma held_bytes_touch:
  "hm_get m k = Some e \<Longrightarrow> held_bytes (hm_put k (e\<lparr>ce_last_used := t, ce_verified := v\<rparr>) m) = held_bytes m"
  using held_bytes_put_old [of m k e "e\<lparr>ce_last_used := t, ce_verified := v\<rparr>"] by simp

lemma held_bytes_unverify: "held_bytes (map (\<lambda>(p, e). (p, e\<lparr>ce_verified := v\<rparr>)) m) = held_bytes m"
  by (induction m) (auto simp: held_bytes_def)

lemma keys_unverify: "hm_keys (map (\<lambda>(p, e). (p, e\<lparr>ce_verified := v\<rparr>)) m) = hm_keys m"
  by (induction m) auto

lemma held_bytes_le: "hm_ok m \<Longrightarrow> hm_get m k = Some e \<Longrightarrow> unat (ce_size e) \<le> held_bytes m"
  using held_bytes_del by fastforce

text \<open>One contract for the two readings of the total: \<open>R held total\<close> is \<open>\<le>\<close> or \<open>=\<close>.\<close>

definition ac_total_rel :: "(nat \<Rightarrow> nat \<Rightarrow> bool) \<Rightarrow> AutoCache \<Rightarrow> bool" where
  "ac_total_rel R ac \<longleftrightarrow> hm_ok (ac_entries ac) \<and> R (held_bytes (ac_entries ac)) (ac_total ac)"

lemma ac_rels: "ac_covers = ac_total_rel (\<le>)" "ac_exact = ac_total_rel (=)"
  by (simp_all add: fun_eq_iff ac_covers_def ac_exact_def ac_total_rel_def)

text \<open>A relation that holds when both sides move together and implies the bound.\<close>

locale byte_account =
  fixes R :: "nat \<Rightarrow> nat \<Rightarrow> bool"
  assumes shift: "R (a + n) (b + n) \<longleftrightarrow> R a b"
    and bound: "R a b \<Longrightarrow> a \<le> b"
    and refl: "R a a"
begin

lemma del_ok:
  assumes "ac_total_rel R ac" "hm_get (ac_entries ac) p = Some e"
  shows "R (held_bytes (hm_del p (ac_entries ac))) (ac_total ac - unat (ce_size e)) \<and> unat (ce_size e) \<le> ac_total ac"
proof -
  have sum: "held_bytes (hm_del p (ac_entries ac)) + unat (ce_size e) = held_bytes (ac_entries ac)"
    using assms by (auto simp: ac_total_rel_def held_bytes_del)
  have r: "R (held_bytes (ac_entries ac)) (ac_total ac)" using assms(1) by (simp add: ac_total_rel_def)
  have le: "unat (ce_size e) \<le> ac_total ac" using sum bound [OF r] by simp
  have "R (held_bytes (hm_del p (ac_entries ac)) + unat (ce_size e)) (ac_total ac - unat (ce_size e) + unat (ce_size e))"
    using r sum le by simp
  then show ?thesis using shift le by blast
qed

lemma evict_ok:
  "ac_total_rel R ac \<Longrightarrow> distinct (map fst vs) \<Longrightarrow> (\<And>p e. (p, e) \<in> set vs \<Longrightarrow> hm_get (ac_entries ac) p = Some e)
   \<Longrightarrow> evict os cfg sz vs (ac, s) = (ac', s') \<Longrightarrow>
   ac_total_rel R ac' \<and> ac_cfg ac' = ac_cfg ac \<and> ac_tick ac' = ac_tick ac
   \<and> (\<forall>p. hm_get (ac_entries ac') p = hm_get (ac_entries ac) p \<or> hm_get (ac_entries ac') p = None \<and> p \<in> fst ` set vs)
   \<and> (ac_total ac' + sz \<le> unat (acc_budget cfg) \<or> (\<forall>p \<in> fst ` set vs. hm_get (ac_entries ac') p = None))"
proof (induction vs arbitrary: ac s)
  case (Cons v vs)
  obtain p e where v: "v = (p, e)" by (cases v)
  show ?case
  proof (cases "ac_total ac + sz \<le> unat (acc_budget cfg)")
    case True
    then show ?thesis using Cons.prems v by simp
  next
    case False
    let ?ac = "ac\<lparr>ac_entries := hm_del p (ac_entries ac), ac_total := ac_total ac - unat (ce_size e)\<rparr>"
    have get: "hm_get (ac_entries ac) p = Some e" using Cons.prems(3) v by simp
    have run: "evict os cfg sz vs (?ac, drop_blob os (blob_path (acc_root cfg) p) s) = (ac', s')"
      using Cons.prems(4) False v by simp
    have ok: "ac_total_rel R ?ac" using del_ok [OF Cons.prems(1) get] Cons.prems(1) by (simp add: ac_total_rel_def)
    have rest: "\<And>q e'. (q, e') \<in> set vs \<Longrightarrow> hm_get (ac_entries ?ac) q = Some e'"
      using Cons.prems(2,3) v by (force simp: hmap_simps)
    have dist: "distinct (map fst vs)" using Cons.prems(2) by simp
    from Cons.IH [OF ok dist rest run] show ?thesis by (fastforce simp: hmap_simps v split: if_splits)
  qed
qed simp

lemma invalidate_ok:
  assumes "ac_total_rel R ac" "invalidate os p (ac, s) = (ac', s')"
  shows "ac_total_rel R ac' \<and> ac_entries ac' = hm_del p (ac_entries ac)"
proof (cases "hm_get (ac_entries ac) p")
  case None
  then show ?thesis using assms by (simp add: invalidate_def held_bytes_del_None)
next
  case (Some e)
  then show ?thesis using assms del_ok [OF assms(1) Some] by (auto simp: invalidate_def ac_total_rel_def)
qed

lemma fresh_for_ok: "ac_total_rel R ac \<Longrightarrow> ac_total_rel R (snd (fresh_for p attr ac))"
  by (auto simp: fresh_for_def ac_total_rel_def Let_def held_bytes_touch split: option.splits)

lemma unverified_ok: "ac_total_rel R ac \<Longrightarrow> ac_total_rel R (mark_all_unverified ac)"
  by (simp add: mark_all_unverified_def ac_total_rel_def hm_ok_def keys_unverify held_bytes_unverify del: map_map)

text \<open>The parts of a commit: the old entry goes, then the victims, then the new entry comes unless it can never fit.\<close>

lemma commit_parts:
  assumes "ac_total_rel R ac" "commit os p attr pinned (ac, s) = (ac', s')"
  shows "\<exists>ac1. ac_total_rel R ac1 \<and> ac_cfg ac1 = ac_cfg ac \<and> hm_get (ac_entries ac1) p = None
    \<and> (\<forall>q. q \<noteq> p \<longrightarrow> hm_get (ac_entries ac1) q = hm_get (ac_entries ac) q
        \<or> hm_get (ac_entries ac1) q = None \<and> (\<exists>e. hm_get (ac_entries ac) q = Some e \<and> \<not> ce_pinned e))
    \<and> (ac_total ac1 + unat (a_size attr) \<le> unat (acc_budget (ac_cfg ac))
        \<or> (\<forall>q e. hm_get (ac_entries ac1) q = Some e \<longrightarrow> ce_pinned e))
    \<and> ac' = (if ac_total ac1 + unat (a_size attr) > unat (acc_budget (ac_cfg ac)) \<and> \<not> pinned
                \<and> unat (a_size attr) > unat (acc_budget (ac_cfg ac))
             then ac1 else add_entry p attr pinned (ac_tick ac + 1) ac1)"
proof -
  let ?cfg = "ac_cfg ac" and ?sz = "unat (a_size attr)"
  let ?b = "unat (acc_budget ?cfg)"
  define ac0 where "ac0 = (case hm_get (ac_entries ac) p of
      Some old \<Rightarrow> ac\<lparr>ac_tick := ac_tick ac + 1, ac_entries := hm_del p (ac_entries ac), ac_total := ac_total ac - unat (ce_size old)\<rparr>
    | None \<Rightarrow> ac\<lparr>ac_tick := ac_tick ac + 1\<rparr>)"
  let ?vs = "by_last_use (hm_retain (\<lambda>p e. \<not> ce_pinned e) (ac_entries ac0))"
  define r where "r = (if ac_total ac0 + ?sz > ?b then evict os ?cfg ?sz ?vs (ac0, s) else (ac0, s))"
  have ok0: "ac_total_rel R ac0" and get0: "hm_get (ac_entries ac0) q = (if q = p then None else hm_get (ac_entries ac) q)"
    and cfg0: "ac_cfg ac0 = ?cfg" "ac_tick ac0 = ac_tick ac + 1" for q
    using assms(1) del_ok [OF assms(1)]
    by (auto simp: ac0_def ac_total_rel_def hmap_simps split: option.splits)
  have run: "ac' = (if ac_total (fst r) + ?sz > ?b \<and> \<not> pinned \<and> ?sz > ?b then fst r
      else add_entry p attr pinned (ac_tick ac + 1) (fst r))"
    using assms(2) unfolding commit_def r_def ac0_def
    by (auto simp: Let_def split: option.splits prod.splits if_splits)
  have okm: "hm_ok (hm_retain (\<lambda>p e. \<not> ce_pinned e) (ac_entries ac0))" using ok0 by (auto simp: ac_total_rel_def)
  have vs: "distinct (map fst ?vs)"
    using okm by (simp add: by_last_use_def hm_sorted_def hm_ok_def distinct_map inj_on_def)
  have mem: "(q, e) \<in> set ?vs \<longleftrightarrow> hm_get (ac_entries ac0) q = Some e \<and> \<not> ce_pinned e" for q e
    using hm_get_set [OF okm, of q e] ok0
    by (auto simp: by_last_use_def hm_get_retain ac_total_rel_def split: option.splits if_splits)
  have parts: "ac_total_rel R (fst r) \<and> ac_cfg (fst r) = ?cfg
     \<and> (\<forall>q. hm_get (ac_entries (fst r)) q = hm_get (ac_entries ac0) q \<or> hm_get (ac_entries (fst r)) q = None \<and> q \<in> fst ` set ?vs)
     \<and> (ac_total (fst r) + ?sz \<le> ?b \<or> (\<forall>q \<in> fst ` set ?vs. hm_get (ac_entries (fst r)) q = None))"
  proof (cases "ac_total ac0 + ?sz > ?b")
    case True
    then have "evict os ?cfg ?sz ?vs (ac0, s) = (fst r, snd r)" by (simp add: r_def)
    from evict_ok [OF ok0 vs _ this] mem cfg0 show ?thesis by simp
  qed (use ok0 cfg0 in \<open>simp add: r_def\<close>)
  have keys: "q \<in> fst ` set ?vs \<longleftrightarrow> (\<exists>e. hm_get (ac_entries ac0) q = Some e \<and> \<not> ce_pinned e)" for q
    using mem by force
  have gone: "hm_get (ac_entries (fst r)) p = None" using parts get0 by metis
  have sub: "hm_get (ac_entries (fst r)) q = hm_get (ac_entries ac) q
      \<or> hm_get (ac_entries (fst r)) q = None \<and> (\<exists>e. hm_get (ac_entries ac) q = Some e \<and> \<not> ce_pinned e)" if "q \<noteq> p" for q
  proof -
    have "hm_get (ac_entries (fst r)) q = hm_get (ac_entries ac0) q \<or> hm_get (ac_entries (fst r)) q = None \<and> q \<in> fst ` set ?vs"
      using parts by blast
    then show ?thesis using that unfolding keys get0 by simp
  qed
  have "ce_pinned e" if "\<forall>q \<in> fst ` set ?vs. hm_get (ac_entries (fst r)) q = None" "hm_get (ac_entries (fst r)) q = Some e" for q e
    using parts keys [of q] that by (metis option.distinct(1))
  then have room: "ac_total (fst r) + ?sz \<le> ?b \<or> (\<forall>q e. hm_get (ac_entries (fst r)) q = Some e \<longrightarrow> ce_pinned e)"
    using parts by blast
  show ?thesis using parts gone sub room run by (intro exI [of _ "fst r"] conjI) blast+
qed

lemma commit_ok:
  assumes "ac_total_rel R ac" "commit os p attr pinned (ac, s) = (ac', s')"
  shows "ac_total_rel R ac'"
proof -
  obtain ac1 where "ac_total_rel R ac1" "hm_get (ac_entries ac1) p = None"
    "ac' = ac1 \<or> ac' = add_entry p attr pinned (ac_tick ac + 1) ac1"
    using commit_parts [OF assms] by metis
  then show ?thesis using shift by (auto simp: ac_total_rel_def held_bytes_put_new add_entry_def)
qed

end

interpretation covered: byte_account "(\<le>)"
  by unfold_locales auto

interpretation exact: byte_account "(=)"
  by unfold_locales auto

subsection \<open>Loading and renaming\<close>

lemma load_entries_exact:
  "load_entries os root xs (entries, tot, s) = (entries', tot', s') \<Longrightarrow> distinct (map fst xs)
   \<Longrightarrow> (\<And>p. p \<in> fst ` set xs \<Longrightarrow> hm_get entries p = None) \<Longrightarrow> hm_ok entries \<Longrightarrow> held_bytes entries = tot
   \<Longrightarrow> hm_ok entries' \<and> held_bytes entries' = tot'"
proof (induction os root xs "(entries, tot, s)" arbitrary: entries tot s rule: load_entries.induct)
  case (2 os root path entry rest entries tot s)
  have fresh: "hm_get entries path = None" "path \<notin> fst ` set rest" using "2.prems"(2,3) by auto
  have rest: "distinct (map fst rest)" "\<And>p. p \<in> fst ` set rest \<Longrightarrow> hm_get entries p = None"
    "\<And>p. p \<in> fst ` set rest \<Longrightarrow> hm_get (hm_put path (entry\<lparr>ce_verified := True\<rparr>) entries) p = None"
    using "2.prems"(2,3) fresh by (auto simp: hmap_simps)
  show ?case
  proof (cases "os_metadata os s (blob_path root path)")
    case (Inl e)
    then show ?thesis using "2.hyps"(1) [OF Inl] "2.prems" rest by simp
  next
    case (Inr md)
    show ?thesis
    proof (cases "md_len md = ce_size entry")
      case True
      have "held_bytes (hm_put path (entry\<lparr>ce_verified := True\<rparr>) entries) = tot + unat (ce_size entry)"
        using held_bytes_put_new [OF fresh(1)] "2.prems"(5) by simp
      then show ?thesis using "2.hyps"(2) [OF Inr True] "2.prems" rest Inr True by simp
    next
      case False
      then show ?thesis using "2.hyps"(3) [OF Inr False] "2.prems" rest Inr by simp
    qed
  qed
qed simp

lemma shrink_exact:
  "shrink os cfg vs (entries, tot, s) = (entries', tot', s') \<Longrightarrow> distinct (map fst vs)
   \<Longrightarrow> (\<And>p e. (p, e) \<in> set vs \<Longrightarrow> hm_get entries p = Some e) \<Longrightarrow> hm_ok entries \<Longrightarrow> held_bytes entries = tot
   \<Longrightarrow> hm_ok entries' \<and> held_bytes entries' = tot'"
proof (induction os cfg vs "(entries, tot, s)" arbitrary: entries tot s rule: shrink.induct)
  case (2 os cfg p e vs entries tot s)
  have get: "hm_get entries p = Some e" using "2.prems"(3) by simp
  have rest: "distinct (map fst vs)" "\<And>q f. (q, f) \<in> set vs \<Longrightarrow> hm_get entries q = Some f"
    "\<And>q f. (q, f) \<in> set vs \<Longrightarrow> hm_get (hm_del p entries) q = Some f"
    using "2.prems"(2,3) by (force simp: hmap_simps)+
  have "held_bytes (hm_del p entries) = tot - unat (ce_size e)" using held_bytes_del [OF "2.prems"(4) get] "2.prems"(5) by simp
  then show ?case
    using "2.hyps"(1) "2.hyps"(2) "2.prems" rest by (cases "tot \<le> unat (acc_budget cfg)"; cases "ce_pinned e") simp_all
qed simp

lemma load_cache_exact:
  assumes "load_cache os lib from_json cfg s = (Inr ac, s')" "\<And>t m. from_json t = Some m \<Longrightarrow> hm_ok (cm_entries m)"
  shows "ac_exact ac \<and> ac_cfg ac = cfg"
proof -
  obtain s1 pins where run: "(let (entries, tot, s) =
                    (case Option.bind (co_read_to_string os s1 (acc_manifest cfg)) from_json of
                       Some m \<Rightarrow> load_entries os (acc_root cfg) (hm_sorted (cm_entries m)) ([], 0, s1)
                     | None \<Rightarrow> ([], 0, s1));
                  (entries, tot, s) =
                    (if tot > unat (acc_budget cfg) then shrink os cfg (by_last_use entries) (entries, tot, s)
                     else (entries, tot, s));
                  tick = foldl max 0 (map (ce_last_used \<circ> snd) entries) + 1
              in (Inr \<lparr> ac_cfg = cfg, ac_pins = pins, ac_entries = entries, ac_total = tot, ac_tick = tick, ac_dirty = False,
                        ac_queue = [] \<rparr>, s)) = (Inr ac :: unit + AutoCache, s')"
    using assms(1) unfolding load_cache_def by (auto split: prod.splits sum.splits)
  obtain es tot s2 where one: "(case Option.bind (co_read_to_string os s1 (acc_manifest cfg)) from_json of
                       Some m \<Rightarrow> load_entries os (acc_root cfg) (hm_sorted (cm_entries m)) ([], 0, s1)
                     | None \<Rightarrow> ([], 0, s1)) = (es, tot, s2)" by (metis prod_cases3)
  have ok1: "hm_ok es" "held_bytes es = tot"
  proof -
    have "hm_ok es \<and> held_bytes es = tot"
    proof (cases "Option.bind (co_read_to_string os s1 (acc_manifest cfg)) from_json")
      case None
      then show ?thesis using one by (auto simp: held_bytes_def)
    next
      case (Some m)
      then have "hm_ok (cm_entries m)" using assms(2) by (auto simp: bind_eq_Some_conv)
      then show ?thesis using load_entries_exact [of os "acc_root cfg" "hm_sorted (cm_entries m)" "[]" 0 s1 es tot s2] one Some
        by (simp add: hm_sorted_distinct held_bytes_def)
    qed
    then show "hm_ok es" "held_bytes es = tot" by simp_all
  qed
  obtain es2 tot2 s3 where two: "(if tot > unat (acc_budget cfg) then shrink os cfg (by_last_use es) (es, tot, s2) else (es, tot, s2)) = (es2, tot2, s3)"
    by (metis prod_cases3)
  have "distinct (map fst (by_last_use es))" using ok1(1)
    by (simp add: by_last_use_def hm_sorted_def hm_ok_def distinct_map inj_on_def)
  moreover have "(p, e) \<in> set (by_last_use es) \<Longrightarrow> hm_get es p = Some e" for p e
    using ok1(1) by (simp add: by_last_use_def hm_get_set)
  ultimately have "hm_ok es2 \<and> held_bytes es2 = tot2"
    using two ok1 shrink_exact [of os cfg "by_last_use es" es tot s2 es2 tot2 s3] by (auto split: if_splits)
  moreover have "ac_entries ac = es2 \<and> ac_total ac = tot2 \<and> ac_cfg ac = cfg"
    using run unfolding one Let_def split_conv two by auto
  ultimately show ?thesis by (simp add: ac_exact_def)
qed

lemma move_entry_cases:
  assumes "move_entry os (old, new) (ac, s) = (ac', s')" "hm_get (ac_entries ac) old = Some e"
  shows "ac_cfg ac' = ac_cfg ac \<and>
    (ac_entries ac' = hm_put new e (hm_del old (ac_entries ac)) \<and> ac_total ac' = ac_total ac
     \<or> ac_entries ac' = hm_del old (ac_entries ac) \<and> ac_total ac' = ac_total ac - unat (ce_size e))"
  using assms by (auto simp: move_entry_def Let_def split: prod.splits sum.splits)

lemma move_entry_covers:
  assumes "ac_covers ac" "move_entry os (old, new) (ac, s) = (ac', s')"
  shows "ac_covers ac' \<and> ac_cfg ac' = ac_cfg ac"
proof (cases "hm_get (ac_entries ac) old")
  case None
  then show ?thesis using assms by (simp add: move_entry_def)
next
  case (Some e)
  have ok: "hm_ok (ac_entries ac)" and le: "held_bytes (ac_entries ac) \<le> ac_total ac" using assms(1) by (simp_all add: ac_covers_def)
  have del: "held_bytes (hm_del old (ac_entries ac)) + unat (ce_size e) = held_bytes (ac_entries ac)" by (rule held_bytes_del [OF ok Some])
  show ?thesis using move_entry_cases [OF assms(2) Some] del le ok held_bytes_put_le [of new e "hm_del old (ac_entries ac)"]
    by (auto simp: ac_covers_def)
qed

lemma move_entry_exact:
  assumes "ac_exact ac" "move_entry os (old, new) (ac, s) = (ac', s')" "hm_get (ac_entries ac) new = None"
  shows "ac_exact ac' \<and> ac_cfg ac' = ac_cfg ac \<and> (\<forall>q. q \<noteq> new \<longrightarrow> hm_get (ac_entries ac) q = None \<longrightarrow> hm_get (ac_entries ac') q = None)"
proof (cases "hm_get (ac_entries ac) old")
  case None
  then show ?thesis using assms by (simp add: move_entry_def)
next
  case (Some e)
  have ok: "hm_ok (ac_entries ac)" and le: "held_bytes (ac_entries ac) = ac_total ac" using assms(1) by (simp_all add: ac_exact_def)
  have del: "held_bytes (hm_del old (ac_entries ac)) + unat (ce_size e) = held_bytes (ac_entries ac)" by (rule held_bytes_del [OF ok Some])
  have new: "hm_get (hm_del old (ac_entries ac)) new = None" using assms(3) by (simp add: hmap_simps)
  show ?thesis using move_entry_cases [OF assms(2) Some] del le ok held_bytes_put_new [OF new, of e]
    by (auto simp: ac_exact_def hmap_simps)
qed

lemma moves_covers:
  "ac_covers ac \<Longrightarrow> fold (move_entry os) ms (ac, s) = (ac', s') \<Longrightarrow> ac_covers ac' \<and> ac_cfg ac' = ac_cfg ac"
proof (induction ms arbitrary: ac s)
  case (Cons m ms)
  obtain ac1 s1 where one: "move_entry os (fst m, snd m) (ac, s) = (ac1, s1)" by (cases "move_entry os (fst m, snd m) (ac, s)")
  then show ?case using Cons.IH [of ac1 s1] Cons.prems move_entry_covers [OF Cons.prems(1) one] by simp
qed simp

lemma moves_exact:
  "ac_exact ac \<Longrightarrow> fold (move_entry os) ms (ac, s) = (ac', s') \<Longrightarrow> distinct (map snd ms)
   \<Longrightarrow> (\<And>q. q \<in> snd ` set ms \<Longrightarrow> hm_get (ac_entries ac) q = None) \<Longrightarrow> ac_exact ac' \<and> ac_cfg ac' = ac_cfg ac"
proof (induction ms arbitrary: ac s)
  case (Cons m ms)
  obtain ac1 s1 where one: "move_entry os (fst m, snd m) (ac, s) = (ac1, s1)" by (cases "move_entry os (fst m, snd m) (ac, s)")
  have "hm_get (ac_entries ac) (snd m) = None" using Cons.prems(4) by simp
  note step = move_entry_exact [OF Cons.prems(1) one this]
  have "hm_get (ac_entries ac1) q = None" if "q \<in> snd ` set ms" for q
    using step Cons.prems(3,4) that by (metis distinct.simps(2) insert_iff list.set(2) list.set_map list.simps(9) image_insert)
  then show ?case using Cons.IH [of ac1 s1] Cons.prems step one by simp
qed simp

lemma map_filter_moves:
  "distinct (map fst xs) \<Longrightarrow>
   distinct (map snd (List.map_filter (\<lambda>(p, e). map_option (Pair p) (moved_to f t p)) xs))
   \<and> (\<forall>p q. (p, q) \<in> set (List.map_filter (\<lambda>(p, e). map_option (Pair p) (moved_to f t p)) xs)
        \<longleftrightarrow> p \<in> fst ` set xs \<and> moved_to f t p = Some q)"
proof (induction xs)
  case (Cons x xs)
  obtain p e where x: "x = (p, e)" by (cases x)
  let ?ys = "List.map_filter (\<lambda>(p, e). map_option (Pair p) (moved_to f t p)) xs"
  have IH: "distinct (map snd ?ys)" "(p', q') \<in> set ?ys \<longleftrightarrow> p' \<in> fst ` set xs \<and> moved_to f t p' = Some q'" for p' q'
    using Cons by simp_all
  show ?case
  proof (cases "moved_to f t p")
    case None
    then show ?thesis using IH x by (auto simp: map_filter_simps)
  next
    case (Some q)
    have "q \<notin> snd ` set ?ys"
    proof
      assume "q \<in> snd ` set ?ys"
      then obtain p' where "(p', q) \<in> set ?ys" by force
      then have "p' \<in> fst ` set xs" "p' = p" using IH(2) moved_to_inj [OF Some] by auto
      then show False using Cons.prems x by simp
    qed
    then show ?thesis using IH x Some by (auto simp: map_filter_simps)
  qed
qed (simp add: map_filter_simps)

lemma cache_moves_facts:
  assumes "hm_ok m"
  shows "distinct (map snd (cache_moves f t m))"
    and "(p, q) \<in> set (cache_moves f t m) \<longleftrightarrow> hm_get m p \<noteq> None \<and> moved_to f t p = Some q"
  using map_filter_moves [OF hm_sorted_distinct [OF assms], of f t]
  by (simp_all add: cache_moves_def hm_get_None_iff)

section \<open>The budget\<close>

text \<open>What happens to a cache after it is loaded.  A rename is in this relation when it replaces no cached file.\<close>

inductive cache_step :: "('s, 'f) cos \<Rightarrow> AutoCache \<times> 's \<Rightarrow> AutoCache \<times> 's \<Rightarrow> bool" for os where
  cs_commit: "cache_step os st (commit os p attr pinned st)"
| cs_invalidate: "cache_step os st (invalidate os p st)"
| cs_rename: "(\<And>p q. hm_get (ac_entries (fst st)) p \<noteq> None \<Longrightarrow> moved_to from to p = Some q \<Longrightarrow> hm_get (ac_entries (fst st)) q = None)
    \<Longrightarrow> cache_step os st (cache_rename os from to st)"
| cs_fresh: "cache_step os (ac, s) (snd (fresh_for p attr ac), s)"
| cs_unverify: "cache_step os (ac, s) (mark_all_unverified ac, s)"
| cs_refetch: "cache_step os (ac, s) (ac\<lparr>ac_queue := queue\<rparr>, s)"
| cs_flush: "cache_step os st (flush_manifest os to_json st)"
| cs_disk: "cache_step os (ac, s) (ac, s')"

lemma commit_cfg:
  assumes "ac_exact ac" "commit os p attr pinned (ac, s) = (ac', s')"
  shows "ac_exact ac' \<and> ac_cfg ac' = ac_cfg ac"
proof -
  have rel: "ac_total_rel (=) ac" using assms(1) by (simp add: ac_rels)
  have "ac_cfg ac' = ac_cfg ac" using exact.commit_parts [OF rel assms(2)] by (auto simp: add_entry_def)
  then show ?thesis using exact.commit_ok [OF rel assms(2)] by (simp add: ac_rels)
qed

lemma flush_entries:
  "flush_manifest os tj (ac, s) = (ac', s') \<Longrightarrow> ac_entries ac' = ac_entries ac \<and> ac_total ac' = ac_total ac \<and> ac_cfg ac' = ac_cfg ac"
  by (auto simp: flush_manifest_def Let_def split: if_splits option.splits prod.splits sum.splits)

lemma cache_rename_exact:
  assumes "ac_exact ac" "cache_rename os from to (ac, s) = (ac', s')"
    "\<And>p q. hm_get (ac_entries ac) p \<noteq> None \<Longrightarrow> moved_to from to p = Some q \<Longrightarrow> hm_get (ac_entries ac) q = None"
  shows "ac_exact ac' \<and> ac_cfg ac' = ac_cfg ac"
proof -
  have ok: "hm_ok (ac_entries ac)" using assms(1) by (simp add: ac_exact_def)
  have run: "fold (move_entry os) (cache_moves from to (ac_entries ac)) (ac, s) = (ac', s')"
    using assms(2) by (simp add: cache_rename_def)
  have absent: "hm_get (ac_entries ac) q = None" if mem: "q \<in> snd ` set (cache_moves from to (ac_entries ac))" for q
  proof -
    obtain p where "(p, q) \<in> set (cache_moves from to (ac_entries ac))" using mem by auto
    then show ?thesis using assms(3) [of p q] unfolding cache_moves_facts(2) [OF ok] by blast
  qed
  show ?thesis by (rule moves_exact [OF assms(1) run cache_moves_facts(1) [OF ok] absent])
qed

lemma cache_step_exact:
  assumes "cache_step os st st'" "ac_exact (fst st)"
  shows "ac_exact (fst st') \<and> ac_cfg (fst st') = ac_cfg (fst st)"
  using assms
proof (induction rule: cache_step.induct)
  case (cs_commit st p attr pinned)
  then show ?case using commit_cfg [of "fst st" os p attr pinned "snd st"] by (cases "commit os p attr pinned st") simp
next
  case (cs_invalidate st p)
  have "ac_cfg (fst (invalidate os p st)) = ac_cfg (fst st)" by (auto simp: invalidate_def split: prod.splits option.splits)
  then show ?case
    using cs_invalidate exact.invalidate_ok [of "fst st" os p "snd st"] by (cases "invalidate os p st") (simp add: ac_rels)
next
  case (cs_rename st f to)
  obtain ac' s' where r: "cache_rename os f to (fst st, snd st) = (ac', s')" by (cases "cache_rename os f to (fst st, snd st)")
  show ?case using cache_rename_exact [OF cs_rename.prems r cs_rename.hyps] r by simp
next
  case (cs_fresh ac s p attr)
  have "ac_cfg (snd (fresh_for p attr ac)) = ac_cfg ac" by (auto simp: fresh_for_def Let_def split: option.splits)
  then show ?case using cs_fresh exact.fresh_for_ok [of ac p attr] by (simp add: ac_rels)
next
  case (cs_unverify ac s)
  then show ?case using exact.unverified_ok [of ac] by (simp add: ac_rels mark_all_unverified_def)
next
  case (cs_flush st tj)
  obtain ac' s' where r: "flush_manifest os tj (fst st, snd st) = (ac', s')" by (cases "flush_manifest os tj (fst st, snd st)")
  show ?case using flush_entries [OF r] cs_flush r by (simp add: ac_exact_def)
qed (simp_all add: ac_exact_def)

lemma cache_steps_exact:
  "(cache_step os)\<^sup>*\<^sup>* st st' \<Longrightarrow> ac_exact (fst st) \<Longrightarrow> ac_exact (fst st') \<and> ac_cfg (fst st') = ac_cfg (fst st)"
  by (induction rule: rtranclp_induct) (auto dest: cache_step_exact)


text \<open>A local disk in memory, and a cache of ten bytes on it.\<close>

definition mem_cos :: "(Mem, abs_path) cos" where
  "mem_cos = os.extend mem_os (cos.fields
    (\<lambda>s p. (Inr (), s)) (\<lambda>s p d. (Inr (), s\<lparr>mem_files := hm_put p d (mem_files s)\<rparr>)) (\<lambda>s p. None))"

definition demo_cfg :: AutoCacheConfig where
  "demo_cfg = \<lparr> acc_max_file_size = 8, acc_budget = 10, acc_pins = [], acc_root = [''c''], acc_manifest = [''c.json''] \<rparr>"

definition demo_attr :: "u64 \<Rightarrow> Attr" where
  "demo_attr n = \<lparr> a_kind = File, a_size = n, a_mtime = 5, a_ctime = 5, a_mode = 420, a_version = 1 \<rparr>"

definition no_disk :: Mem where
  "no_disk = \<lparr> mem_files = [], mem_dirs = [], mem_links = [] \<rparr>"

definition demo_cache :: AutoCache where
  "demo_cache = \<lparr> ac_cfg = demo_cfg, ac_pins = no_excludes, ac_entries = [], ac_total = 0, ac_tick = 1, ac_dirty = False, ac_queue = [] \<rparr>"

lemma demo_cache_loaded: "load_cache mem_cos no_globs (\<lambda>_. None) demo_cfg no_disk = (Inr demo_cache, no_disk)"
  by code_simp


lemma distinct_singleton_list: "distinct xs \<Longrightarrow> set xs = {x} \<Longrightarrow> xs = [x]"
  by (cases xs) (auto simp: insert_eq_iff subset_singleton_iff)

text \<open>Renaming onto a cached file replaces its entry but keeps its bytes in the total: with every such
  rename the cache's room shrinks by the size of the replaced blob, until the next load.\<close>

lemma rename_over_cached_leaks:
  assumes "ac_exact ac" "hm_get (ac_entries ac) from = Some e" "hm_get (ac_entries ac) to = Some old" "from \<noteq> to"
    "\<And>p. hm_get (ac_entries ac) p \<noteq> None \<Longrightarrow> moved_to from to p \<noteq> None \<Longrightarrow> p = from"
    "\<And>s. is_ok (fst (os_rename os s (blob_path (acc_root (ac_cfg ac)) from) (blob_path (acc_root (ac_cfg ac)) to)))"
    "cache_rename os from to (ac, s) = (ac', s')"
  shows "ac_total ac' = held_bytes (ac_entries ac') + unat (ce_size old)"
proof -
  have ok: "hm_ok (ac_entries ac)" and tot: "held_bytes (ac_entries ac) = ac_total ac" using assms(1) by (simp_all add: ac_exact_def)
  let ?ms = "cache_moves from to (ac_entries ac)"
  have at: "moved_to from to from = Some to" by (simp add: moved_to_def)
  have "(p, q) \<in> set ?ms \<longleftrightarrow> (p, q) = (from, to)" for p q
    unfolding cache_moves_facts(2) [OF ok] using assms(2,5) at by (cases "p = from") auto
  then have "set ?ms = {(from, to)}" by force
  moreover have "distinct ?ms" using cache_moves_facts(1) [OF ok] by (simp add: distinct_map)
  ultimately have "?ms = [(from, to)]" by (intro distinct_singleton_list)
  then have run: "move_entry os (from, to) (ac, s) = (ac', s')" using assms(7) by (simp add: cache_rename_def)
  define s1 where "s1 = (if blob_path (acc_root (ac_cfg ac)) to = [] then s
    else snd (co_create_dir_all os s (butlast (blob_path (acc_root (ac_cfg ac)) to))))"
  obtain r s2 where ren: "os_rename os s1 (blob_path (acc_root (ac_cfg ac)) from) (blob_path (acc_root (ac_cfg ac)) to) = (Inr r, s2)"
    using assms(6) [of s1] by (cases "os_rename os s1 (blob_path (acc_root (ac_cfg ac)) from) (blob_path (acc_root (ac_cfg ac)) to)";
      cases "fst (os_rename os s1 (blob_path (acc_root (ac_cfg ac)) from) (blob_path (acc_root (ac_cfg ac)) to))") auto
  have put: "ac_entries ac' = hm_put to e (hm_del from (ac_entries ac))" "ac_total ac' = ac_total ac"
    using run ren assms(2) unfolding s1_def
    by (cases "blob_path (acc_root (ac_cfg ac)) to = []"; auto simp: move_entry_def Let_def)+
  have "hm_get (hm_del from (ac_entries ac)) to = Some old" using assms(3,4) by (simp add: hmap_simps)
  from held_bytes_put_old [OF this, of e] show ?thesis
    using held_bytes_del [OF ok assms(2)] tot put by simp
qed


lemma rename_over_cached_leaks_demo:
  "let st = commit mem_cos ''b'' (demo_attr 4) False (commit mem_cos ''a'' (demo_attr 6) False
             (demo_cache, no_disk\<lparr>mem_files := [([''c'', ''a''], [1, 2, 3, 4, 5, 6]), ([''c'', ''b''], [1, 2, 3, 4])]\<rparr>));
       ac = fst (cache_rename mem_cos ''b'' ''a'' st)
   in held_bytes (ac_entries ac) = 4 \<and> ac_total ac = 10"
  by code_simp

text \<open>A file larger than the whole budget is not cached, but every unpinned entry is evicted first.\<close>

lemma oversize_commit_empties_cache:
  assumes "ac_exact ac" "commit os p attr False (ac, s) = (ac', s')" "unat (a_size attr) > unat (acc_budget (ac_cfg ac))"
  shows "hm_get (ac_entries ac') q = Some e \<Longrightarrow> ce_pinned e" "hm_get (ac_entries ac') p = None"
proof -
  obtain ac1 where "hm_get (ac_entries ac1) p = None" "\<forall>q e. hm_get (ac_entries ac1) q = Some e \<longrightarrow> ce_pinned e" "ac' = ac1"
    using exact.commit_parts [OF assms(1) [unfolded ac_rels] assms(2)] assms(3) by (auto split: if_splits)
  then show "hm_get (ac_entries ac') q = Some e \<Longrightarrow> ce_pinned e" "hm_get (ac_entries ac') p = None" by auto
qed

section \<open>The read-ahead window\<close>

text \<open>One read of a stream as \<open>RemoteFs::read\<close> drives the window: observe, top up behind the last block, take the block.\<close>

definition stream_read :: "u64 \<Rightarrow> u32 \<Rightarrow> ReadAhead \<Rightarrow> ReadAhead" where
  "stream_read offset sz ra =
    (let (prefetch, ra) = observe offset sz ra; b = block_of offset;
         ra = (if prefetch then fold (\<lambda>b. ra_put b (Some [])) (missing (b + 1) (- 1) ra) ra else ra)
     in retain b [] (snd (ra_take b ra)))"

lemma observe_keeps_window: "fst (observe off sz ra) \<Longrightarrow> ra_window (snd (observe off sz ra)) = ra_window ra"
  by (auto simp: observe_def Let_def split: if_splits)

lemma hm_has_del: "hm_has (hm_del k m) c \<longleftrightarrow> c \<noteq> k \<and> hm_has m c"
  by (simp add: hm_has_def hmap_simps)

lemma hm_has_put_all: "hm_has (ra_window (fold (\<lambda>b. ra_put b x) bs ra)) c \<longleftrightarrow> c \<in> set bs \<or> hm_has (ra_window ra) c"
  by (induction bs arbitrary: ra) (auto simp: ra_put_def hm_has_def hmap_simps)

text \<open>A read that counts as sequential drops nothing from the window but the block it reads and adds the next 32.
  So the blocks a strided reader skips (a few bytes every 4 MiB stay within the tolerated distance) are held until a
  far seek: the window is not bounded by \<open>WINDOW_BLOCKS\<close>.\<close>

lemma skipped_blocks_stay:
  assumes "fst (observe off sz ra)"
  shows "hm_has (ra_window (stream_read off sz ra)) c \<longleftrightarrow> c \<noteq> block_of off
    \<and> (hm_has (ra_window ra) c \<or> c \<in> set (range_excl (block_of off + 1) (min (sat_add (block_of off + 1) WINDOW_BLOCKS) (- 1))))"
proof -
  have w: "ra_window (snd (observe off sz ra)) = ra_window ra" by (rule observe_keeps_window [OF assms])
  have "ra_window (stream_read off sz ra)
      = hm_del (block_of off) (ra_window (fold (\<lambda>b. ra_put b (Some [])) (missing (block_of off + 1) (- 1) (snd (observe off sz ra))) (snd (observe off sz ra))))"
    using assms by (cases "observe off sz ra") (simp add: stream_read_def Let_def retain_def ra_take_def)
  then show ?thesis by (auto simp: hm_has_del hm_has_put_all missing_def w)
qed

end
