(* ===== verification/Client_Overlay.thy ===== *)
theory Client_Overlay
  imports Client_Cache Transport
begin

text \<open>
  The local overlay (\<^verbatim>\<open>crates/alloyfs-client/src/overlay.rs\<close>), where the paths a client excludes live as real files, and
  the rewriting of symlink targets that point back into the mount (\<^verbatim>\<open>symlink.rs\<close>).

  An operation of the client is a \<open>proc\<close>: \<^const>\<open>None\<close> stands for a call that does not return (a panic, or a loop that
  never ends), otherwise it yields an error or a value and the new state.
\<close>

section \<open>Operations that may not return\<close>

type_synonym ('st, 'e, 'a) proc = "'st \<Rightarrow> (('e + 'a) \<times> 'st) option"

definition bindX :: "('st, 'e, 'a) proc \<Rightarrow> ('a \<Rightarrow> ('st, 'e, 'b) proc) \<Rightarrow> ('st, 'e, 'b) proc" where
  "bindX m k st =
    (case m st of None \<Rightarrow> None | Some (Inl e, st') \<Rightarrow> Some (Inl e, st') | Some (Inr x, st') \<Rightarrow> k x st')"

definition retX :: "'a \<Rightarrow> ('st, 'e, 'a) proc" where
  "retX x st = Some (Inr x, st)"

definition errX :: "'e \<Rightarrow> ('st, 'e, 'a) proc" where
  "errX e st = Some (Inl e, st)"

definition getX :: "('st \<Rightarrow> 'a) \<Rightarrow> ('st, 'e, 'a) proc" where
  "getX f st = Some (Inr (f st), st)"

definition modX :: "('st \<Rightarrow> 'st) \<Rightarrow> ('st, 'e, unit) proc" where
  "modX f st = Some (Inr (), f st)"

definition ofX :: "'e + 'a \<Rightarrow> ('st, 'e, 'a) proc" where
  "ofX r st = Some (r, st)"

definition tryX :: "('st, 'e, 'a) proc \<Rightarrow> ('st, 'e, 'e + 'a) proc" where
  "tryX m st = map_option (\<lambda>(r, st'). (Inr r, st')) (m st)"

definition panicX :: "('st, 'e, 'a) proc" where
  "panicX st = None"

named_theorems run_simps \<open>running a procedure\<close>

lemma bindX_run [run_simps]:
  "bindX (retX x) k st = k x st" "bindX (errX e) k st = Some (Inl e, st)"
  "bindX (getX f) k st = k (f st) st" "bindX (modX g) ku st = ku () (g st)"
  "bindX (ofX (Inr y)) k st = k y st" "bindX (ofX (Inl err)) k st = Some (Inl err, st)"
  "bindX panicX k st = None" "bindX (bindX m h) k st = bindX m (\<lambda>x. bindX (h x) k) st"
  by (auto simp: bindX_def retX_def errX_def getX_def modX_def ofX_def panicX_def split: option.splits prod.splits sum.splits)

lemma proc_run [run_simps]:
  "retX x st = Some (Inr x, st)" "errX e st = Some (Inl e, st)" "modX g st = Some (Inr (), g st)" "ofX r st = Some (r, st)"
  by (simp_all add: retX_def errX_def modX_def ofX_def)

lemma bindX_Inr: "bindX m k st = Some (Inr x, st') \<longleftrightarrow> (\<exists>y st1. m st = Some (Inr y, st1) \<and> k y st1 = Some (Inr x, st'))"
  by (auto simp: bindX_def split: option.splits prod.splits sum.splits)

section \<open>The overlay\<close>

definition OVERLAY_FH_BIT :: u64 where "OVERLAY_FH_BIT = push_bit 63 1"

record 'f Overlay =
  ov_matcher :: ExcludeSet
  ov_root :: abs_path
  ov_handles :: "(u64, 'f) hmap"
  ov_next_fh :: u64

type_synonym ('s, 'f, 'a) ov_op = "('f Overlay \<times> 's, ErrorCode, 'a) proc"

text \<open>A call of the operating system, its error mapped by \<open>or_code\<close>; and one that only looks.\<close>

definition sysO :: "('s \<Rightarrow> (IoKind + 'a) \<times> 's) \<Rightarrow> ('s, 'f, 'a) ov_op" where
  "sysO f = (\<lambda>(ov, s). case f s of (r, s') \<Rightarrow> Some (or_code r, (ov, s')))"

definition lookO :: "('s \<Rightarrow> IoKind + 'a) \<Rightarrow> ('s, 'f, 'a) ov_op" where
  "lookO f = (\<lambda>(ov, s). Some (or_code (f s), (ov, s)))"

definition ov_new :: "('s, 'f) cos \<Rightarrow> glob_lib \<Rightarrow> abs_path \<Rightarrow> string list \<Rightarrow> 's \<Rightarrow> (unit + 'f Overlay) \<times> 's" where
  "ov_new os lib root patterns s =
    (case compile_with_defaults lib patterns False of
       Inl e \<Rightarrow> (Inl (), s)
     | Inr m \<Rightarrow>
         (case co_create_dir_all os s root of
            (Inl e, s) \<Rightarrow> (Inl (), s)
          | (Inr _, s) \<Rightarrow> (Inr \<lparr> ov_matcher = m, ov_root = root, ov_handles = [], ov_next_fh = 1 \<rparr>, s)))"

definition ov_excluded :: "glob_lib \<Rightarrow> 'f Overlay \<Rightarrow> RelPath \<Rightarrow> bool" where
  "ov_excluded lib ov path = is_excluded lib (ov_matcher ov) path"

definition ov_abs :: "'f Overlay \<Rightarrow> RelPath \<Rightarrow> abs_path" where
  "ov_abs ov path = ov_root ov @ filter (\<lambda>c. c \<noteq> []) (split_on CHR ''/'' path)"

definition absO :: "RelPath \<Rightarrow> ('s, 'f, abs_path) ov_op" where
  "absO path = getX (\<lambda>(ov, s). ov_abs ov path)"

definition ov_handle :: "u64 \<Rightarrow> ('s, 'f, 'f) ov_op" where
  "ov_handle fh = (\<lambda>(ov, s). Some (ok_or BadHandle (hm_get (ov_handles ov) fh), (ov, s)))"

definition add_handle :: "'f \<Rightarrow> ('s, 'f, u64) ov_op" where
  "add_handle file = (\<lambda>(ov, s).
    let fh = OVERLAY_FH_BIT OR ov_next_fh ov
    in Some (Inr fh, (ov\<lparr>ov_next_fh := ov_next_fh ov + 1, ov_handles := hm_put fh file (ov_handles ov)\<rparr>, s)))"

definition ov_getattr :: "('s, 'f) cos \<Rightarrow> RelPath \<Rightarrow> ('s, 'f, Attr) ov_op" where
  "ov_getattr os path =
    bindX (absO path) (\<lambda>full.
    bindX (lookO (\<lambda>s. os_symlink_metadata os s full)) (\<lambda>md. retX (attr_from_metadata md 0)))"

definition ov_open :: "('s, 'f) cos \<Rightarrow> RelPath \<Rightarrow> OpenFlags \<Rightarrow> ('s, 'f, u64 \<times> Attr) ov_op" where
  "ov_open os path flags =
    bindX (absO path) (\<lambda>full.
    bindX (sysO (\<lambda>s. os_open os s full
       \<lparr> oo_read = True, oo_write = (of_write flags \<or> of_truncate flags \<or> of_append flags),
         oo_truncate = of_truncate flags, oo_create = False, oo_create_new = False \<rparr>)) (\<lambda>file.
    bindX (lookO (\<lambda>s. os_file_metadata os s file)) (\<lambda>md.
      if md_is_dir md then errX IsADirectory
      else bindX (add_handle file) (\<lambda>fh. retX (fh, attr_from_metadata md 0)))))"

text \<open>\<open>if let Some(parent) = full.parent() { create_dir_all(parent)? }\<close>\<close>

definition make_parent :: "('s, 'f) cos \<Rightarrow> abs_path \<Rightarrow> ('s, 'f, unit) ov_op" where
  "make_parent os full = (if full = [] then retX () else sysO (\<lambda>s. co_create_dir_all os s (butlast full)))"

definition ov_create :: "('s, 'f) cos \<Rightarrow> RelPath \<Rightarrow> OpenFlags \<Rightarrow> u32 \<Rightarrow> ('s, 'f, u64 \<times> Attr) ov_op" where
  "ov_create os path flags mode =
    bindX (absO path) (\<lambda>full.
    bindX (make_parent os full) (\<lambda>_.
    bindX (sysO (\<lambda>s. os_open os s full
       \<lparr> oo_read = True, oo_write = True, oo_truncate = (\<not> of_excl flags \<and> of_truncate flags),
         oo_create = (\<not> of_excl flags), oo_create_new = of_excl flags \<rparr>)) (\<lambda>file.
    bindX (lookO (\<lambda>s. os_file_metadata os s file)) (\<lambda>md.
    bindX (add_handle file) (\<lambda>fh. retX (fh, attr_from_metadata md 0))))))"

definition ov_read :: "('s, 'f) cos \<Rightarrow> u64 \<Rightarrow> u64 \<Rightarrow> u32 \<Rightarrow> ('s, 'f, bytes) ov_op" where
  "ov_read os fh offset len =
    bindX (ov_handle fh) (\<lambda>file. \<lambda>(ov, s).
      map_option (\<lambda>(r, s'). (or_code r, (ov, s'))) (read_fully (os_pread os file) s (unat len) offset))"

definition ov_write :: "('s, 'f) cos \<Rightarrow> u64 \<Rightarrow> u64 \<Rightarrow> bytes \<Rightarrow> ('s, 'f, u32) ov_op" where
  "ov_write os fh offset data =
    bindX (ov_handle fh) (\<lambda>file.
    bindX (\<lambda>(ov, s). map_option (\<lambda>(r, s'). (or_code r, (ov, s'))) (write_fully (os_pwrite os file) s data offset)) (\<lambda>_.
      retX (of_nat (length data))))"

definition ov_readdir_children :: "('s, 'f) cos \<Rightarrow> RelPath \<Rightarrow> ('s, 'f, (string \<times> Attr) list) ov_op" where
  "ov_readdir_children os dir =
    getX (\<lambda>(ov, s).
      case os_read_dir os s (ov_abs ov dir) of
        Inl e \<Rightarrow> []
      | Inr items \<Rightarrow>
          List.map_filter (\<lambda>item.
            case item of
              Inl e \<Rightarrow> None
            | Inr d \<Rightarrow>
                if \<not> utf8_valid (rd_name d) then None
                else (case (rd_metadata d, rd_lstat d) of
                        (Inr md, _) \<Rightarrow> Some (rd_name d, attr_from_metadata md 0)
                      | (Inl _, Inr md) \<Rightarrow> Some (rd_name d, attr_from_metadata md 0)
                      | (Inl _, Inl _) \<Rightarrow> None)) items)"

definition ov_mkdir :: "('s, 'f) cos \<Rightarrow> RelPath \<Rightarrow> ('s, 'f, Attr) ov_op" where
  "ov_mkdir os path =
    bindX (absO path) (\<lambda>full.
    bindX (make_parent os full) (\<lambda>_.
    bindX (sysO (\<lambda>s. os_create_dir os s full)) (\<lambda>_.
    bindX (lookO (\<lambda>s. os_metadata os s full)) (\<lambda>md. retX (attr_from_metadata md 0)))))"

definition ov_unlink :: "('s, 'f) cos \<Rightarrow> RelPath \<Rightarrow> ('s, 'f, unit) ov_op" where
  "ov_unlink os path = bindX (absO path) (\<lambda>full. sysO (\<lambda>s. os_remove_file os s full))"

definition ov_rmdir :: "('s, 'f) cos \<Rightarrow> RelPath \<Rightarrow> ('s, 'f, unit) ov_op" where
  "ov_rmdir os path = bindX (absO path) (\<lambda>full. sysO (\<lambda>s. os_remove_dir os s full))"

definition ov_rename :: "('s, 'f) cos \<Rightarrow> RelPath \<Rightarrow> RelPath \<Rightarrow> bool \<Rightarrow> ('s, 'f, unit) ov_op" where
  "ov_rename os from to replace =
    bindX (absO from) (\<lambda>from_full.
    bindX (absO to) (\<lambda>to_full.
    bindX (getX (\<lambda>(ov, s). os_exists os s to_full)) (\<lambda>exists.
      if \<not> replace \<and> exists then errX AlreadyExists
      else bindX (make_parent os to_full) (\<lambda>_. sysO (\<lambda>s. os_rename os s from_full to_full)))))"

definition ov_setattr :: "('s, 'f) cos \<Rightarrow> RelPath \<Rightarrow> u64 option \<Rightarrow> SystemTime option \<Rightarrow> ('s, 'f, Attr) ov_op" where
  "ov_setattr os path sz mtime =
    bindX (absO path) (\<lambda>full.
    bindX (case sz of None \<Rightarrow> retX ()
           | Some n \<Rightarrow> bindX (sysO (\<lambda>s. os_open os s full write_opts)) (\<lambda>f. sysO (\<lambda>s. os_set_len os s f n))) (\<lambda>_.
    bindX (case mtime of None \<Rightarrow> retX ()
           | Some t \<Rightarrow> bindX (sysO (\<lambda>s. os_open os s full write_opts)) (\<lambda>f. sysO (\<lambda>s. os_set_modified os s f t))) (\<lambda>_.
    bindX (lookO (\<lambda>s. os_metadata os s full)) (\<lambda>md. retX (attr_from_metadata md 0)))))"

definition ov_link :: "('s, 'f) cos \<Rightarrow> RelPath \<Rightarrow> RelPath \<Rightarrow> ('s, 'f, Attr) ov_op" where
  "ov_link os target lnk =
    bindX (absO lnk) (\<lambda>link_full.
    bindX (make_parent os link_full) (\<lambda>_.
    bindX (absO target) (\<lambda>target_full.
    bindX (sysO (\<lambda>s. os_hard_link os s target_full link_full)) (\<lambda>_.
    bindX (lookO (\<lambda>s. os_metadata os s link_full)) (\<lambda>md. retX (attr_from_metadata md 0))))))"

definition ov_symlink :: "('s, 'f) cos \<Rightarrow> string \<Rightarrow> RelPath \<Rightarrow> ('s, 'f, Attr) ov_op" where
  "ov_symlink os target lnk =
    bindX (absO lnk) (\<lambda>link_full.
    bindX (make_parent os link_full) (\<lambda>_.
    bindX (sysO (\<lambda>s. os_symlink os s target link_full)) (\<lambda>_.
    bindX (lookO (\<lambda>s. os_symlink_metadata os s link_full)) (\<lambda>md. retX (attr_from_metadata md 0)))))"

definition ov_readlink :: "('s, 'f) cos \<Rightarrow> RelPath \<Rightarrow> ('s, 'f, string) ov_op" where
  "ov_readlink os path =
    bindX (absO path) (\<lambda>full.
    bindX (lookO (\<lambda>s. os_read_link os s full)) (\<lambda>target.
      if utf8_valid target then retX (slashes target) else errX InvalidPath))"

text \<open>\<open>sync_data\<close> is best effort, its outcome ignored.\<close>

definition ov_flush :: "u64 \<Rightarrow> ('s, 'f, unit) ov_op" where
  "ov_flush fh = bindX (ov_handle fh) (\<lambda>_. retX ())"

definition ov_release :: "u64 \<Rightarrow> 'f Overlay \<Rightarrow> 'f Overlay" where
  "ov_release fh ov = ov\<lparr>ov_handles := hm_del fh (ov_handles ov)\<rparr>"

definition ov_orphans :: "('s, 'f) cos \<Rightarrow> glob_lib \<Rightarrow> 'f Overlay \<Rightarrow> 's \<Rightarrow> string list" where
  "ov_orphans os lib ov s =
    (case os_read_dir os s (ov_root ov) of
       Inl e \<Rightarrow> []
     | Inr items \<Rightarrow>
         filter (\<lambda>name. \<not> is_excluded lib (ov_matcher ov) name)
           (List.map_filter (\<lambda>item. case item of Inl e \<Rightarrow> None | Inr d \<Rightarrow> if utf8_valid (rd_name d) then Some (rd_name d) else None) items))"

section \<open>Symlink targets that point back into the mount\<close>

text \<open>\<open>&s[n..]\<close>: the rest of a string, or a panic when \<open>n\<close> is not on a character boundary.\<close>

definition str_from :: "nat \<Rightarrow> string \<Rightarrow> string option" where
  "str_from n s = (if n = length s \<or> n < length s \<and> \<not> utf8_cont (of_char (s ! n)) then Some (drop n s) else None)"

definition eq_ignore_ascii_case :: "string \<Rightarrow> string \<Rightarrow> bool" where
  "eq_ignore_ascii_case a b = (map to_ascii_uppercase a = map to_ascii_uppercase b)"

definition relative_steps :: "string list \<Rightarrow> string list \<Rightarrow> string list" where
  "relative_steps from to =
    (let shared = length (takeWhile (\<lambda>(a, b). eq_ignore_ascii_case a b) (zip from to))
     in replicate (length from - shared) ''..'' @ drop shared to)"

text \<open>\<open>upper\<close> is \<^verbatim>\<open>str::to_uppercase\<close>, the Unicode case mapping.\<close>

definition localize_symlink_target :: "(string \<Rightarrow> string) \<Rightarrow> string \<Rightarrow> string \<Rightarrow> RelPath \<Rightarrow> string option" where
  "localize_symlink_target upper mount_root target link_dir =
    (let norm = slashes target;
         prefix = trim_end (\<lambda>c. c = CHR ''/'') (slashes mount_root) @ ''/''
     in if strip_prefix (upper prefix) (upper norm) = None then Some target
        else map_option (\<lambda>rest.
               let rest = trim_start (\<lambda>c. c = CHR ''/'') rest;
                   from = (if is_root link_dir then [] else split_on CHR ''/'' link_dir);
                   to = (if rest = [] then [] else split_on CHR ''/'' rest);
                   out = relative_steps from to
               in if out = [] then ''.'' else join_on CHR ''/'' out) (str_from (length prefix) norm))"

text \<open>What the standard library documents of \<open>to_uppercase\<close>: it maps character by character.\<close>

definition upper_ok :: "(string \<Rightarrow> string) \<Rightarrow> bool" where
  "upper_ok upper \<longleftrightarrow> (\<forall>a b. utf8_valid a \<longrightarrow> utf8_valid b \<longrightarrow> upper (a @ b) = upper a @ upper b)"

lemma lands_loop_append: "lands_loop st (xs @ ys) = Option.bind (lands_loop st xs) (\<lambda>st'. lands_loop st' ys)"
  by (induction st xs rule: lands_loop.induct) auto

lemma lands_loop_up: "k \<le> length st \<Longrightarrow> lands_loop st (replicate k ''..'') = Some (take (length st - k) st)"
proof (induction k arbitrary: st)
  case (Suc k)
  then have "st \<noteq> []" by auto
  then have "lands_loop st (replicate (Suc k) ''..'') = lands_loop (butlast st) (replicate k ''..'')" by simp
  also have "\<dots> = Some (take (length st - Suc k) (butlast st))" using Suc by simp
  finally show ?case using Suc.prems by (simp add: butlast_conv_take min_def)
qed simp

lemma lands_loop_down: "list_all name_ok ns \<Longrightarrow> lands_loop st ns = Some (st @ ns)"
  by (induction ns arbitrary: st) (auto simp: name_ok_def)

lemma shared_take: "take (length (takeWhile (\<lambda>(a, b). P a b) (zip xs ys))) xs = map fst (takeWhile (\<lambda>(a, b). P a b) (zip xs ys))"
  "take (length (takeWhile (\<lambda>(a, b). P a b) (zip xs ys))) ys = map snd (takeWhile (\<lambda>(a, b). P a b) (zip xs ys))"
  by (induction xs ys rule: list_induct2') auto

lemma shared_le: "length (takeWhile P (zip xs ys)) \<le> length xs"
  using length_takeWhile_le [of P "zip xs ys"] by simp

text \<open>Walking the steps from the link's directory arrives at the target, when names that agree up to case agree.\<close>

lemma relative_steps_land:
  assumes "list_all name_ok to" "\<And>a b. (a, b) \<in> set (zip from to) \<Longrightarrow> eq_ignore_ascii_case a b \<Longrightarrow> a = b"
  shows "lands_loop from (relative_steps from to) = Some to"
proof -
  let ?z = "takeWhile (\<lambda>(a, b). eq_ignore_ascii_case a b) (zip from to)"
  have "map fst ?z = map snd ?z"
  proof (rule map_cong [OF refl])
    fix x assume "x \<in> set ?z"
    then have "x \<in> set (zip from to)" "eq_ignore_ascii_case (fst x) (snd x)" by (auto dest: set_takeWhileD)
    then show "fst x = snd x" using assms(2) [of "fst x" "snd x"] by simp
  qed
  then have eq: "take (length ?z) from = take (length ?z) to" by (simp add: shared_take)
  have "list_all name_ok (drop (length ?z) to)" using assms(1) by (auto simp: list_all_iff dest: in_set_dropD)
  then show ?thesis
    by (simp add: relative_steps_def Let_def lands_loop_append lands_loop_up lands_loop_down shared_le eq)
qed

lemma slashes_id: "CHR 0x5C \<notin> set s \<Longrightarrow> slashes s = s"
  by (induction s) (auto simp: slashes_def)

lemma utf8_start: "utf8_valid (c # cs) \<Longrightarrow> \<not> utf8_cont (of_char c)"
  by (auto simp: utf8_valid_def utf8_cont_def split: if_splits)

lemma split_on_subset: "p \<in> set (split_on c s) \<Longrightarrow> set p \<subseteq> set s"
proof (induction s arbitrary: p)
  case (Cons x xs)
  then show ?case by (cases "split_on c xs") (auto split: if_splits, blast+)
qed simp

lemma join_on_set: "x \<in> set (join_on c ps) \<Longrightarrow> x = c \<or> (\<exists>p \<in> set ps. x \<in> set p)"
  by (induction c ps rule: join_on.induct) auto

text \<open>A walk given as a text of plain components is the walk over them.\<close>

lemma lands_of_steps:
  assumes "valid dir" "name_ok name" "lands_loop (components dir) steps = Some to"
    "steps \<noteq> []" "\<And>c. c \<in> set steps \<Longrightarrow> c \<noteq> [] \<and> CHR ''/'' \<notin> set c \<and> CHR 0x5C \<notin> set c \<and> CHR '':'' \<notin> set c"
  shows "symlink_lands_inside (join dir name) (join_on CHR ''/'' steps) = Some (join_on CHR ''/'' to)"
proof -
  let ?s = "join_on CHR ''/'' steps"
  have no: "CHR 0x5C \<notin> set ?s" "CHR '':'' \<notin> set ?s" using assms(5) by (auto dest!: join_on_set)
  obtain x xs where s: "?s = x # xs" "x \<noteq> CHR ''/''"
    using assms(4,5) by (cases steps; cases "hd steps"; cases "tl steps") fastforce+
  have sp: "split_on CHR ''/'' ?s = steps" using assms(4,5) by (intro split_join_on) auto
  have st: "(if is_root dir then [] else split_on CHR ''/'' dir) = components dir" by (simp add: is_root_def components_def)
  show ?thesis
    using s no sp assms(3) by (simp add: symlink_lands_inside_def rp.parent_child [OF assms(1,2)] slashes_id st Let_def split: list.splits) auto
qed


definition ascii_upper :: "string \<Rightarrow> string" where
  "ascii_upper s = map to_ascii_uppercase s"


text \<open>Where names differ in case only, the rewritten link goes elsewhere: a link in \<open>Docs\<close> to a file of \<open>docs\<close> lands in
  \<open>Docs\<close>.\<close>

lemma localized_symlink_case:
  "localize_symlink_target ascii_upper ''/mnt'' ''/mnt/docs/x'' ''Docs'' = Some ''x''
   \<and> symlink_lands_inside ''Docs/l'' ''x'' = Some ''Docs/x''"
  by code_simp

end
