(* ===== verification/Client_Fs.thy ===== *)
theory Client_Fs
  imports Client_Overlay
begin

text \<open>
  The file-system facade of the client: \<^verbatim>\<open>crates/alloyfs-client/src/{remote_fs,options,events,walker}.rs\<close>.

  Every mount backend calls \<open>RemoteFs\<close>.  Its state is the record below; a call is a \<open>proc\<close> over it.  The connection and
  the server behind it are the state \<open>'n\<close> of the parameter \<open>cl_request\<close> (one round trip); \<open>cl_swapped\<close> tells whether the
  reconnect supervisor has replaced the connection by an open one since.  Requests a call has in flight at the same time
  are issued in order.  A \<^verbatim>\<open>HashMap\<close> is iterated in the order \<open>cl_iter\<close> gives.  Time is \<open>rf_now\<close>, in milliseconds.
\<close>

section \<open>State\<close>

record ('s, 'f, 'n) cenv =
  cl_os :: "('s, 'f) cos"
  cl_globs :: glob_lib
  cl_request :: "Request \<Rightarrow> 'n \<Rightarrow> (TransportError + Reply) \<times> 'n"
  cl_keepalive :: "Request \<Rightarrow> 'n \<Rightarrow> (TransportError + Reply) \<times> 'n"
  cl_swapped :: "'n \<Rightarrow> bool"
  cl_proto :: "'n \<Rightarrow> u16"
  cl_iter :: "(u64, bytes) hmap \<Rightarrow> (u64 \<times> bytes) list"
  cl_upper :: "string \<Rightarrow> string"
  cl_from_json :: "string \<Rightarrow> CacheManifest option"
  cl_to_json :: "CacheManifest \<Rightarrow> bytes option"

definition ATTR_TTL :: nat where "ATTR_TTL = 5000"

record OpenState =
  hs_path :: RelPath
  hs_flags :: OpenFlags
  hs_server_fh :: u64
  hs_cache_ok :: bool
  hs_wrote :: bool
  hs_ra :: ReadAhead
  hs_lock :: "LockKind option"
  hs_poisoned :: bool
  hs_version :: u64

record ('s, 'f, 'n) RemoteFs =
  rf_net :: 'n
  rf_disk :: 's
  rf_now :: nat
  rf_ino :: InodeTable
  rf_root_attr :: Attr
  rf_attr_cache :: "(u64, Attr \<times> nat) hmap"
  rf_overlay :: "'f Overlay option"
  rf_cache :: "AutoCache option"
  rf_open_files :: "(u64, OpenState) hmap"
  rf_export :: string
  rf_has_dialer :: bool
  rf_epoch :: u64
  rf_last_event_seq :: u64
  rf_detect_conflicts :: bool
  rf_mount_root :: "string option"

type_synonym ('s, 'f, 'n, 'a) fs_op = "(('s, 'f, 'n) RemoteFs, FsError, 'a) proc"

definition failX :: "ErrorCode \<Rightarrow> ('s, 'f, 'n, 'a) fs_op" where
  "failX e = errX (FeRemote e)"

section \<open>Calls\<close>

fun retryable :: "Request \<Rightarrow> bool" where
  "retryable (ReqGetattr p) = True"
| "retryable (ReqReaddir p c) = True"
| "retryable (ReqRead fh off len) = True"
| "retryable ReqStatfs = True"
| "retryable _ = False"

text \<open>A transport failure or the server's refusal as one error.\<close>

definition flat :: "TransportError + Reply \<Rightarrow> FsError + Response" where
  "flat r = (case r of Inl t \<Rightarrow> Inl (FeTransport t) | Inr (Inl e) \<Rightarrow> Inl (FeRemote e) | Inr (Inr resp) \<Rightarrow> Inr resp)"

definition request :: "('s, 'f, 'n) cenv \<Rightarrow> Request \<Rightarrow> ('s, 'f, 'n) RemoteFs \<Rightarrow> (TransportError + Reply) \<times> ('s, 'f, 'n) RemoteFs" where
  "request env req st = (case cl_request env req (rf_net st) of (r, n) \<Rightarrow> (r, st\<lparr>rf_net := n\<rparr>))"

definition call :: "('s, 'f, 'n) cenv \<Rightarrow> Request \<Rightarrow> ('s, 'f, 'n, Response) fs_op" where
  "call env req st =
    (case request env req st of (first, st1) \<Rightarrow>
       if first = Inl TeClosed \<and> retryable req \<and> cl_swapped env (rf_net st1)
       then (case request env req st1 of (again, st2) \<Rightarrow> Some (flat again, st2))
       else Some (flat first, st1))"

section \<open>Attributes, paths and routing\<close>

definition cache_attr :: "u64 \<Rightarrow> Attr \<Rightarrow> ('s, 'f, 'n) RemoteFs \<Rightarrow> ('s, 'f, 'n) RemoteFs" where
  "cache_attr ino attr st = st\<lparr>rf_attr_cache := hm_put ino (attr, rf_now st) (rf_attr_cache st)\<rparr>"

definition invalidate_attr :: "u64 \<Rightarrow> ('s, 'f, 'n) RemoteFs \<Rightarrow> ('s, 'f, 'n) RemoteFs" where
  "invalidate_attr ino st = st\<lparr>rf_attr_cache := hm_del ino (rf_attr_cache st)\<rparr>"

definition invalidate_all :: "('s, 'f, 'n) RemoteFs \<Rightarrow> ('s, 'f, 'n) RemoteFs" where
  "invalidate_all st = st\<lparr>rf_attr_cache := []\<rparr>"

definition on_handle :: "u64 \<Rightarrow> (OpenState \<Rightarrow> OpenState) \<Rightarrow> ('s, 'f, 'n) RemoteFs \<Rightarrow> ('s, 'f, 'n) RemoteFs" where
  "on_handle fh f st =
    (case hm_get (rf_open_files st) fh of
       Some h \<Rightarrow> st\<lparr>rf_open_files := hm_put fh (f h) (rf_open_files st)\<rparr>
     | None \<Rightarrow> st)"

definition invalidate_read_cache :: "u64 \<Rightarrow> ('s, 'f, 'n) RemoteFs \<Rightarrow> ('s, 'f, 'n) RemoteFs" where
  "invalidate_read_cache fh = on_handle fh (\<lambda>h. h\<lparr>hs_ra := ra_clear (hs_ra h)\<rparr>)"

definition is_overlay :: "('s, 'f, 'n) cenv \<Rightarrow> RelPath \<Rightarrow> ('s, 'f, 'n) RemoteFs \<Rightarrow> bool" where
  "is_overlay env path st = (case rf_overlay st of Some ov \<Rightarrow> ov_excluded (cl_globs env) ov path | None \<Rightarrow> False)"

text \<open>An operation of the overlay; \<open>overlay_ref\<close> panics when there is none.\<close>

definition ovX :: "('s, 'f, 'a) ov_op \<Rightarrow> ('s, 'f, 'n, 'a) fs_op" where
  "ovX f st =
    (case rf_overlay st of
       None \<Rightarrow> None
     | Some ov \<Rightarrow>
         map_option (\<lambda>(r, ov', s'). (map_err FeRemote r, st\<lparr>rf_overlay := Some ov', rf_disk := s'\<rparr>)) (f (ov, rf_disk st)))"

definition rf_path_of :: "u64 \<Rightarrow> ('s, 'f, 'n, RelPath) fs_op" where
  "rf_path_of ino st = Some (map_err FeRemote (ok_or NotFound (path_of (rf_ino st) ino)), st)"

definition allocX :: "RelPath \<Rightarrow> ('s, 'f, 'n, u64) fs_op" where
  "allocX path st = (case get_or_alloc path (rf_ino st) of (ino, t) \<Rightarrow> Some (Inr ino, st\<lparr>rf_ino := t\<rparr>))"

definition server_fh :: "u64 \<Rightarrow> ('s, 'f, 'n) RemoteFs \<Rightarrow> u64" where
  "server_fh fh st = (case hm_get (rf_open_files st) fh of Some h \<Rightarrow> hs_server_fh h | None \<Rightarrow> fh)"

definition routed :: "('s, 'f, 'n) cenv \<Rightarrow> RelPath \<Rightarrow> ('s, 'f, 'n, 'a) fs_op \<Rightarrow> ('s, 'f, 'n, 'a) fs_op \<Rightarrow> ('s, 'f, 'n, 'a) fs_op" where
  "routed env path lcl remote = bindX (getX (is_overlay env path)) (\<lambda>ov. if ov then lcl else remote)"

text \<open>\<open>expect_resp!\<close>: any other response is an I/O error.\<close>

definition expect_attr :: "Response \<Rightarrow> ('s, 'f, 'n, Attr) fs_op" where
  "expect_attr r = (case r of RspAttr a \<Rightarrow> retX a | _ \<Rightarrow> failX IoError)"

definition expect_opened :: "Response \<Rightarrow> ('s, 'f, 'n, u64 \<times> Attr) fs_op" where
  "expect_opened r = (case r of RspOpened fh a \<Rightarrow> retX (fh, a) | _ \<Rightarrow> failX IoError)"

definition expect_ok :: "Response \<Rightarrow> ('s, 'f, 'n, unit) fs_op" where
  "expect_ok r = (case r of RspOk \<Rightarrow> retX () | _ \<Rightarrow> failX IoError)"

definition has_overlay_bit :: "u64 \<Rightarrow> bool" where
  "has_overlay_bit fh = (fh AND OVERLAY_FH_BIT \<noteq> 0)"

section \<open>Looking\<close>

definition rf_getattr :: "('s, 'f, 'n) cenv \<Rightarrow> u64 \<Rightarrow> ('s, 'f, 'n, Attr) fs_op" where
  "rf_getattr env ino =
    bindX (rf_path_of ino) (\<lambda>path.
    routed env path (ovX (ov_getattr (cl_os env) path))
      (bindX (getX (\<lambda>st. case hm_get (rf_attr_cache st) ino of
                           Some (attr, when) \<Rightarrow> if rf_now st - when < ATTR_TTL then Some attr else None
                         | None \<Rightarrow> None)) (\<lambda>hit.
         case hit of
           Some attr \<Rightarrow> retX attr
         | None \<Rightarrow>
             bindX (call env (ReqGetattr path)) (\<lambda>resp.
             bindX (expect_attr resp) (\<lambda>attr.
             bindX (modX (cache_attr ino attr)) (\<lambda>_. retX attr))))))"

definition lookup :: "('s, 'f, 'n) cenv \<Rightarrow> u64 \<Rightarrow> string \<Rightarrow> ('s, 'f, 'n, u64 \<times> Attr) fs_op" where
  "lookup env parent name =
    bindX (rf_path_of parent) (\<lambda>dir.
    let path = join dir name in
    routed env path
      (bindX (ovX (ov_getattr (cl_os env) path)) (\<lambda>attr. bindX (allocX path) (\<lambda>ino. retX (ino, attr))))
      (bindX (call env (ReqGetattr path)) (\<lambda>resp.
       bindX (expect_attr resp) (\<lambda>attr.
       bindX (allocX path) (\<lambda>ino.
       bindX (modX (cache_attr ino attr)) (\<lambda>_. retX (ino, attr)))))))"

type_synonym listing_entry = "string \<times> u64 \<times> Attr"

fun list_overlay :: "(RelPath \<Rightarrow> bool) \<Rightarrow> RelPath \<Rightarrow> (string \<times> Attr) list \<Rightarrow> listing_entry list \<Rightarrow> ('s, 'f, 'n, listing_entry list) fs_op" where
  "list_overlay P dir [] out = retX out"
| "list_overlay P dir ((name, attr) # rest) out =
    (if P (join dir name)
     then bindX (allocX (join dir name)) (\<lambda>ino. list_overlay P dir rest (out @ [(name, ino, attr)]))
     else list_overlay P dir rest out)"

fun list_page :: "('s, 'f, 'n) cenv \<Rightarrow> RelPath \<Rightarrow> DirEntry list \<Rightarrow> listing_entry list \<Rightarrow> ('s, 'f, 'n, listing_entry list) fs_op" where
  "list_page env dir [] out = retX out"
| "list_page env dir (e # entries) out =
    bindX (getX (is_overlay env (join dir (de_name e)))) (\<lambda>shadowed.
      if shadowed then list_page env dir entries out
      else
        bindX (allocX (join dir (de_name e))) (\<lambda>ino.
        bindX (modX (cache_attr ino (de_attr e))) (\<lambda>_.
          list_page env dir entries (out @ [(de_name e, ino, de_attr e)]))))"

definition readdir_page :: "('s, 'f, 'n) cenv \<Rightarrow> RelPath \<Rightarrow> u64 \<Rightarrow> listing_entry list \<Rightarrow> ('s, 'f, 'n, listing_entry list \<times> u64 option) fs_op" where
  "readdir_page env dir cursor out =
    bindX (call env (ReqReaddir dir cursor)) (\<lambda>resp.
      case resp of
        RspDir entries nxt \<Rightarrow> bindX (list_page env dir entries out) (\<lambda>out'. retX (out', nxt))
      | _ \<Rightarrow> failX IoError)"

partial_function (option) readdir_loop :: "('s, 'f, 'n) cenv \<Rightarrow> RelPath \<Rightarrow> u64 \<Rightarrow> listing_entry list \<Rightarrow> ('s, 'f, 'n) RemoteFs
    \<Rightarrow> ((FsError + listing_entry list) \<times> ('s, 'f, 'n) RemoteFs) option" where
  "readdir_loop env dir cursor out st =
    Option.bind (readdir_page env dir cursor out st) (\<lambda>r.
      case fst r of
        Inl e \<Rightarrow> Some (Inl e, snd r)
      | Inr p \<Rightarrow> (case snd p of Some c \<Rightarrow> readdir_loop env dir c (fst p) (snd r) | None \<Rightarrow> Some (Inr (fst p), snd r)))"

declare readdir_loop.simps [code]

definition rf_readdir :: "('s, 'f, 'n) cenv \<Rightarrow> u64 \<Rightarrow> ('s, 'f, 'n, listing_entry list) fs_op" where
  "rf_readdir env ino =
    bindX (rf_path_of ino) (\<lambda>dir.
    routed env dir
      (bindX (ovX (ov_readdir_children (cl_os env) dir)) (\<lambda>children. list_overlay (\<lambda>_. True) dir children []))
      (bindX (readdir_loop env dir 0 []) (\<lambda>out.
       bindX (getX (\<lambda>st. (rf_overlay st \<noteq> None, \<lambda>p. is_overlay env p st))) (\<lambda>(some, ov).
         if some
         then bindX (ovX (ov_readdir_children (cl_os env) dir)) (\<lambda>children. list_overlay ov dir children out)
         else retX out))))"

definition statfs_rf :: "('s, 'f, 'n) cenv \<Rightarrow> ('s, 'f, 'n, u32 \<times> u64 \<times> u64) fs_op" where
  "statfs_rf env = bindX (call env ReqStatfs) (\<lambda>r. case r of RspStatfs bs b f \<Rightarrow> retX (bs, b, f) | _ \<Rightarrow> failX IoError)"

section \<open>Opening and reading\<close>

definition new_handle :: "RelPath \<Rightarrow> OpenFlags \<Rightarrow> u64 \<Rightarrow> bool \<Rightarrow> bool \<Rightarrow> u64 \<Rightarrow> OpenState" where
  "new_handle path flags fh cache_ok wrote version =
    \<lparr> hs_path = path, hs_flags = flags, hs_server_fh = fh, hs_cache_ok = cache_ok, hs_wrote = wrote, hs_ra = ra_new,
      hs_lock = None, hs_poisoned = False, hs_version = version \<rparr>"

definition put_handle :: "u64 \<Rightarrow> OpenState \<Rightarrow> ('s, 'f, 'n) RemoteFs \<Rightarrow> ('s, 'f, 'n) RemoteFs" where
  "put_handle fh h st = st\<lparr>rf_open_files := hm_put fh h (rf_open_files st)\<rparr>"

definition check_fresh :: "RelPath \<Rightarrow> Attr \<Rightarrow> ('s, 'f, 'n, bool) fs_op" where
  "check_fresh path attr st =
    (case rf_cache st of
       None \<Rightarrow> Some (Inr False, st)
     | Some c \<Rightarrow> (case fresh_for path attr c of (ok, c') \<Rightarrow> Some (Inr ok, st\<lparr>rf_cache := Some c'\<rparr>)))"

definition rf_open :: "('s, 'f, 'n) cenv \<Rightarrow> u64 \<Rightarrow> OpenFlags \<Rightarrow> ('s, 'f, 'n, u64 \<times> Attr) fs_op" where
  "rf_open env ino flags =
    bindX (rf_path_of ino) (\<lambda>path.
    routed env path (ovX (ov_open (cl_os env) path flags))
      (bindX (call env (ReqOpen path flags)) (\<lambda>resp.
       bindX (expect_opened resp) (\<lambda>(fh, attr).
       bindX (modX (cache_attr ino attr)) (\<lambda>_.
       bindX (check_fresh path attr) (\<lambda>cache_ok.
       bindX (modX (put_handle fh (new_handle path flags fh cache_ok False (a_version attr)))) (\<lambda>_.
         retX (fh, attr))))))))"

definition fetch_block :: "('s, 'f, 'n) cenv \<Rightarrow> u64 \<Rightarrow> u64 \<Rightarrow> 'n \<Rightarrow> bytes option \<times> 'n" where
  "fetch_block env sfh block n =
    (case cl_request env (ReqRead sfh (block * ucast DATA_CHUNK) DATA_CHUNK) n of
       (Inr (Inr (RspData data)), n') \<Rightarrow> (Some data, n')
     | (_, n') \<Rightarrow> (None, n'))"

fun prefetch_all :: "('s, 'f, 'n) cenv \<Rightarrow> u64 \<Rightarrow> u64 list \<Rightarrow> ReadAhead \<times> 'n \<Rightarrow> ReadAhead \<times> 'n" where
  "prefetch_all env sfh [] acc = acc"
| "prefetch_all env sfh (b # bs) (ra, n) =
    (case fetch_block env sfh b n of (d, n1) \<Rightarrow> prefetch_all env sfh bs (ra_put b d ra, n1))"

text \<open>Retained blocks first, then prefetched ones; what is left is needed.\<close>

fun gather :: "u64 list \<Rightarrow> (u64, bytes) hmap \<times> u64 list \<times> ReadAhead \<Rightarrow> (u64, bytes) hmap \<times> u64 list \<times> ReadAhead" where
  "gather [] acc = acc"
| "gather (b # bs) (ready, need, ra) =
    (case retained b ra of
       Some data \<Rightarrow> gather bs (hm_put b data ready, need, count_ra (\<lambda>s. s\<lparr>rs_retained_hits := rs_retained_hits s + 1\<rparr>) ra)
     | None \<Rightarrow>
         (case ra_take b ra of
            (Some (Some data), ra') \<Rightarrow>
              gather bs (hm_put b data ready, need, count_ra (\<lambda>s. s\<lparr>rs_window_hits := rs_window_hits s + 1\<rparr>) ra')
          | (_, ra') \<Rightarrow> gather bs (ready, need @ [b], ra')))"

fun fetch_all :: "('s, 'f, 'n) cenv \<Rightarrow> u64 \<Rightarrow> u64 list \<Rightarrow> 'n \<Rightarrow> (u64 \<times> bytes option) list \<times> 'n" where
  "fetch_all env sfh [] n = ([], n)"
| "fetch_all env sfh (b # bs) n =
    (case fetch_block env sfh b n of (d, n1) \<Rightarrow> (case fetch_all env sfh bs n1 of (ds, n2) \<Rightarrow> ((b, d) # ds, n2)))"

fun add_fetched :: "(u64 \<times> bytes option) list \<Rightarrow> (u64, bytes) hmap \<Rightarrow> (u64, bytes) hmap option" where
  "add_fetched [] ready = Some ready"
| "add_fetched ((b, Some d) # rest) ready = add_fetched rest (hm_put b d ready)"
| "add_fetched ((b, None) # rest) ready = None"

fun assemble :: "(u64, bytes) hmap \<Rightarrow> u64 list \<Rightarrow> bytes \<Rightarrow> bytes option" where
  "assemble ready [] out = Some out"
| "assemble ready (b # bs) out =
    (case hm_get ready b of
       None \<Rightarrow> None
     | Some data \<Rightarrow>
         if int (length data) < uint DATA_CHUNK then Some (out @ data) else assemble ready bs (out @ data))"

definition read_window :: "('s, 'f, 'n) cenv \<Rightarrow> u64 \<Rightarrow> u64 \<Rightarrow> u32 \<Rightarrow> ReadAhead \<Rightarrow> 'n \<Rightarrow> (FsError + bytes) \<times> ReadAhead \<times> 'n" where
  "read_window env sfh offset sz ra n =
    (let (prefetch, ra) = observe offset sz ra;
         first_block = block_of offset;
         last_block = block_of (offset + ucast (max sz 1) - 1);
         (ra, n) = (if prefetch then prefetch_all env sfh (missing (last_block + 1) (- 1) ra) (ra, n) else (ra, n));
         (ready, need, ra) = gather (range_incl first_block last_block) ([], [], ra);
         ra = (if need = [] then ra else count_ra (\<lambda>s. s\<lparr>rs_sync_fetches := rs_sync_fetches s + of_nat (length need)\<rparr>) ra);
         (fetched, n) = fetch_all env sfh need n
     in case add_fetched fetched ready of
          None \<Rightarrow> (Inl (FeRemote IoError), ra, n)
        | Some ready \<Rightarrow>
            (case assemble ready (range_incl first_block last_block) [] of
               None \<Rightarrow> (Inl (FeRemote IoError), ra, n)
             | Some assembled \<Rightarrow>
                 let skip = unat (offset - first_block * ucast DATA_CHUNK);
                     out = (if skip \<ge> length assembled then []
                            else take (min (skip + unat sz) (length assembled) - skip) (drop skip assembled))
                 in (Inr out, fold (\<lambda>(b, d). retain b d) (cl_iter env ready) ra, n)))"

text \<open>\<open>read_blocks_direct\<close>, for handles that are not tracked; \<open>left\<close> is \<open>end - pos\<close>, at most the 32-bit size of the read.\<close>

function direct_chunks :: "u64 \<Rightarrow> nat \<Rightarrow> (u64 \<times> u32) list" where
  "direct_chunks pos left =
    (if left = 0 then []
     else let want = min left (unat DATA_CHUNK) in (pos, of_nat want) # direct_chunks (pos + of_nat want) (left - want))"
  by pat_completeness auto
termination by (relation "measure snd") (auto simp: DATA_CHUNK_def)

declare direct_chunks.simps [simp del]

fun request_all :: "('s, 'f, 'n) cenv \<Rightarrow> Request list \<Rightarrow> 'n \<Rightarrow> (TransportError + Reply) list \<times> 'n" where
  "request_all env [] n = ([], n)"
| "request_all env (r # rs) n =
    (case cl_request env r n of (x, n1) \<Rightarrow> (case request_all env rs n1 of (xs, n2) \<Rightarrow> (x # xs, n2)))"

fun join_direct :: "((TransportError + Reply) \<times> u32) list \<Rightarrow> bytes \<Rightarrow> FsError + bytes" where
  "join_direct [] out = Inr out"
| "join_direct ((resp, want) # rest) out =
    (case flat resp of
       Inl e \<Rightarrow> Inl e
     | Inr (RspData chunk) \<Rightarrow>
         if (of_nat (length chunk) :: u32) < want then Inr (out @ chunk) else join_direct rest (out @ chunk)
     | Inr _ \<Rightarrow> Inl (FeRemote IoError))"

definition read_blocks_direct :: "('s, 'f, 'n) cenv \<Rightarrow> u64 \<Rightarrow> u64 \<Rightarrow> u32 \<Rightarrow> ('s, 'f, 'n, bytes) fs_op" where
  "read_blocks_direct env fh offset sz st =
    (let cs = direct_chunks offset (if offset < offset + ucast sz then unat sz else 0)
     in case request_all env (map (\<lambda>(pos, want). ReqRead fh pos want) cs) (rf_net st) of
          (rs, n) \<Rightarrow> Some (join_direct (zip rs (map snd cs)) [], st\<lparr>rf_net := n\<rparr>))"

definition check_poisoned :: "u64 \<Rightarrow> ('s, 'f, 'n, unit) fs_op" where
  "check_poisoned fh =
    bindX (getX (\<lambda>st. case hm_get (rf_open_files st) fh of Some h \<Rightarrow> hs_poisoned h | None \<Rightarrow> False)) (\<lambda>p.
      if p then failX IoError else retX ())"

text \<open>The fast path: the blob of a handle that was fresh when it was opened.\<close>

definition read_cached :: "('s, 'f, 'n) cenv \<Rightarrow> u64 \<Rightarrow> u64 \<Rightarrow> u32 \<Rightarrow> ('s, 'f, 'n, bytes option) fs_op" where
  "read_cached env fh offset sz st =
    (case (rf_cache st, hm_get (rf_open_files st) fh) of
       (Some c, Some h) \<Rightarrow>
         if hs_cache_ok h
         then map_option (\<lambda>(r, s'). (Inr r,
                  let st' = st\<lparr>rf_disk := s'\<rparr> in
                  case r of Some data \<Rightarrow> st' | None \<Rightarrow> on_handle fh (\<lambda>h. h\<lparr>hs_cache_ok := False\<rparr>) st'))
                (read_blob (cl_os env) c (hs_path h) offset sz (rf_disk st))
         else Some (Inr None, st)
     | _ \<Rightarrow> Some (Inr None, st))"

definition read_remote :: "('s, 'f, 'n) cenv \<Rightarrow> u64 \<Rightarrow> u64 \<Rightarrow> u32 \<Rightarrow> ('s, 'f, 'n, bytes) fs_op" where
  "read_remote env fh offset sz st =
    (case hm_get (rf_open_files st) fh of
       None \<Rightarrow> read_blocks_direct env fh offset sz st
     | Some h \<Rightarrow>
         (case read_window env (hs_server_fh h) offset sz (hs_ra h) (rf_net st) of
            (r, ra, n) \<Rightarrow> Some (r, on_handle fh (\<lambda>h. h\<lparr>hs_ra := ra\<rparr>) (st\<lparr>rf_net := n\<rparr>))))"

definition rf_read :: "('s, 'f, 'n) cenv \<Rightarrow> u64 \<Rightarrow> u64 \<Rightarrow> u32 \<Rightarrow> ('s, 'f, 'n, bytes) fs_op" where
  "rf_read env fh offset sz =
    (if has_overlay_bit fh then ovX (ov_read (cl_os env) fh offset sz)
     else
       bindX (check_poisoned fh) (\<lambda>_.
       bindX (read_cached env fh offset sz) (\<lambda>hit.
         case hit of Some data \<Rightarrow> retX data | None \<Rightarrow> read_remote env fh offset sz)))"

section \<open>Writing\<close>

text \<open>An operation of the auto-cache, when there is one.\<close>

definition on_cache :: "(AutoCache \<times> 's \<Rightarrow> AutoCache \<times> 's) \<Rightarrow> ('s, 'f, 'n) RemoteFs \<Rightarrow> ('s, 'f, 'n) RemoteFs" where
  "on_cache f st =
    (case rf_cache st of
       Some c \<Rightarrow> (case f (c, rf_disk st) of (c', s') \<Rightarrow> st\<lparr>rf_cache := Some c', rf_disk := s'\<rparr>)
     | None \<Rightarrow> st)"

definition forget_reads :: "RelPath \<Rightarrow> OpenState \<Rightarrow> OpenState" where
  "forget_reads path h = (if hs_path h = path then h\<lparr>hs_cache_ok := False, hs_ra := ra_clear (hs_ra h)\<rparr> else h)"

definition mark_path_written :: "('s, 'f, 'n) cenv \<Rightarrow> RelPath \<Rightarrow> ('s, 'f, 'n) RemoteFs \<Rightarrow> ('s, 'f, 'n) RemoteFs" where
  "mark_path_written env path st =
    on_cache (invalidate (cl_os env) path)
      (st\<lparr>rf_open_files := map (\<lambda>(fh, h). (fh, forget_reads path h)) (rf_open_files st)\<rparr>)"

function write_chunks_rf :: "('s, 'f, 'n) cenv \<Rightarrow> u64 \<Rightarrow> u64 \<Rightarrow> u64 \<Rightarrow> bytes \<Rightarrow> u64 option \<Rightarrow> nat \<Rightarrow> ('s, 'f, 'n, unit) fs_op" where
  "write_chunks_rf env fh sfh offset data expect pos st =
    (if pos < length data then
       (case call env (ReqWrite sfh (offset + of_nat pos) (take (unat DATA_CHUNK) (drop pos data)) expect) st of
          None \<Rightarrow> None
        | Some (Inl e, st) \<Rightarrow> Some (Inl e, st)
        | Some (Inr (RspWritten n new_version c), st) \<Rightarrow>
            let st = on_handle fh (\<lambda>h. h\<lparr>hs_version := new_version\<rparr>) st;
                expect = (if expect \<noteq> None then Some new_version else None)
            in if n = 0 then Some (Inl (FeRemote IoError), st)
               else write_chunks_rf env fh sfh offset data expect (pos + unat n) st
        | Some (Inr _, st) \<Rightarrow> Some (Inl (FeRemote IoError), st))
     else Some (Inr (), st))"
  by pat_completeness auto
termination
  by (relation "measure (\<lambda>(env, fh, sfh, offset, data, expect, pos, st). length data - pos)") (auto intro!: diff_less_mono2 simp: unat_gt_0)

declare write_chunks_rf.simps [simp del]

definition expected_version :: "u64 \<Rightarrow> ('s, 'f, 'n) RemoteFs \<Rightarrow> u64 option" where
  "expected_version fh st =
    (if rf_detect_conflicts st
     then Option.bind (hm_get (rf_open_files st) fh) (\<lambda>h. if hs_version h \<noteq> 0 then Some (hs_version h) else None)
     else None)"

definition note_written :: "('s, 'f, 'n) cenv \<Rightarrow> u64 \<Rightarrow> ('s, 'f, 'n) RemoteFs \<Rightarrow> ('s, 'f, 'n) RemoteFs" where
  "note_written env fh st =
    (case hm_get (rf_open_files st) fh of
       Some h \<Rightarrow> mark_path_written env (hs_path h) (on_handle fh (\<lambda>h. h\<lparr>hs_wrote := True\<rparr>) st)
     | None \<Rightarrow> st)"

definition rf_write :: "('s, 'f, 'n) cenv \<Rightarrow> u64 \<Rightarrow> u64 \<Rightarrow> bytes \<Rightarrow> ('s, 'f, 'n, u32) fs_op" where
  "rf_write env fh offset data =
    (if has_overlay_bit fh then ovX (ov_write (cl_os env) fh offset data)
     else
       bindX (check_poisoned fh) (\<lambda>_.
       bindX (getX (server_fh fh)) (\<lambda>sfh.
       bindX (getX (expected_version fh)) (\<lambda>expect.
       bindX (write_chunks_rf env fh sfh offset data expect 0) (\<lambda>_.
       bindX (modX (note_written env fh)) (\<lambda>_. retX (of_nat (length data))))))))"

section \<open>Changing the tree\<close>

definition rf_create :: "('s, 'f, 'n) cenv \<Rightarrow> u64 \<Rightarrow> string \<Rightarrow> u32 \<Rightarrow> OpenFlags \<Rightarrow> ('s, 'f, 'n, u64 \<times> u64 \<times> Attr) fs_op" where
  "rf_create env parent name mode flags =
    bindX (rf_path_of parent) (\<lambda>dir.
    let path = join dir name in
    routed env path
      (bindX (ovX (ov_create (cl_os env) path flags mode)) (\<lambda>(fh, attr). bindX (allocX path) (\<lambda>ino. retX (ino, fh, attr))))
      (bindX (call env (ReqCreate path flags mode)) (\<lambda>resp.
       bindX (expect_opened resp) (\<lambda>(fh, attr).
       bindX (allocX path) (\<lambda>ino.
       bindX (modX (cache_attr ino attr)) (\<lambda>_.
       bindX (modX (put_handle fh (new_handle path flags fh False True (a_version attr)))) (\<lambda>_.
         retX (ino, fh, attr))))))))"

definition rf_mkdir :: "('s, 'f, 'n) cenv \<Rightarrow> u64 \<Rightarrow> string \<Rightarrow> u32 \<Rightarrow> ('s, 'f, 'n, u64 \<times> Attr) fs_op" where
  "rf_mkdir env parent name mode =
    bindX (rf_path_of parent) (\<lambda>dir.
    let path = join dir name in
    routed env path
      (bindX (ovX (ov_mkdir (cl_os env) path)) (\<lambda>attr. bindX (allocX path) (\<lambda>ino. retX (ino, attr))))
      (bindX (call env (ReqMkdir path mode)) (\<lambda>resp.
       bindX (expect_attr resp) (\<lambda>attr.
       bindX (allocX path) (\<lambda>ino.
       bindX (modX (cache_attr ino attr)) (\<lambda>_. retX (ino, attr)))))))"

definition invalidate_path :: "RelPath \<Rightarrow> ('s, 'f, 'n) RemoteFs \<Rightarrow> ('s, 'f, 'n) RemoteFs" where
  "invalidate_path path st = (case ino_of (rf_ino st) path of Some ino \<Rightarrow> invalidate_attr ino st | None \<Rightarrow> st)"

definition rf_remove :: "('s, 'f, 'n) cenv \<Rightarrow> u64 \<Rightarrow> string \<Rightarrow> bool \<Rightarrow> ('s, 'f, 'n, unit) fs_op" where
  "rf_remove env parent name dir =
    bindX (rf_path_of parent) (\<lambda>parent_path.
    let path = join parent_path name in
    routed env path
      (if dir then ovX (ov_rmdir (cl_os env) path) else ovX (ov_unlink (cl_os env) path))
      (bindX (call env (if dir then ReqRmdir path else ReqUnlink path)) (\<lambda>resp.
       bindX (expect_ok resp) (\<lambda>_.
       bindX (modX (invalidate_path path)) (\<lambda>_.
         modX (on_cache (cache_remove (cl_os env) path)))))))"

definition rf_rename :: "('s, 'f, 'n) cenv \<Rightarrow> u64 \<Rightarrow> string \<Rightarrow> u64 \<Rightarrow> string \<Rightarrow> bool \<Rightarrow> ('s, 'f, 'n, unit) fs_op" where
  "rf_rename env parent name newparent newname replace =
    bindX (rf_path_of parent) (\<lambda>dir.
    bindX (rf_path_of newparent) (\<lambda>newdir.
    let from = join dir name; to = join newdir newname in
    bindX (getX (\<lambda>st. (is_overlay env from st, is_overlay env to st))) (\<lambda>(a, b).
      if a \<and> b then
        bindX (ovX (ov_rename (cl_os env) from to replace)) (\<lambda>_. modX (\<lambda>st. st\<lparr>rf_ino := itab_rename from to (rf_ino st)\<rparr>))
      else if \<not> a \<and> \<not> b then
        bindX (call env (ReqRename from to replace)) (\<lambda>resp.
        bindX (expect_ok resp) (\<lambda>_.
        bindX (modX (\<lambda>st. st\<lparr>rf_ino := itab_rename from to (rf_ino st)\<rparr>)) (\<lambda>_.
          modX (on_cache (cache_rename (cl_os env) from to)))))
      else failX CrossDevice)))"

definition rf_setattr :: "('s, 'f, 'n) cenv \<Rightarrow> u64 \<Rightarrow> u64 option \<Rightarrow> SystemTime option \<Rightarrow> u32 option \<Rightarrow> ('s, 'f, 'n, Attr) fs_op" where
  "rf_setattr env ino sz mtime mode =
    bindX (rf_path_of ino) (\<lambda>path.
    routed env path (ovX (ov_setattr (cl_os env) path sz mtime))
      (bindX (call env (ReqSetattr path sz mtime mode)) (\<lambda>resp.
       bindX (expect_attr resp) (\<lambda>attr.
       bindX (modX (cache_attr ino attr)) (\<lambda>_.
       bindX (modX (if sz \<noteq> None then mark_path_written env path else id)) (\<lambda>_. retX attr))))))"

definition rf_link :: "('s, 'f, 'n) cenv \<Rightarrow> u64 \<Rightarrow> u64 \<Rightarrow> string \<Rightarrow> ('s, 'f, 'n, u64 \<times> Attr) fs_op" where
  "rf_link env target_ino newparent newname =
    bindX (rf_path_of target_ino) (\<lambda>target.
    bindX (rf_path_of newparent) (\<lambda>dir.
    let lnk = join dir newname in
    bindX (getX (\<lambda>st. (is_overlay env target st, is_overlay env lnk st))) (\<lambda>(a, b).
      if a \<and> b then
        bindX (ovX (ov_link (cl_os env) target lnk)) (\<lambda>attr. bindX (allocX lnk) (\<lambda>ino. retX (ino, attr)))
      else if \<not> a \<and> \<not> b then
        bindX (call env (ReqLink target lnk)) (\<lambda>resp.
        bindX (expect_attr resp) (\<lambda>attr.
        bindX (allocX lnk) (\<lambda>ino.
        bindX (modX (cache_attr ino attr)) (\<lambda>_. retX (ino, attr)))))
      else failX CrossDevice)))"

definition require_proto :: "('s, 'f, 'n) cenv \<Rightarrow> u16 \<Rightarrow> ('s, 'f, 'n, unit) fs_op" where
  "require_proto env need = bindX (getX (\<lambda>st. cl_proto env (rf_net st))) (\<lambda>cur. if cur < need then failX VersionMismatch else retX ())"

definition localize_target :: "('s, 'f, 'n) cenv \<Rightarrow> string \<Rightarrow> RelPath \<Rightarrow> ('s, 'f, 'n, string) fs_op" where
  "localize_target env target link_dir =
    bindX (getX rf_mount_root) (\<lambda>root.
      case root of
        Some root \<Rightarrow> (case localize_symlink_target (cl_upper env) root target link_dir of Some t \<Rightarrow> retX t | None \<Rightarrow> panicX)
      | None \<Rightarrow> retX target)"

definition rf_symlink :: "('s, 'f, 'n) cenv \<Rightarrow> u64 \<Rightarrow> string \<Rightarrow> string \<Rightarrow> ('s, 'f, 'n, u64 \<times> Attr) fs_op" where
  "rf_symlink env parent name target =
    bindX (rf_path_of parent) (\<lambda>dir.
    let lnk = join dir name in
    bindX (localize_target env target dir) (\<lambda>target.
    routed env lnk
      (bindX (ovX (ov_symlink (cl_os env) target lnk)) (\<lambda>attr. bindX (allocX lnk) (\<lambda>ino. retX (ino, attr))))
      (bindX (require_proto env 4) (\<lambda>_.
       bindX (call env (ReqSymlink target lnk)) (\<lambda>resp.
       bindX (expect_attr resp) (\<lambda>attr.
       bindX (allocX lnk) (\<lambda>ino.
       bindX (modX (cache_attr ino attr)) (\<lambda>_. retX (ino, attr)))))))))"

definition rf_readlink :: "('s, 'f, 'n) cenv \<Rightarrow> u64 \<Rightarrow> ('s, 'f, 'n, string) fs_op" where
  "rf_readlink env ino =
    bindX (rf_path_of ino) (\<lambda>path.
    routed env path (ovX (ov_readlink (cl_os env) path))
      (bindX (require_proto env 4) (\<lambda>_.
       bindX (call env (ReqReadLink path)) (\<lambda>resp. case resp of RspTarget t \<Rightarrow> retX t | _ \<Rightarrow> failX IoError))))"

section \<open>Locks and handles\<close>

definition keepalive_call :: "('s, 'f, 'n) cenv \<Rightarrow> Request \<Rightarrow> ('s, 'f, 'n, Response) fs_op" where
  "keepalive_call env req st = (case cl_keepalive env req (rf_net st) of (r, n) \<Rightarrow> Some (flat r, st\<lparr>rf_net := n\<rparr>))"

definition rf_lock :: "('s, 'f, 'n) cenv \<Rightarrow> u64 \<Rightarrow> LockKind \<Rightarrow> bool \<Rightarrow> ('s, 'f, 'n, unit) fs_op" where
  "rf_lock env fh kind wait =
    (if has_overlay_bit fh then retX ()
     else
       bindX (check_poisoned fh) (\<lambda>_.
       bindX (getX (server_fh fh)) (\<lambda>sfh.
       bindX (if wait then keepalive_call env (ReqLock sfh kind wait) else call env (ReqLock sfh kind wait)) (\<lambda>resp.
       bindX (expect_ok resp) (\<lambda>_.
         modX (on_handle fh (\<lambda>h. h\<lparr>hs_lock := Some kind\<rparr>)))))))"

definition rf_unlock :: "('s, 'f, 'n) cenv \<Rightarrow> u64 \<Rightarrow> ('s, 'f, 'n, unit) fs_op" where
  "rf_unlock env fh =
    (if has_overlay_bit fh then retX ()
     else
       bindX (getX (server_fh fh)) (\<lambda>sfh.
       bindX (call env (ReqUnlock sfh)) (\<lambda>resp.
       bindX (expect_ok resp) (\<lambda>_. modX (on_handle fh (\<lambda>h. h\<lparr>hs_lock := None\<rparr>))))))"

definition rf_flush :: "('s, 'f, 'n) cenv \<Rightarrow> u64 \<Rightarrow> ('s, 'f, 'n, unit) fs_op" where
  "rf_flush env fh =
    (if has_overlay_bit fh then ovX (ov_flush fh)
     else
       bindX (check_poisoned fh) (\<lambda>_.
       bindX (getX (server_fh fh)) (\<lambda>sfh.
       bindX (call env (ReqFlush sfh)) expect_ok)))"

definition drop_open :: "u64 \<Rightarrow> ('s, 'f, 'n) RemoteFs \<Rightarrow> ('s, 'f, 'n) RemoteFs" where
  "drop_open fh st =
    (case hm_get (rf_open_files st) fh of
       None \<Rightarrow> st
     | Some h \<Rightarrow>
         let st = st\<lparr>rf_open_files := hm_del fh (rf_open_files st)\<rparr>
         in if hs_wrote h then st\<lparr>rf_cache := map_option (enqueue_refetch (hs_path h)) (rf_cache st)\<rparr> else st)"

definition rf_release :: "('s, 'f, 'n) cenv \<Rightarrow> u64 \<Rightarrow> ('s, 'f, 'n, unit) fs_op" where
  "rf_release env fh =
    (if has_overlay_bit fh
     then bindX (getX rf_overlay) (\<lambda>ov. case ov of None \<Rightarrow> panicX | Some ov \<Rightarrow> modX (\<lambda>st. st\<lparr>rf_overlay := Some (ov_release fh ov)\<rparr>))
     else
       bindX (getX (server_fh fh)) (\<lambda>sfh.
       bindX (modX (drop_open fh)) (\<lambda>_.
       bindX (tryX (call env (ReqRelease sfh))) (\<lambda>_. retX ()))))"

definition rf_shutdown :: "('s, 'f, 'n) cenv \<Rightarrow> ('s, 'f, 'n) RemoteFs \<Rightarrow> ('s, 'f, 'n) RemoteFs" where
  "rf_shutdown env st = on_cache (flush_manifest (cl_os env) (cl_to_json env)) st"

section \<open>Reconnecting\<close>

fun replay_lock :: "('s, 'f, 'n) cenv \<Rightarrow> nat \<Rightarrow> u64 \<Rightarrow> LockKind \<Rightarrow> 'n \<Rightarrow> bool \<times> 'n" where
  "replay_lock env 0 fh kind n = (False, n)"
| "replay_lock env (Suc k) fh kind n =
    (case cl_request env (ReqLock fh kind False) n of
       (Inr (Inr RspOk), n') \<Rightarrow> (True, n')
     | (Inr (Inl WouldBlock), n') \<Rightarrow> replay_lock env k fh kind n'
     | (_, n') \<Rightarrow> (False, n'))"

definition REPLAY_ATTEMPTS :: nat where "REPLAY_ATTEMPTS = 4"

definition reopen :: "('s, 'f, 'n) cenv \<Rightarrow> OpenState \<Rightarrow> 'n \<Rightarrow> OpenState \<times> 'n" where
  "reopen env h n =
    (let h = h\<lparr>hs_ra := ra_clear (hs_ra h)\<rparr> in
     case cl_request env (ReqOpen (hs_path h) (hs_flags h)) n of
       (Inr (Inr (RspOpened fh attr)), n) \<Rightarrow>
         let h = h\<lparr>hs_server_fh := fh\<rparr> in
         (case hs_lock h of
            None \<Rightarrow> (h, n)
          | Some kind \<Rightarrow>
              (case replay_lock env REPLAY_ATTEMPTS fh kind n of
                 (ok, n) \<Rightarrow> (if ok then h else h\<lparr>hs_poisoned := True\<rparr>, n)))
     | (_, n) \<Rightarrow> (if hs_lock h \<noteq> None then h\<lparr>hs_poisoned := True\<rparr> else h, n))"

fun reopen_all :: "('s, 'f, 'n) cenv \<Rightarrow> (u64 \<times> OpenState) list \<Rightarrow> 'n \<Rightarrow> (u64 \<times> OpenState) list \<times> 'n" where
  "reopen_all env [] n = ([], n)"
| "reopen_all env ((fh, h) # hs) n =
    (case reopen env h n of (h', n1) \<Rightarrow> (case reopen_all env hs n1 of (hs', n2) \<Rightarrow> ((fh, h') # hs', n2)))"

text \<open>One turn of the supervisor after the dialler returned the connection \<open>n\<close>: attach, reopen, then swap.  A failed
  attach leaves everything as it was and the loop dials again.\<close>

definition reconnect_turn :: "('s, 'f, 'n) cenv \<Rightarrow> 'n \<Rightarrow> ('s, 'f, 'n) RemoteFs \<Rightarrow> ('s, 'f, 'n) RemoteFs" where
  "reconnect_turn env n st =
    (case cl_request env (ReqAttach (rf_export st)) n of
       (Inr (Inr (RspAttachOk v a)), n) \<Rightarrow>
         (case reopen_all env (rf_open_files st) n of
            (hs, n) \<Rightarrow>
              let st = invalidate_all (st\<lparr>rf_open_files := hs, rf_net := n\<rparr>)
              in st\<lparr>rf_cache := map_option mark_all_unverified (rf_cache st), rf_epoch := rf_epoch st + 1\<rparr>)
     | _ \<Rightarrow> st)"

text \<open>The dialling loop: failures (\<^const>\<open>None\<close>) double the delay up to 15 s; the delays slept are returned with the
  connection.\<close>

fun dial_loop :: "nat \<Rightarrow> 'n option list \<Rightarrow> (nat list \<times> 'n) option" where
  "dial_loop delay [] = None"
| "dial_loop delay (Some n # rest) = Some ([], n)"
| "dial_loop delay (None # rest) = map_option (\<lambda>(ds, n). (delay # ds, n)) (dial_loop (min (delay * 2) 15000) rest)"

section \<open>Options and attaching\<close>

record ClientOptions =
  co_excludes :: "string list"
  co_data_dir :: abs_path
  co_cache_dir :: abs_path
  co_mount_key :: string
  co_auto_cache_max :: "u64 option"
  co_auto_cache_budget :: "u64 option"
  co_auto_cache_max_fallback :: u64
  co_auto_cache_budget_fallback :: u64
  co_pins :: "string list"
  co_dialer :: bool
  co_no_server_defaults :: bool
  co_detect_conflicts :: bool
  co_mount_root :: "string option"

definition options_default :: ClientOptions where
  "options_default =
    \<lparr> co_excludes = [], co_data_dir = [], co_cache_dir = [], co_mount_key = [], co_auto_cache_max = None, co_auto_cache_budget = None,
      co_auto_cache_max_fallback = 0, co_auto_cache_budget_fallback = 512 * 1024 * 1024, co_pins = [], co_dialer = False,
      co_no_server_defaults = False, co_detect_conflicts = False, co_mount_root = None \<rparr>"

definition union_into :: "string list \<Rightarrow> string list \<Rightarrow> string list" where
  "union_into own suggested = foldl (\<lambda>acc e. if e \<in> set acc then acc else acc @ [e]) own suggested"

definition merge_defaults :: "ClientOptions \<Rightarrow> string list \<Rightarrow> string list \<Rightarrow> u64 option \<Rightarrow> u64 option \<Rightarrow> ClientOptions" where
  "merge_defaults opts exclude pin cache_max cache_budget =
    opts\<lparr>co_excludes := union_into (co_excludes opts) exclude,
         co_pins := union_into (co_pins opts) pin,
         co_auto_cache_max := (if co_auto_cache_max opts = None then cache_max else co_auto_cache_max opts),
         co_auto_cache_budget := (if co_auto_cache_budget opts = None then cache_budget else co_auto_cache_budget opts)\<rparr>"

definition negotiate :: "('s, 'f, 'n) cenv \<Rightarrow> ClientOptions \<Rightarrow> 'n \<Rightarrow> ClientOptions \<times> 'n" where
  "negotiate env opts n =
    (if \<not> co_no_server_defaults opts \<and> cl_proto env n \<ge> 2
     then case cl_request env ReqMountDefaults n of
            (Inr (Inr (RspMountDefaults exclude pin mx budget)), n) \<Rightarrow> (merge_defaults opts exclude pin mx budget, n)
          | (_, n) \<Rightarrow> (opts, n)
     else (opts, n))"

definition make_overlay :: "('s, 'f, 'n) cenv \<Rightarrow> ClientOptions \<Rightarrow> 's \<Rightarrow> (FsError + 'f Overlay option) \<times> 's" where
  "make_overlay env opts s =
    (if co_excludes opts = [] then (Inr None, s)
     else case ov_new (cl_os env) (cl_globs env) (co_data_dir opts @ [''overlay'', co_mount_key opts]) (co_excludes opts) s of
            (Inl _, s) \<Rightarrow> (Inl (FeRemote IoError), s)
          | (Inr ov, s) \<Rightarrow> (Inr (Some ov), s))"

definition make_cache :: "('s, 'f, 'n) cenv \<Rightarrow> ClientOptions \<Rightarrow> 's \<Rightarrow> (FsError + AutoCache option) \<times> 's" where
  "make_cache env opts s =
    (let cache_max = (case co_auto_cache_max opts of Some v \<Rightarrow> v | None \<Rightarrow> co_auto_cache_max_fallback opts);
         budget = (case co_auto_cache_budget opts of Some v \<Rightarrow> v | None \<Rightarrow> co_auto_cache_budget_fallback opts)
     in if cache_max > 0 \<or> co_pins opts \<noteq> []
        then case load_cache (cl_os env) (cl_globs env) (cl_from_json env)
                    \<lparr> acc_max_file_size = cache_max, acc_budget = max budget 1, acc_pins = co_pins opts,
                      acc_root = co_cache_dir opts @ [co_mount_key opts],
                      acc_manifest = co_cache_dir opts @ [co_mount_key opts @ ''.manifest.json''] \<rparr> s of
               (Inl _, s) \<Rightarrow> (Inl (FeRemote IoError), s)
             | (Inr c, s) \<Rightarrow> (Inr (Some c), s)
        else (Inr None, s))"

definition attach_with :: "('s, 'f, 'n) cenv \<Rightarrow> string \<Rightarrow> ClientOptions \<Rightarrow> nat \<Rightarrow> 'n \<Rightarrow> 's \<Rightarrow> FsError + ('s, 'f, 'n) RemoteFs" where
  "attach_with env export opts now n s =
    (case cl_request env (ReqAttach export) n of (r, n) \<Rightarrow>
       and_then (flat r) (\<lambda>resp.
         case resp of
           RspAttachOk v root_attr \<Rightarrow>
             (case negotiate env opts n of (opts, n) \<Rightarrow>
                (case make_overlay env opts s of (ov, s) \<Rightarrow>
                   and_then ov (\<lambda>ov.
                     case make_cache env opts s of (c, s) \<Rightarrow>
                       and_then c (\<lambda>c.
                         Inr \<lparr> rf_net = n, rf_disk = s, rf_now = now, rf_ino = itab_new, rf_root_attr = root_attr, rf_attr_cache = [],
                               rf_overlay = ov, rf_cache = c, rf_open_files = [], rf_export = export,
                               rf_has_dialer = co_dialer opts, rf_epoch = 0, rf_last_event_seq = 0,
                               rf_detect_conflicts = co_detect_conflicts opts, rf_mount_root = co_mount_root opts \<rparr>))))
         | _ \<Rightarrow> Inl (FeRemote IoError)))"

section \<open>Events\<close>

definition filter_event :: "('s, 'f, 'n) cenv \<Rightarrow> ('s, 'f, 'n) RemoteFs \<Rightarrow> FsEvent \<Rightarrow> FsEvent option" where
  "filter_event env st ev =
    (let px = is_overlay env (ev_path ev) st in
     case ev_kind ev of
       RenamedFrom to \<Rightarrow>
         (case (px, is_overlay env to st) of
            (True, True) \<Rightarrow> None
          | (True, False) \<Rightarrow> Some (ev\<lparr>ev_path := to, ev_kind := Created\<rparr>)
          | (False, True) \<Rightarrow> Some (ev\<lparr>ev_kind := Removed\<rparr>)
          | (False, False) \<Rightarrow> Some ev)
     | _ \<Rightarrow> if px then None else Some ev)"

definition filter_for_overlay :: "('s, 'f, 'n) cenv \<Rightarrow> ('s, 'f, 'n) RemoteFs \<Rightarrow> FsEvent list \<Rightarrow> FsEvent list" where
  "filter_for_overlay env st batch = (if rf_overlay st = None then batch else List.map_filter (filter_event env st) batch)"

definition apply_event_to_cache :: "('s, 'f, 'n) cenv \<Rightarrow> FsEvent \<Rightarrow> AutoCache \<times> 's \<Rightarrow> AutoCache \<times> 's" where
  "apply_event_to_cache env ev = (\<lambda>(c, s).
    case ev_kind ev of
      Removed \<Rightarrow> cache_remove (cl_os env) (ev_path ev) (c, s)
    | RenamedFrom to \<Rightarrow> cache_rename (cl_os env) (ev_path ev) to (c, s)
    | ResyncRequired \<Rightarrow> (mark_all_unverified c, s)
    | kind \<Rightarrow>
        let was_known = known c (ev_path ev); (c, s) = invalidate (cl_os env) (ev_path ev) (c, s)
        in if was_known \<or> pin_match (cl_globs env) c (ev_path ev) \<or> kind = Modified
           then (enqueue_refetch (ev_path ev) c, s) else (c, s))"

definition apply_events_to_cache :: "('s, 'f, 'n) cenv \<Rightarrow> FsEvent list \<Rightarrow> ('s, 'f, 'n) RemoteFs \<Rightarrow> ('s, 'f, 'n) RemoteFs" where
  "apply_events_to_cache env batch st = on_cache (fold (apply_event_to_cache env) batch) st"

definition apply_event :: "FsEvent \<Rightarrow> ('s, 'f, 'n) RemoteFs \<Rightarrow> ('s, 'f, 'n) RemoteFs" where
  "apply_event ev st =
    (case ev_kind ev of
       ResyncRequired \<Rightarrow> invalidate_all st
     | RenamedFrom to \<Rightarrow>
         let st = invalidate_path (ev_path ev) st;
             st = st\<lparr>rf_ino := itab_rename (ev_path ev) to (rf_ino st)\<rparr>
         in invalidate_path to st
     | _ \<Rightarrow> invalidate_path (ev_path ev) st)"

definition apply_events :: "FsEvent list \<Rightarrow> ('s, 'f, 'n) RemoteFs \<Rightarrow> ('s, 'f, 'n) RemoteFs" where
  "apply_events batch st = fold apply_event batch st"

text \<open>One batch from the connection; the batch handed to the backend is returned with the new state.\<close>

definition pump_batch :: "('s, 'f, 'n) cenv \<Rightarrow> FsEvent list \<Rightarrow> ('s, 'f, 'n) RemoteFs \<Rightarrow> FsEvent list option \<times> ('s, 'f, 'n) RemoteFs" where
  "pump_batch env batch st =
    (let st = st\<lparr>rf_last_event_seq := foldl max (rf_last_event_seq st) (map ev_seq batch)\<rparr>;
         batch = filter_for_overlay env st batch
     in if batch = [] then (None, st)
        else (Some batch, apply_events_to_cache env batch (apply_events batch st)))"

definition pump_lagged :: "('s, 'f, 'n) RemoteFs \<Rightarrow> ('s, 'f, 'n) RemoteFs" where
  "pump_lagged st = invalidate_all st"

definition resubscribe_rf :: "('s, 'f, 'n) cenv \<Rightarrow> ('s, 'f, 'n) RemoteFs \<Rightarrow> ('s, 'f, 'n) RemoteFs" where
  "resubscribe_rf env st =
    (let seen = rf_last_event_seq st; since = (if seen = 0 then None else Some seen) in
     case request env (ReqSubscribe since) st of
       (Inr (Inl TooOld), st) \<Rightarrow>
         let st = invalidate_all st; st = st\<lparr>rf_cache := map_option mark_all_unverified (rf_cache st)\<rparr>
         in snd (request env (ReqSubscribe None) st)
     | (_, st) \<Rightarrow> st)"

definition start_event_pump_since :: "('s, 'f, 'n) cenv \<Rightarrow> u64 option \<Rightarrow> ('s, 'f, 'n) RemoteFs \<Rightarrow> (FsError + u64) \<times> ('s, 'f, 'n) RemoteFs" where
  "start_event_pump_since env since st =
    (case request env (ReqSubscribe since) st of (first, st) \<Rightarrow>
       (case (if first = Inr (Inl TooOld) \<and> since \<noteq> None then request env (ReqSubscribe None) st else (first, st)) of (r, st) \<Rightarrow>
          (case flat r of
             Inl e \<Rightarrow> (Inl e, st)
           | Inr (RspSubscribed q) \<Rightarrow>
               (Inr q, case since of Some s \<Rightarrow> st\<lparr>rf_last_event_seq := max (rf_last_event_seq st) s\<rparr> | None \<Rightarrow> st)
           | Inr _ \<Rightarrow> (Inl (FeRemote IoError), st))))"

section \<open>The cache walker\<close>

definition CHUNK_CONCURRENCY :: nat where "CHUNK_CONCURRENCY = 8"

fun plan_batch :: "nat \<Rightarrow> u64 \<Rightarrow> u64 \<Rightarrow> (u64 \<times> u32) list \<times> u64" where
  "plan_batch 0 pos sz = ([], pos)"
| "plan_batch (Suc k) pos sz =
    (if pos \<ge> sz then ([], pos)
     else let want = min (ucast (sz - pos)) DATA_CHUNK in
       case plan_batch k (pos + ucast want) sz of (rest, pos') \<Rightarrow> ((pos, want) # rest, pos'))"

fun join_chunks :: "(TransportError + Reply) list \<Rightarrow> bytes \<Rightarrow> bytes option" where
  "join_chunks [] data = Some data"
| "join_chunks (Inr (Inr (RspData chunk)) # rest) data = join_chunks rest (data @ chunk)"
| "join_chunks (_ # rest) data = None"

partial_function (option) fetch_loop :: "('s, 'f, 'n) cenv \<Rightarrow> u64 \<Rightarrow> u64 \<Rightarrow> u64 \<Rightarrow> bytes \<Rightarrow> 'n \<Rightarrow> (bytes option \<times> 'n) option" where
  "fetch_loop env fh sz pos data n =
    (if pos < sz then
       (case request_all env (map (\<lambda>(off, len). ReqRead fh off len) (fst (plan_batch CHUNK_CONCURRENCY pos sz))) n of
          (rs, n') \<Rightarrow>
            (case join_chunks rs data of
               None \<Rightarrow> Some (None, n')
             | Some data' \<Rightarrow> fetch_loop env fh sz (snd (plan_batch CHUNK_CONCURRENCY pos sz)) data' n'))
     else Some (Some data, n))"

declare fetch_loop.simps [code]

definition store_blob :: "('s, 'f, 'n) cenv \<Rightarrow> RelPath \<Rightarrow> Attr \<Rightarrow> bytes \<Rightarrow> AutoCache \<times> 's \<Rightarrow> bool \<times> AutoCache \<times> 's" where
  "store_blob env path attr data = (\<lambda>(c, s).
    case stage_write (cl_os env) (blob_stage_path c path) data s of
      (Inl e, s) \<Rightarrow> (False, c, s)
    | (Inr _, s) \<Rightarrow>
        (case os_rename (cl_os env) s (blob_stage_path c path) (blob_final_path c path) of
           (Inl e, s) \<Rightarrow> (False, c, drop_blob (cl_os env) (blob_stage_path c path) s)
         | (Inr _, s) \<Rightarrow> (True, commit (cl_os env) path attr (pin_match (cl_globs env) c path) (c, s))))"

definition fetch_body_rf :: "('s, 'f, 'n) cenv \<Rightarrow> AutoCache \<Rightarrow> RelPath \<Rightarrow> u64 \<Rightarrow> Attr \<Rightarrow> ('s, 'f, 'n) RemoteFs
    \<Rightarrow> (bool \<times> ('s, 'f, 'n) RemoteFs) option" where
  "fetch_body_rf env c path fh attr st =
    (if a_kind attr \<noteq> File \<or> \<not> wants (cl_globs env) c path (a_size attr) \<or> \<not> needs_fetch c path attr then Some (False, st)
     else map_option (\<lambda>(data, n).
            let st = st\<lparr>rf_net := n\<rparr> in
            case data of
              None \<Rightarrow> (False, st)
            | Some data \<Rightarrow>
                if (of_nat (length data) :: u64) \<noteq> a_size attr then (False, st)
                else (case store_blob env path attr data (c, rf_disk st) of
                        (ok, c', s') \<Rightarrow> (ok, st\<lparr>rf_cache := Some c', rf_disk := s'\<rparr>)))
          (fetch_loop env fh (a_size attr) 0 [] (rf_net st)))"

definition read_only_flags :: OpenFlags where
  "read_only_flags = \<lparr> of_read = True, of_write = False, of_truncate = False, of_append = False, of_excl = False \<rparr>"

definition fetch_one :: "('s, 'f, 'n) cenv \<Rightarrow> RelPath \<Rightarrow> ('s, 'f, 'n) RemoteFs \<Rightarrow> (bool \<times> ('s, 'f, 'n) RemoteFs) option" where
  "fetch_one env path st =
    (case (rf_cache st, request env (ReqOpen path read_only_flags) st) of
       (Some c, (Inr (Inr (RspOpened fh attr)), st)) \<Rightarrow>
         map_option (\<lambda>(ok, st). (ok, snd (request env (ReqRelease fh) st))) (fetch_body_rf env c path fh attr st)
     | (_, (_, st)) \<Rightarrow> Some (False, st))"

text \<open>The walk lists one directory after the other; a directory that cannot be listed is skipped.  Files are fetched as
  they are found.\<close>

fun walk_page :: "('s, 'f, 'n) cenv \<Rightarrow> RelPath \<Rightarrow> DirEntry list \<Rightarrow> RelPath list \<Rightarrow> ('s, 'f, 'n) RemoteFs
    \<Rightarrow> (RelPath list \<times> ('s, 'f, 'n) RemoteFs) option" where
  "walk_page env dir [] queue st = Some (queue, st)"
| "walk_page env dir (e # es) queue st =
    (let child = join dir (de_name e) in
     if is_overlay env child st then walk_page env dir es queue st
     else case a_kind (de_attr e) of
            Dir \<Rightarrow> walk_page env dir es (queue @ [child]) st
          | Symlink \<Rightarrow> walk_page env dir es queue st
          | File \<Rightarrow>
              (case rf_cache st of
                 Some c \<Rightarrow>
                   if wants (cl_globs env) c child (a_size (de_attr e)) \<and> needs_fetch c child (de_attr e)
                   then Option.bind (fetch_one env child st) (\<lambda>(ok, st). walk_page env dir es queue st)
                   else walk_page env dir es queue st
               | None \<Rightarrow> walk_page env dir es queue st))"

partial_function (option) walk_loop :: "('s, 'f, 'n) cenv \<Rightarrow> (RelPath \<times> u64) option \<Rightarrow> RelPath list \<Rightarrow> ('s, 'f, 'n) RemoteFs
    \<Rightarrow> ('s, 'f, 'n) RemoteFs option" where
  "walk_loop env cur queue st =
    (case cur of
       None \<Rightarrow> (case queue of [] \<Rightarrow> Some st | dir # rest \<Rightarrow> walk_loop env (Some (dir, 0)) rest st)
     | Some dc \<Rightarrow>
         (case fst (request env (ReqReaddir (fst dc) (snd dc)) st) of
            Inr (Inr (RspDir entries nxt)) \<Rightarrow>
              Option.bind (walk_page env (fst dc) entries queue (snd (request env (ReqReaddir (fst dc) (snd dc)) st)))
                (\<lambda>r. walk_loop env (map_option (Pair (fst dc)) nxt) (fst r) (snd r))
          | _ \<Rightarrow> walk_loop env None queue (snd (request env (ReqReaddir (fst dc) (snd dc)) st))))"

definition walk :: "('s, 'f, 'n) cenv \<Rightarrow> ('s, 'f, 'n) RemoteFs \<Rightarrow> ('s, 'f, 'n) RemoteFs option" where
  "walk env st = map_option (on_cache (flush_manifest (cl_os env) (cl_to_json env))) (walk_loop env None [Nil] st)"

definition refetch_turn :: "('s, 'f, 'n) cenv \<Rightarrow> ('s, 'f, 'n) RemoteFs \<Rightarrow> ('s, 'f, 'n) RemoteFs option" where
  "refetch_turn env st =
    (case rf_cache st of
       None \<Rightarrow> Some st
     | Some c \<Rightarrow>
         (case ac_queue c of
            [] \<Rightarrow> Some st
          | path # rest \<Rightarrow>
              let st = st\<lparr>rf_cache := Some (c\<lparr>ac_queue := rest\<rparr>)\<rparr>
              in if is_overlay env path st then Some st else map_option snd (fetch_one env path st)))"

end
