(* ===== verification/Client_Read.thy ===== *)
theory Client_Read
  imports Client_Fs
begin

text \<open>
  What a reader of the mount sees: a read assembled from retained, prefetched and fetched blocks is the window of the
  file that was asked for, a write is visible to every later read of the client, and the cache walker's fetch ends
  exactly for files below 4 GiB.

  The server enters through \<open>answers\<close>: as long as the content of a handle does not change, a read of it returns the slice
  that was asked for, as \<open>AgentSession::read\<close> does.
\<close>

definition answers :: "('s, 'f, 'n) cenv \<Rightarrow> ('n \<Rightarrow> bool) \<Rightarrow> u64 \<Rightarrow> bytes \<Rightarrow> bool" where
  "answers env I fh data \<longleftrightarrow> (\<forall>n off len. I n \<longrightarrow>
     (\<exists>n'. cl_request env (ReqRead fh off len) n = (Inr (Inr (RspData (take (unat len) (drop (unat off) data)))), n') \<and> I n'))"

lemma answersE:
  assumes "answers env I fh data" "I n"
  obtains n' where "cl_request env (ReqRead fh off len) n = (Inr (Inr (RspData (take (unat len) (drop (unat off) data)))), n')" "I n'"
  using assms unfolding answers_def by blast

section \<open>The walker's fetch loop\<close>

lemma request_all_reads:
  assumes "answers env I fh data" "I n"
  shows "\<exists>n'. request_all env (map (\<lambda>(off, len). ReqRead fh off len) cs) n
      = (map (\<lambda>(off, len). Inr (Inr (RspData (take (unat len) (drop (unat off) data))))) cs, n') \<and> I n'"
  using assms(2)
proof (induction cs arbitrary: n)
  case (Cons c cs)
  obtain off len where c: "c = (off, len)" by (cases c)
  obtain n1 where r: "cl_request env (ReqRead fh off len) n = (Inr (Inr (RspData (take (unat len) (drop (unat off) data)))), n1)" "I n1"
    by (rule answersE [OF assms(1) Cons.prems])
  obtain n2 where "request_all env (map (\<lambda>(off, len). ReqRead fh off len) cs) n1
      = (map (\<lambda>(off, len). Inr (Inr (RspData (take (unat len) (drop (unat off) data))))) cs, n2)" "I n2"
    using Cons.IH [OF r(2)] by blast
  then show ?case using r(1) c by simp
qed simp

lemma join_chunks_data:
  "join_chunks (map (\<lambda>(off, len). Inr (Inr (RspData (f off len)))) cs) out = Some (out @ concat (map (\<lambda>(off, len). f off len) cs))"
  by (induction cs arbitrary: out) auto

lemma unat_min: "unat (min a b) = min (unat a) (unat b)"
  by (simp add: min_def word_le_nat_alt)

lemma unat_chunk [simp]: "unat DATA_CHUNK = 131072" "unat (ucast DATA_CHUNK :: u64) = 131072"
  by (simp_all add: DATA_CHUNK_def)

text \<open>The size of the next chunk: the rest of the file modulo \<open>2^32\<close>, at most a chunk.\<close>

lemma unat_want:
  assumes "pos \<le> (sz :: u64)"
  shows "unat (min (ucast (sz - pos)) DATA_CHUNK :: u32) = min ((unat sz - unat pos) mod 2 ^ 32) 131072"
proof -
  have "unat (ucast (sz - pos) :: u32) = (unat sz - unat pos) mod 2 ^ 32"
    using assms by (simp add: unsigned_ucast_eq take_bit_eq_mod unat_sub)
  then show ?thesis by (simp add: unat_min)
qed

lemma unat_next:
  assumes "pos < (sz :: u64)"
  shows "unat (pos + ucast (min (ucast (sz - pos)) DATA_CHUNK :: u32)) = unat pos + min ((unat sz - unat pos) mod 2 ^ 32) 131072"
proof -
  let ?w = "min (ucast (sz - pos)) DATA_CHUNK :: u32"
  have w: "unat ?w = min ((unat sz - unat pos) mod 2 ^ 32) 131072" using assms by (intro unat_want) simp
  have le: "(unat sz - unat pos) mod 2 ^ 32 \<le> unat sz - unat pos" by simp
  have "unat sz < 2 ^ 64" using unsigned_less [where 'a = nat, of sz] by simp
  then have "unat pos + unat ?w < 2 ^ 64" using w le assms by (simp add: word_less_nat_alt)
  moreover have "unat (ucast ?w :: u64) = unat ?w"
    using unsigned_less [where 'a = nat, of ?w] by (simp add: unsigned_ucast_eq take_bit_eq_mod)
  ultimately show ?thesis using w by (simp add: unat_word_ariths)
qed

lemma plan_batch_step:
  assumes "pos < sz"
  shows "fst (plan_batch (Suc k) pos sz) = (pos, min (ucast (sz - pos)) DATA_CHUNK) # fst (plan_batch k (pos + ucast (min (ucast (sz - pos)) DATA_CHUNK :: u32)) sz)"
    "snd (plan_batch (Suc k) pos sz) = snd (plan_batch k (pos + ucast (min (ucast (sz - pos)) DATA_CHUNK :: u32)) sz)"
  using assms by (simp_all add: Let_def linorder_not_le [symmetric] split: prod.splits)

declare plan_batch.simps(2) [simp del]

lemma plan_batch_small:
  assumes "pos \<le> sz" "unat sz < 2 ^ 32" "length data = unat sz"
  shows "unat (snd (plan_batch k pos sz)) \<le> unat sz \<and> unat pos \<le> unat (snd (plan_batch k pos sz))
    \<and> (k > 0 \<longrightarrow> pos < sz \<longrightarrow> unat pos < unat (snd (plan_batch k pos sz)))
    \<and> concat (map (\<lambda>(off, len). take (unat len) (drop (unat off) data)) (fst (plan_batch k pos sz)))
      = take (unat (snd (plan_batch k pos sz)) - unat pos) (drop (unat pos) data)"
  using assms(1)
proof (induction k arbitrary: pos)
  case (Suc k)
  show ?case
  proof (cases "pos < sz")
    case True
    let ?w = "min (ucast (sz - pos)) DATA_CHUNK :: u32" let ?p = "pos + ucast ?w"
    have w: "unat ?w = min (unat sz - unat pos) 131072" using unat_want [OF Suc.prems] assms(2) by simp
    have p: "unat ?p = unat pos + unat ?w" using unat_next [OF True] w assms(2) by simp
    have lt: "unat pos < unat sz" using True by (simp add: word_less_nat_alt)
    have le: "?p \<le> sz" using p w lt by (simp add: word_le_nat_alt)
    define q where "q = unat (snd (plan_batch k ?p sz))"
    have IH: "q \<le> unat sz" "unat ?p \<le> q"
      "concat (map (\<lambda>(off, len). take (unat len) (drop (unat off) data)) (fst (plan_batch k ?p sz))) = take (q - unat ?p) (drop (unat ?p) data)"
      using Suc.IH [OF le] by (simp_all add: q_def)
    have "take (unat ?w) (drop (unat pos) data) @ take (q - unat ?p) (drop (unat ?p) data) = take (q - unat pos) (drop (unat pos) data)"
      using IH(2) p take_add [of "unat ?w" "q - unat ?p" "drop (unat pos) data"] by (simp add: add.commute)
    moreover have "unat pos < q" using IH(2) p w lt by (cases "unat sz - unat pos \<le> 131072") simp_all
    ultimately show ?thesis using IH p w lt unfolding plan_batch_step [OF True] q_def [symmetric] by simp
  qed (use Suc.prems in \<open>simp add: word_le_nat_alt plan_batch.simps(2)\<close>)
qed (simp add: word_le_nat_alt)

lemma plan_batch_large:
  "unat pos + 2 ^ 32 \<le> unat sz \<Longrightarrow> unat (snd (plan_batch k pos sz)) + 2 ^ 32 \<le> unat sz"
proof (induction k arbitrary: pos)
  case (Suc k)
  have lt: "pos < sz" using Suc.prems by (simp add: word_less_nat_alt)
  let ?d = "unat sz - unat pos"
  have "2 ^ 32 \<le> ?d" using Suc.prems by simp
  then have "?d mod 2 ^ 32 + 2 ^ 32 \<le> ?d" by (metis add.commute le_mod_geq mod_less_eq_dividend Nat.le_diff_conv2)
  then have "unat (pos + ucast (min (ucast (sz - pos)) DATA_CHUNK :: u32)) + 2 ^ 32 \<le> unat sz"
    using unat_next [OF lt] Suc.prems min.cobounded1 [of "?d mod 2 ^ 32" 131072] by linarith
  from Suc.IH [OF this] show ?case unfolding plan_batch_step(2) [OF lt] .
qed simp

lemma fetch_loop_small:
  assumes "answers env I fh data" "length data = unat sz" "unat sz < 2 ^ 32" "I n" "pos \<le> sz"
  shows "\<exists>n'. fetch_loop env fh sz pos (take (unat pos) data) n = Some (Some data, n') \<and> I n'"
  using assms(4,5)
proof (induction "unat sz - unat pos" arbitrary: pos n rule: less_induct)
  case less
  show ?case
  proof (cases "pos < sz")
    case False
    then have "pos = sz" using less.prems by simp
    then show ?thesis using less.prems assms(2) by (simp add: fetch_loop.simps)
  next
    case True
    let ?b = "plan_batch CHUNK_CONCURRENCY pos sz"
    have b: "unat (snd ?b) \<le> unat sz" "unat pos < unat (snd ?b)"
      "concat (map (\<lambda>(off, len). take (unat len) (drop (unat off) data)) (fst ?b)) = take (unat (snd ?b) - unat pos) (drop (unat pos) data)"
      using plan_batch_small [OF less.prems(2) assms(3,2), of CHUNK_CONCURRENCY] True by (simp_all add: CHUNK_CONCURRENCY_def)
    obtain n1 where r: "request_all env (map (\<lambda>(off, len). ReqRead fh off len) (fst ?b)) n
        = (map (\<lambda>(off, len). Inr (Inr (RspData (take (unat len) (drop (unat off) data))))) (fst ?b), n1)" "I n1"
      using request_all_reads [OF assms(1) less.prems(1)] by blast
    have "take (unat pos) data @ take (unat (snd ?b) - unat pos) (drop (unat pos) data) = take (unat (snd ?b)) data"
      using b(2) by (metis le_add_diff_inverse less_imp_le take_add)
    then have "fetch_loop env fh sz pos (take (unat pos) data) n = fetch_loop env fh sz (snd ?b) (take (unat (snd ?b)) data) n1"
      using True r(1) b(3) by (subst fetch_loop.simps) (simp add: join_chunks_data)
    moreover have "\<exists>n'. fetch_loop env fh sz (snd ?b) (take (unat (snd ?b)) data) n1 = Some (Some data, n') \<and> I n'"
      using b r(2) by (intro less.hyps) (simp_all add: word_le_nat_alt)
    ultimately show ?thesis by simp
  qed
qed

lemma fetch_loop_large:
  assumes "fetch_loop env fh sz pos out n = Some y" "answers env I fh data" "I n" "unat pos + 2 ^ 32 \<le> unat sz"
  shows False
  using assms
proof (induction rule: fetch_loop.raw_induct [rotated, consumes 1, case_names step])
  case (step go env fh sz pos out n y)
  let ?b = "plan_batch CHUNK_CONCURRENCY pos sz"
  have lt: "pos < sz" using step(5) by (simp add: word_less_nat_alt)
  obtain n1 where r: "request_all env (map (\<lambda>(off, len). ReqRead fh off len) (fst ?b)) n
      = (map (\<lambda>(off, len). Inr (Inr (RspData (take (unat len) (drop (unat off) data))))) (fst ?b), n1)" and n1: "I n1"
    using request_all_reads [OF step(3,4)] by blast
  from step(2) have "go env fh sz (snd ?b) (out @ concat (map (\<lambda>(off, len). take (unat len) (drop (unat off) data)) (fst ?b))) n1 = Some y"
    by (simp add: lt r join_chunks_data)
  then show ?case by (rule step(1) [OF _ step(3) n1 plan_batch_large [OF step(5)]])
qed

text \<open>C37: while the server answers reads, the walker's fetch of a file below 4 GiB returns exactly its
  content, and the fetch of any larger file never ends: the length of the last chunks is truncated to 32 bits, so the
  loop comes to request nothing, for ever.\<close>

theorem fetch_ends_iff_small:
  assumes "answers env I fh data" "I n" "length data = unat sz"
  shows "(unat sz < 2 ^ 32 \<longrightarrow> (\<exists>n'. fetch_loop env fh sz 0 [] n = Some (Some data, n')))
    \<and> (2 ^ 32 \<le> unat sz \<longrightarrow> fetch_loop env fh sz 0 [] n = None)"
  using fetch_loop_small [OF assms(1,3) _ assms(2), of 0] fetch_loop_large [OF _ assms(1,2), of sz 0 "[]"]
  by (cases "fetch_loop env fh sz 0 [] n") auto

text \<open>A server with one file, whose content is its state.\<close>

fun one_file :: "Request \<Rightarrow> bytes \<Rightarrow> (TransportError + Reply) \<times> bytes" where
  "one_file (ReqRead fh off len) d = (Inr (Inr (RspData (take (unat len) (drop (unat off) d)))), d)"
| "one_file (ReqWrite fh off b ex) d = (Inr (Inr (RspWritten (of_nat (length b)) 2 False)), put_at (unat off) b d)"
| "one_file (ReqOpen p fl) d = (Inr (Inr (RspOpened 7 (demo_attr (of_nat (length d))))), d)"
| "one_file _ d = (Inr (Inr RspOk), d)"

definition one_env :: "(Mem, abs_path, bytes) cenv" where
  "one_env = \<lparr> cl_os = mem_cos, cl_globs = no_globs, cl_request = one_file, cl_keepalive = one_file, cl_swapped = (\<lambda>_. False),
    cl_proto = (\<lambda>_. 4), cl_iter = id, cl_upper = id, cl_from_json = (\<lambda>_. None), cl_to_json = (\<lambda>_. None) \<rparr>"

lemma one_answers: "answers one_env (\<lambda>d. d = data) fh data"
  by (simp add: answers_def one_env_def)

theorem fetch_ends_iff_small_witness:
  "(\<exists>n. fetch_loop one_env 7 3 0 [] [1, 2, 3] = Some (Some [1, 2, 3], n))
   \<and> fetch_loop one_env 7 0x100000000 0 [] (replicate (2 ^ 32) 0) = None"
  using fetch_ends_iff_small [OF one_answers refl, of "[1, 2, 3]" 3 7]
    fetch_ends_iff_small [OF one_answers refl, of "replicate (2 ^ 32) 0" "0x100000000" 7] by simp

section \<open>Reads through the window\<close>

definition blk :: "bytes \<Rightarrow> u64 \<Rightarrow> bytes" where
  "blk data b = take (unat DATA_CHUNK) (drop (unat (b * ucast DATA_CHUNK)) data)"

text \<open>Every block the handle holds or waits for is the file's.\<close>

definition honest :: "bytes \<Rightarrow> ReadAhead \<Rightarrow> bool" where
  "honest data ra \<longleftrightarrow> (\<forall>(b, d) \<in> set (ra_recent ra). d = blk data b) \<and> (\<forall>b d. hm_get (ra_window ra) b = Some (Some d) \<longrightarrow> d = blk data b)"

definition good_map :: "bytes \<Rightarrow> (u64, bytes) hmap \<Rightarrow> bool" where
  "good_map data m \<longleftrightarrow> (\<forall>(b, d) \<in> set m. d = blk data b)"

lemma honest_new [simp]: "honest data ra_new" "honest data (ra_clear ra)"
  by (simp_all add: honest_def ra_new_def ra_clear_def)

lemma honest_observe: "honest data ra \<Longrightarrow> honest data (snd (observe off sz ra))"
  by (auto simp: observe_def Let_def honest_def ra_clear_def)

lemma honest_count [simp]: "honest data (count_ra f ra) = honest data ra"
  by (simp add: honest_def count_ra_def)

lemma honest_put: "honest data ra \<Longrightarrow> (\<And>d. x = Some d \<Longrightarrow> d = blk data b) \<Longrightarrow> honest data (ra_put b x ra)"
  by (auto simp: honest_def ra_put_def hmap_simps split: if_splits)

lemma honest_take: "honest data ra \<Longrightarrow> honest data (snd (ra_take b ra))"
  by (auto simp: honest_def ra_take_def hmap_simps split: if_splits)

lemma in_set_tl: "x \<in> set (tl xs) \<Longrightarrow> x \<in> set xs"
  by (cases xs) auto

lemma set_slot_in: "(b, d) \<in> set (set_slot c x rs) \<Longrightarrow> (b, d) = (c, x) \<or> (b, d) \<in> set rs"
  by (induction c x rs rule: set_slot.induct) (auto split: if_splits)

lemma honest_retain: "honest data ra \<Longrightarrow> honest data (retain b (blk data b) ra)"
  by (auto simp: honest_def retain_def Let_def dest!: set_slot_in in_set_tl split: if_splits)

lemma honest_retained: "honest data ra \<Longrightarrow> retained b ra = Some d \<Longrightarrow> d = blk data b"
  by (fastforce simp: honest_def retained_def find_Some_iff split: prod.splits dest: nth_mem)

lemma honest_retains: "honest data ra \<Longrightarrow> good_map data m \<Longrightarrow> honest data (fold (\<lambda>(b, d). retain b d) m ra)"
  by (induction m arbitrary: ra) (auto simp: good_map_def honest_retain)

lemma fetch_block_blk:
  assumes "answers env I fh data" "I n"
  obtains n' where "fetch_block env fh b n = (Some (blk data b), n')" "I n'"
  by (rule answersE [OF assms, of "b * ucast DATA_CHUNK" DATA_CHUNK]) (auto simp: fetch_block_def blk_def intro: that)

lemma prefetch_honest:
  assumes "answers env I fh data"
  shows "honest data ra \<Longrightarrow> I n \<Longrightarrow> honest data (fst (prefetch_all env fh bs (ra, n))) \<and> I (snd (prefetch_all env fh bs (ra, n)))"
proof (induction bs arbitrary: ra n)
  case (Cons b bs)
  obtain n' where "fetch_block env fh b n = (Some (blk data b), n')" "I n'" by (rule fetch_block_blk [OF assms Cons.prems(2)])
  then show ?case using Cons.IH [of "ra_put b (Some (blk data b)) ra" n'] honest_put [OF Cons.prems(1), of "Some (blk data b)" b] by simp
qed simp

lemma good_put: "good_map data m \<Longrightarrow> good_map data (hm_put b (blk data b) m)"
  by (induction m) (auto simp: good_map_def split: if_splits)


lemma gather_good:
  "gather bs (ready, need, ra) = (ready', need', ra') \<Longrightarrow> honest data ra \<Longrightarrow> good_map data ready \<Longrightarrow>
   honest data ra' \<and> good_map data ready' \<and> set need \<subseteq> set need'
   \<and> fst ` set ready \<subseteq> fst ` set ready' \<and> set bs \<subseteq> fst ` set ready' \<union> set need'"
proof (induction bs arbitrary: ready need ra)
  case (Cons b bs)
  show ?case
  proof (cases "retained b ra")
    case (Some d)
    then have "d = blk data b" by (rule honest_retained [OF Cons.prems(2)])
    then show ?thesis using Cons.IH [of "hm_put b d ready" need] Cons.prems Some good_put by (force simp: keys_put)
  next
    case None
    show ?thesis
    proof (cases "hm_get (ra_window ra) b")
      case (Some x)
      show ?thesis
      proof (cases x)
        case (Some d)
        then have "d = blk data b" using Cons.prems(2) \<open>hm_get (ra_window ra) b = Some x\<close> by (simp add: honest_def)
        then show ?thesis
          using Cons.IH [of "hm_put b d ready" need] Cons.prems None Some \<open>hm_get (ra_window ra) b = Some x\<close> good_put honest_take [of data ra b]
          by (force simp: keys_put ra_take_def)
      qed (use Cons.IH [of ready "need @ [b]"] Cons.prems None Some honest_take [of data ra b] in \<open>force simp: ra_take_def\<close>)
    qed (use Cons.IH [of ready "need @ [b]"] Cons.prems None honest_take [of data ra b] in \<open>force simp: ra_take_def\<close>)
  qed
qed auto

lemma fetch_all_good:
  assumes "answers env I fh data"
  shows "I n \<Longrightarrow> \<exists>n'. fetch_all env fh bs n = (map (\<lambda>b. (b, Some (blk data b))) bs, n') \<and> I n'"
proof (induction bs arbitrary: n)
  case (Cons b bs)
  obtain n1 where f: "fetch_block env fh b n = (Some (blk data b), n1)" "I n1" by (rule fetch_block_blk [OF assms Cons.prems])
  then show ?case using Cons.IH [OF f(2)] by auto
qed simp

lemma add_fetched_good:
  "good_map data m \<Longrightarrow> \<exists>m'. add_fetched (map (\<lambda>b. (b, Some (blk data b))) bs) m = Some m' \<and> good_map data m'
     \<and> fst ` set m' = fst ` set m \<union> set bs"
proof (induction bs arbitrary: m)
  case (Cons b bs)
  show ?case using Cons.IH [OF good_put [OF Cons.prems, of b]] by (auto simp: keys_put)
qed simp

text \<open>Assembling the blocks \<open>f..l\<close> gives the file's bytes of those blocks; a short block ends the file.\<close>

lemma take_after_short: "length (take c (drop s xs)) < c \<Longrightarrow> take k (drop (s + c) xs) = []"
  by simp

lemma unat_block: "0 \<le> f \<Longrightarrow> f * 131072 < 2 ^ 64 \<Longrightarrow> unat (word_of_int f * ucast DATA_CHUNK :: u64) = nat f * 131072"
proof -
  assume f: "0 \<le> f" "f * 131072 < 2 ^ 64"
  then have "unat (word_of_int f :: u64) = nat f" by (simp add: unat_eq_nat_uint uint_word_of_int)
  moreover have "nat f * 131072 < 2 ^ 64" using f by simp
  ultimately show ?thesis by (simp add: unat_word_ariths)
qed

lemma assemble_blocks:
  assumes "good_map data m" "0 \<le> f" "l * 131072 < 2 ^ 64" "word_of_int ` {f..l} \<subseteq> fst ` set m"
  shows "assemble m (map word_of_int [f..l]) out = Some (out @ take (nat (l + 1 - f) * 131072) (drop (nat f * 131072) data))"
  using assms
proof (induction "nat (l + 1 - f)" arbitrary: f out)
  case (Suc k)
  then have le: "f \<le> l" by linarith
  let ?b = "word_of_int f :: u64"
  have "?b \<in> fst ` set m" using Suc.prems(4) le by auto
  then obtain d where d: "hm_get m ?b = Some d" by (metis map_of_eq_None_iff not_None_eq)
  then have "(?b, d) \<in> set m" by (rule map_of_SomeD)
  then have "d = blk data ?b" using Suc.prems(1) unfolding good_map_def by blast
  then have db: "d = take 131072 (drop (nat f * 131072) data)" using unat_block [of f] Suc.prems le by (simp add: blk_def)
  have sub: "word_of_int ` {f + 1..l} \<subseteq> fst ` set m" using Suc.prems(4) by auto
  have k: "k = nat (l + 1 - (f + 1))" using Suc.hyps(2) by linarith
  have n: "nat (f + 1) * 131072 = nat f * 131072 + 131072" "nat (l + 1 - f) * 131072 = 131072 + nat (l + 1 - (f + 1)) * 131072"
    using Suc.prems(2) le by (simp_all add: nat_add_distrib)
  have split: "take (nat (l + 1 - f) * 131072) (drop (nat f * 131072) data)
      = d @ take (nat (l + 1 - (f + 1)) * 131072) (drop (nat (f + 1) * 131072) data)"
    unfolding n db by (subst take_add) (simp add: add.commute)
  show ?case
  proof (cases "length d < 131072")
    case True
    then have "take (nat (l + 1 - (f + 1)) * 131072) (drop (nat (f + 1) * 131072) data) = []" unfolding n db by simp
    then show ?thesis using split True d le by (simp add: upto_rec1 DATA_CHUNK_def)
  next
    case False
    then have "assemble m (map word_of_int [f..l]) out = assemble m (map word_of_int [f + 1..l]) (out @ d)"
      using d le by (simp add: upto_rec1 DATA_CHUNK_def)
    then show ?thesis using Suc.hyps(1) [OF k Suc.prems(1) _ Suc.prems(3) sub, of "out @ d"] Suc.prems(2) split by simp
  qed
qed simp

lemma window_end:
  assumes "unat (off :: u64) + unat (sz :: u32) < 2 ^ 64"
  shows "uint (block_of off) = int (unat off div 131072)"
    "uint (block_of (off + ucast (max sz 1) - 1)) = int ((unat off + unat (max sz 1) - 1) div 131072)"
proof -
  have c: "uint (ucast DATA_CHUNK :: u64) = 131072" by (simp add: DATA_CHUNK_def)
  show "uint (block_of off) = int (unat off div 131072)" by (simp add: block_of_def uint_div c zdiv_int)
  have m: "1 \<le> unat (max sz 1)" by (simp add: max_def word_le_nat_alt)
  have e: "off + ucast (max sz 1) - 1 = off + (ucast (max sz 1) - 1)" by simp
  have w: "unat (ucast (max sz 1) :: u64) = unat (max sz 1)"
    using unsigned_less [where 'a = nat, of "max sz 1"] by (simp add: unsigned_ucast_eq take_bit_eq_mod)
  have u: "unat (ucast (max sz 1) - 1 :: u64) = unat (max sz 1) - 1"
    using m w by (subst unat_sub) (simp_all add: word_le_nat_alt)
  have "unat (max sz 1) \<le> unat sz + 1" by (simp add: max_def)
  then have lt: "unat off + (unat (max sz 1) - 1) < 2 ^ 64" using assms m by linarith
  have "unat (off + ucast (max sz 1) - 1) = unat off + unat (max sz 1) - 1"
    unfolding e using lt u m by (simp add: unat_add_lem [THEN iffD1])
  then show "uint (block_of (off + ucast (max sz 1) - 1)) = int ((unat off + unat (max sz 1) - 1) div 131072)"
    using uint_nat [of "off + ucast (max sz 1) - 1"] by (simp add: block_of_def uint_div c zdiv_int)
qed

lemma window_slice:
  fixes data :: bytes
  assumes "0 < c" "f = off div c" "l = (off + max sz 1 - 1) div c"
  shows "take sz (drop (off - f * c) (take ((l + 1 - f) * c) (drop (f * c) data))) = take sz (drop off data)"
proof -
  have f: "f * c \<le> off" using assms(2) by simp
  have "off + max sz 1 - 1 < (l + 1) * c" using assms(1, 3) by (simp add: dividend_less_div_times)
  then have "off + sz \<le> (l + 1) * c" by (simp add: max_def split: if_splits)
  then have "off - f * c + sz \<le> (l + 1 - f) * c" using f by (simp add: diff_mult_distrib)
  then show ?thesis using f by (simp add: drop_take min_def)
qed

lemma range_blocks:
  "uint a = int f \<Longrightarrow> uint b = int l \<Longrightarrow> range_incl a b = map word_of_int [int f..int l] \<and> word_of_int ` {int f..int l} = set (range_incl a b)"
  by (simp add: range_incl_def)

lemma cut_take: "(if k \<ge> length xs then [] else take (min (k + j) (length xs) - k) (drop k xs)) = take j (drop k xs)"
  by (auto simp: min_def)

lemma window_assembled:
  assumes "unat (off :: u64) + unat (sz :: u32) < 2 ^ 64" "good_map data m"
    "set (range_incl (block_of off) (block_of (off + ucast (max sz 1) - 1))) \<subseteq> fst ` set m"
  shows "\<exists>a. assemble m (range_incl (block_of off) (block_of (off + ucast (max sz 1) - 1))) [] = Some a
    \<and> take (unat sz) (drop (unat (off - block_of off * ucast DATA_CHUNK)) a) = take (unat sz) (drop (unat off) data)"
proof -
  define fb lb where "fb = block_of off" and "lb = block_of (off + ucast (max sz 1) - 1)"
  define f l where "f = unat off div 131072" and "l = (unat off + max (unat sz) 1 - 1) div 131072"
  have mx: "unat (max sz 1) = max (unat sz) 1" by (simp add: max_def word_le_nat_alt)
  have ub: "uint fb = int f" "uint lb = int l"
    using window_end [OF assms(1)] by (simp_all add: fb_def lb_def f_def l_def mx)
  have "l * 131072 \<le> unat off + max (unat sz) 1 - 1" by (simp add: l_def)
  moreover have "unat off + max (unat sz) 1 - 1 < 2 ^ 64"
    using assms(1) unsigned_less [where 'a = nat, of off] by (cases "unat sz") simp_all
  ultimately have "l * 131072 < 2 ^ 64" by (rule le_less_trans)
  then have lim: "int l * 131072 < 2 ^ 64" by simp
  have fo: "f * 131072 \<le> unat off" by (simp add: f_def)
  then have "f * 131072 < 2 ^ 64" using unsigned_less [where 'a = nat, of off] by simp
  then have "int f * 131072 < 2 ^ 64" by simp
  moreover have "fb = word_of_int (int f)" using word_of_int_uint [of fb] unfolding ub(1) by (rule sym)
  ultimately have "unat (fb * ucast DATA_CHUNK) = f * 131072" using unat_block [of "int f"] by simp
  then have skip: "unat (off - fb * ucast DATA_CHUNK) = unat off - f * 131072" using fo by (subst unat_sub) (simp_all add: word_le_nat_alt)
  have sub: "word_of_int ` {int f..int l} \<subseteq> fst ` set m" unfolding range_blocks [OF ub, THEN conjunct2] fb_def lb_def by (rule assms(3))
  have "assemble m (range_incl fb lb) [] = Some (take ((l + 1 - f) * 131072) (drop (f * 131072) data))"
    using assemble_blocks [OF assms(2) _ lim sub, of "[]"] range_blocks [OF ub, THEN conjunct1] by (simp add: nat_diff_distrib' nat_add_distrib)
  then show ?thesis using window_slice [OF _ f_def l_def, of data] skip by (simp add: fb_def lb_def)
qed

lemma window_gathered:
  assumes "answers env I fh data" "I n" "honest data ra"
  shows "\<exists>ready need ra' n' m. gather bs ([], [], ra) = (ready, need, ra') \<and> honest data ra'
    \<and> fetch_all env fh need n = (map (\<lambda>b. (b, Some (blk data b))) need, n') \<and> I n'
    \<and> add_fetched (map (\<lambda>b. (b, Some (blk data b))) need) ready = Some m \<and> good_map data m \<and> set bs \<subseteq> fst ` set m"
proof -
  obtain ready need ra' where g: "gather bs ([], [], ra) = (ready, need, ra')" by (metis prod_cases3)
  have h: "honest data ra'" "good_map data ready" "set bs \<subseteq> fst ` set ready \<union> set need"
    using gather_good [OF g assms(3)] by (simp_all add: good_map_def)
  show ?thesis using g h fetch_all_good [OF assms(1, 2), of need] add_fetched_good [OF h(2), of need] by auto
qed

lemma window_exact:
  assumes "answers env I fh data" "I n" "honest data ra" "unat off + unat sz < 2 ^ 64" "\<And>m. set (cl_iter env m) \<subseteq> set m"
  shows "\<exists>ra' n'. read_window env fh off sz ra n = (Inr (take (unat sz) (drop (unat off) data)), ra', n') \<and> honest data ra' \<and> I n'"
proof -
  define fb lb where "fb = block_of off" and "lb = block_of (off + ucast (max sz 1) - 1)"
  obtain p ra1 where o: "observe off sz ra = (p, ra1)" by (cases "observe off sz ra")
  have h1: "honest data ra1" using honest_observe [OF assms(3), of off sz] o by simp
  obtain ra2 n2 where pf: "(if p then prefetch_all env fh (missing (lb + 1) (- 1) ra1) (ra1, n) else (ra1, n)) = (ra2, n2)"
    by (metis surj_pair)
  have h2: "honest data ra2" "I n2"
    using pf prefetch_honest [OF assms(1) h1 assms(2), of "missing (lb + 1) (- 1) ra1"] h1 assms(2) by (cases p; auto)+
  obtain ready need ra3 n3 m where g: "gather (range_incl fb lb) ([], [], ra2) = (ready, need, ra3)" "honest data ra3"
      "fetch_all env fh need n2 = (map (\<lambda>b. (b, Some (blk data b))) need, n3)" "I n3"
      "add_fetched (map (\<lambda>b. (b, Some (blk data b))) need) ready = Some m" "good_map data m" "set (range_incl fb lb) \<subseteq> fst ` set m"
    using window_gathered [OF assms(1) h2(2, 1), of "range_incl fb lb"] by blast
  obtain a where a: "assemble m (range_incl fb lb) [] = Some a"
      "take (unat sz) (drop (unat (off - fb * ucast DATA_CHUNK)) a) = take (unat sz) (drop (unat off) data)"
    using window_assembled [OF assms(4) g(6)] g(7) by (auto simp: fb_def lb_def)
  let ?ra = "if need = [] then ra3 else count_ra (\<lambda>s. s\<lparr>rs_sync_fetches := rs_sync_fetches s + of_nat (length need)\<rparr>) ra3"
  have "good_map data (cl_iter env m)" using g(6) assms(5) [of m] by (auto simp: good_map_def)
  then have "honest data (fold (\<lambda>(b, d). retain b d) (cl_iter env m) ?ra)" using honest_retains g(2) by simp
  moreover have "read_window env fh off sz ra n = (Inr (take (unat sz) (drop (unat off) data)), fold (\<lambda>(b, d). retain b d) (cl_iter env m) ?ra, n3)"
    unfolding read_window_def Let_def fb_def [symmetric] lb_def [symmetric] o prod.case pf g(1, 3, 5) option.case a(1) cut_take a(2) ..
  ultimately show ?thesis using g(4) by blast
qed

text \<open>A handle that reads from the network, with the file's bytes behind it.\<close>

definition reading :: "('s, 'f, 'n) cenv \<Rightarrow> ('n \<Rightarrow> bool) \<Rightarrow> bytes \<Rightarrow> u64 \<Rightarrow> ('s, 'f, 'n) RemoteFs \<Rightarrow> bool" where
  "reading env I data fh st \<longleftrightarrow> \<not> has_overlay_bit fh \<and> I (rf_net st) \<and>
     (case hm_get (rf_open_files st) fh of
        None \<Rightarrow> False
      | Some h \<Rightarrow> \<not> hs_poisoned h \<and> (rf_cache st = None \<or> \<not> hs_cache_ok h) \<and> answers env I (hs_server_fh h) data \<and> honest data (hs_ra h))"

lemma bindX_step: "m st = Some (Inr x, st') \<Longrightarrow> bindX m k st = k x st'"
  by (simp add: bindX_def)

lemma check_poisoned_run:
  "check_poisoned fh st = (if (case hm_get (rf_open_files st) fh of Some h \<Rightarrow> hs_poisoned h | None \<Rightarrow> False) then Some (Inl (FeRemote IoError), st) else Some (Inr (), st))"
  by (simp add: check_poisoned_def run_simps failX_def)

lemma rf_read_exact:
  assumes "reading env I data fh st" "unat off + unat sz < 2 ^ 64" "\<And>m. set (cl_iter env m) \<subseteq> set m"
  shows "\<exists>st'. rf_read env fh off sz st = Some (Inr (take (unat sz) (drop (unat off) data)), st') \<and> reading env I data fh st'"
proof -
  obtain h where h: "hm_get (rf_open_files st) fh = Some h" "\<not> hs_poisoned h" "rf_cache st = None \<or> \<not> hs_cache_ok h"
      "answers env I (hs_server_fh h) data" "honest data (hs_ra h)" and r: "\<not> has_overlay_bit fh" "I (rf_net st)"
    using assms(1) by (auto simp: reading_def split: option.splits)
  obtain ra n where w: "read_window env (hs_server_fh h) off sz (hs_ra h) (rf_net st) = (Inr (take (unat sz) (drop (unat off) data)), ra, n)"
      "honest data ra" "I n" using window_exact [OF h(4) r(2) h(5) assms(2, 3)] by blast
  have c: "read_cached env fh off sz st = Some (Inr None, st)" using h(1, 3) by (auto simp: read_cached_def split: option.splits)
  have p: "check_poisoned fh st = Some (Inr (), st)" using h(1, 2) by (simp add: check_poisoned_run)
  have "rf_read env fh off sz st = Some (Inr (take (unat sz) (drop (unat off) data)), on_handle fh (\<lambda>h. h\<lparr>hs_ra := ra\<rparr>) (st\<lparr>rf_net := n\<rparr>))"
    using r(1) h(1) w(1) by (simp add: rf_read_def bindX_step [where m = "check_poisoned fh", OF p] bindX_step [where m = "read_cached env fh off sz", OF c] read_remote_def)
  moreover have "reading env I data fh (on_handle fh (\<lambda>h. h\<lparr>hs_ra := ra\<rparr>) (st\<lparr>rf_net := n\<rparr>))"
    using r(1) h w(2, 3) by (simp add: reading_def on_handle_def hmap_simps)
  ultimately show ?thesis by blast
qed

text \<open>A sequence of reads through one handle.\<close>

fun reads :: "('s, 'f, 'n) cenv \<Rightarrow> u64 \<Rightarrow> (u64 \<times> u32) list \<Rightarrow> ('s, 'f, 'n) RemoteFs \<Rightarrow> (FsError + bytes) list option" where
  "reads env fh [] st = Some []"
| "reads env fh ((off, sz) # ws) st =
    (case rf_read env fh off sz st of None \<Rightarrow> None | Some (r, st') \<Rightarrow> map_option ((#) r) (reads env fh ws st'))"

text \<open>C7: reads are exact.  While the server answers reads of a handle with slices of \<open>data\<close>, any sequence of reads through
  the handle, sequential or not, returns for each the bytes of the file that were asked for and none at or past its end,
  whatever blocks were retained, prefetched or fetched for it.\<close>

theorem read_exact:
  assumes "reading env I data fh st" "\<forall>(off, sz) \<in> set ws. unat off + unat sz < 2 ^ 64" "\<And>m. set (cl_iter env m) \<subseteq> set m"
  shows "reads env fh ws st = Some (map (\<lambda>(off, sz). Inr (take (unat sz) (drop (unat off) data))) ws)"
  using assms(1, 2)
proof (induction ws arbitrary: st)
  case (Cons w ws)
  obtain off sz where w: "w = (off, sz)" by (cases w)
  obtain st' where "rf_read env fh off sz st = Some (Inr (take (unat sz) (drop (unat off) data)), st')" "reading env I data fh st'"
    using rf_read_exact [OF Cons.prems(1) _ assms(3), of off sz] Cons.prems(2) w by auto
  then show ?case using Cons.IH [of st'] Cons.prems(2) w by simp
qed simp

text \<open>A mounted file \<open>f\<close>, open as handle 7, on the server with one file.\<close>

definition one_fs :: "'n \<Rightarrow> (u64, OpenState) hmap \<Rightarrow> (Mem, abs_path, 'n) RemoteFs" where
  "one_fs d hs = \<lparr> rf_net = d, rf_disk = no_disk, rf_now = 0, rf_ino = itab_new, rf_root_attr = demo_attr 0, rf_attr_cache = [],
     rf_overlay = None, rf_cache = None, rf_open_files = hs, rf_export = ''x'', rf_has_dialer = True, rf_epoch = 0, rf_last_event_seq = 0,
     rf_detect_conflicts = False, rf_mount_root = None \<rparr>"

lemma one_reading:
  "hm_get hs 7 = Some (new_handle ''f'' fl 7 False w v) \<Longrightarrow> reading one_env (\<lambda>n. n = d) d 7 (one_fs d hs)"
  by (simp add: reading_def one_fs_def one_answers new_handle_def has_overlay_bit_def OVERLAY_FH_BIT_def)

theorem read_exact_witness:
  "reads one_env 7 [(1, 1), (0, 9), (3, 4), (1, 5)] (one_fs [1, 2, 3] [(7, new_handle ''f'' read_only_flags 7 False False 1)])
   = Some [Inr [2], Inr [1, 2, 3], Inr [], Inr [2, 3]]"
  using read_exact [OF one_reading [of "[(7, new_handle ''f'' read_only_flags 7 False False 1)]" read_only_flags False 1 "[1, 2, 3]"],
      of "[(1, 1), (0, 9), (3, 4), (1, 5)]"]
  by (simp add: one_env_def)

section \<open>Reads after writes\<close>

text \<open>A server that keeps the content \<open>C\<close> of one file behind the handles \<open>F\<close>: reads return slices of it, and a write that is
  acknowledged was carried out in full, as \<open>AgentSession::write\<close> does.  A write may fail for any reason.\<close>

definition file_server :: "('s, 'f, 'n) cenv \<Rightarrow> ('n \<Rightarrow> bytes) \<Rightarrow> u64 set \<Rightarrow> bool" where
  "file_server env C F \<longleftrightarrow>
     (\<forall>fh \<in> F. \<forall>data. answers env (\<lambda>n. C n = data) fh data)
   \<and> (\<forall>fh \<in> F. \<forall>n n' off b ex k v c. cl_request env (ReqWrite fh off b ex) n = (Inr (Inr (RspWritten k v c)), n') \<longrightarrow>
        k = of_nat (length b) \<and> C n' = put_at (unat off) b (C n))"

text \<open>Handles that differ at most in the version they last saw.\<close>

definition same_handles :: "('s, 'f, 'n) RemoteFs \<Rightarrow> ('s, 'f, 'n) RemoteFs \<Rightarrow> bool" where
  "same_handles st st' \<longleftrightarrow> (\<forall>k. map_option (hs_version_update (\<lambda>_. 0)) (hm_get (rf_open_files st') k)
     = map_option (hs_version_update (\<lambda>_. 0)) (hm_get (rf_open_files st) k))"

lemma same_handles_refl: "rf_open_files st' = rf_open_files st \<Longrightarrow> same_handles st st'"
  by (simp add: same_handles_def)

lemma same_handles_trans: "same_handles a b \<Longrightarrow> same_handles b c \<Longrightarrow> same_handles a c"
  by (simp add: same_handles_def)

lemma same_but_version: "h\<lparr>hs_version := 0\<rparr> = g\<lparr>hs_version := 0\<rparr> \<Longrightarrow>
   hs_path h = hs_path g \<and> hs_server_fh h = hs_server_fh g \<and> hs_poisoned h = hs_poisoned g \<and> hs_ra h = hs_ra g \<and> hs_cache_ok h = hs_cache_ok g"
  by (cases h; cases g) simp

lemma same_handlesD:
  "same_handles st st' \<Longrightarrow> hm_get (rf_open_files st) k = Some h \<Longrightarrow>
   \<exists>g. hm_get (rf_open_files st') k = Some g \<and> hs_path g = hs_path h \<and> hs_server_fh g = hs_server_fh h \<and> hs_poisoned g = hs_poisoned h
     \<and> hs_ra g = hs_ra h \<and> hs_cache_ok g = hs_cache_ok h"
  unfolding same_handles_def by (drule spec [of _ k]) (auto dest: same_but_version)

lemma same_handles_version: "same_handles st (on_handle fh (\<lambda>h. h\<lparr>hs_version := v\<rparr>) (st\<lparr>rf_net := n\<rparr>))"
  by (simp add: same_handles_def on_handle_def hmap_simps split: option.splits)

lemma write_call:
  "call env (ReqWrite sfh off b ex) st = (case cl_request env (ReqWrite sfh off b ex) (rf_net st) of (r, n) \<Rightarrow> Some (flat r, st\<lparr>rf_net := n\<rparr>))"
  by (simp add: call_def request_def split: prod.splits)

lemma write_chunks_content:
  "write_chunks_rf env fh sfh off data ex pos st = Some (Inr (), st') \<Longrightarrow> pos < length data \<Longrightarrow> file_server env C F \<Longrightarrow> sfh \<in> F
   \<Longrightarrow> unat off + length data < 2 ^ 64 \<Longrightarrow>
   C (rf_net st') = put_at (unat off + pos) (drop pos data) (C (rf_net st)) \<and> same_handles st st'"
proof (induction "length data - pos" arbitrary: ex pos st rule: less_induct)
  case less
  let ?b = "take (unat DATA_CHUNK) (drop pos data)"
  obtain k v c n where r: "cl_request env (ReqWrite sfh (off + of_nat pos) ?b ex) (rf_net st) = (Inr (Inr (RspWritten k v c)), n)" "k \<noteq> 0"
    and w: "write_chunks_rf env fh sfh off data (if ex \<noteq> None then Some v else None) (pos + unat k)
        (on_handle fh (\<lambda>h. h\<lparr>hs_version := v\<rparr>) (st\<lparr>rf_net := n\<rparr>)) = Some (Inr (), st')"
    using less.prems(1, 2) by (subst (asm) write_chunks_rf.simps)
      (auto simp: write_call flat_def Let_def split: prod.splits sum.splits Response.splits if_splits)
  have k: "k = of_nat (length ?b)" "C n = put_at (unat (off + of_nat pos)) ?b (C (rf_net st))"
    using less.prems(3, 4) r(1) unfolding file_server_def by blast+
  have "unat k = length ?b" using unsigned_less [where 'a = nat, of DATA_CHUNK] by (simp add: k(1) unat_of_nat DATA_CHUNK_def)
  have o: "unat (off + of_nat pos) = unat off + pos" using less.prems(2, 5) by (intro unat_offset_add) simp
  let ?st = "on_handle fh (\<lambda>h. h\<lparr>hs_version := v\<rparr>) (st\<lparr>rf_net := n\<rparr>)"
  have s: "same_handles st ?st" by (rule same_handles_version)
  have net: "rf_net ?st = n" by (simp add: on_handle_def split: option.splits)
  show ?case
  proof (cases "pos + unat k < length data")
    case True
    have "C (rf_net st') = put_at (unat off + (pos + unat k)) (drop (pos + unat k) data) (C (rf_net ?st)) \<and> same_handles ?st st'"
      using True unat_gt_0 [of k] r(2) by (intro less.hyps [OF _ w True less.prems(3, 4, 5)]) linarith
    moreover have "put_at (unat off + (pos + unat k)) (drop (pos + unat k) data) (C n) = put_at (unat off + pos) (drop pos data) (C (rf_net st))"
      using append_take_drop_id [of "unat DATA_CHUNK" "drop pos data"] put_at_append [of "unat off + pos" ?b "drop (pos + unat k) data" "C (rf_net st)"] k(2) o \<open>unat k = length ?b\<close> True
      by (simp add: ac_simps min_def split: if_splits)
    ultimately show ?thesis using same_handles_trans [OF s] net by simp
  next
    case False
    then have "st' = ?st" using w by (subst (asm) write_chunks_rf.simps) simp
    moreover have "?b = drop pos data" using False \<open>unat k = length ?b\<close> by (simp add: min_def split: if_splits)
    ultimately show ?thesis using k(2) o net s by simp
  qed
qed

lemma write_chunks_frame: "write_chunks_rf env fh sfh off data ex pos st = Some (r, st') \<Longrightarrow> same_handles st st'"
proof (induction "length data - pos" arbitrary: ex pos st rule: less_induct)
  case less
  obtain x n where x: "cl_request env (ReqWrite sfh (off + of_nat pos) (take (unat DATA_CHUNK) (drop pos data)) ex) (rf_net st) = (x, n)" by (metis surj_pair)
  have o: "same_handles st (st\<lparr>rf_net := n\<rparr>)" by (rule same_handles_refl) simp
  show ?case
  proof (cases "pos < length data \<and> (\<exists>k v c. x = Inr (Inr (RspWritten k v c)) \<and> k \<noteq> 0)")
    case True
    then obtain k v c where k: "x = Inr (Inr (RspWritten k v c))" "k \<noteq> 0" "pos < length data" by blast
    then have "write_chunks_rf env fh sfh off data (if ex \<noteq> None then Some v else None) (pos + unat k)
        (on_handle fh (\<lambda>h. h\<lparr>hs_version := v\<rparr>) (st\<lparr>rf_net := n\<rparr>)) = Some (r, st')"
      using less.prems x by (subst (asm) write_chunks_rf.simps) (simp add: write_call flat_def)
    moreover have "length data - (pos + unat k) < length data - pos" using k(2, 3) unat_gt_0 [of k] by linarith
    ultimately have "same_handles (on_handle fh (\<lambda>h. h\<lparr>hs_version := v\<rparr>) (st\<lparr>rf_net := n\<rparr>)) st'" by (intro less.hyps)
    then show ?thesis by (rule same_handles_trans [OF same_handles_version])
  next
    case False
    then have "st' = st \<or> st' = st\<lparr>rf_net := n\<rparr> \<or> (\<exists>v. st' = on_handle fh (\<lambda>h. h\<lparr>hs_version := v\<rparr>) (st\<lparr>rf_net := n\<rparr>))"
      using less.prems x by (subst (asm) write_chunks_rf.simps) (auto simp: write_call flat_def split: sum.splits Response.splits if_splits)
    then show ?thesis using same_handles_version [of st fh _ n] o same_handles_refl [OF refl, of st] by metis
  qed
qed

text \<open>A write that fails forgets nothing: chunks that were written before the failure stay behind the old blocks of the
  handles on the path, and the server does not send the client its own events.\<close>

lemma failed_write_keeps_blocks:
  assumes "rf_write env fh off data st = Some (Inl e, st')" "\<not> has_overlay_bit fh" "hm_get (rf_open_files st) fh2 = Some h2"
  shows "\<exists>g. hm_get (rf_open_files st') fh2 = Some g \<and> hs_ra g = hs_ra h2 \<and> hs_cache_ok g = hs_cache_ok h2"
proof -
  have "same_handles st st'"
    using assms(1, 2) by (auto simp: rf_write_def bindX_def check_poisoned_run getX_def modX_def retX_def intro: write_chunks_frame same_handles_refl
      split: option.splits prod.splits sum.splits if_splits)
  then show ?thesis using same_handlesD [OF _ assms(3)] by blast
qed

lemma open_files_on_cache [simp]: "rf_open_files (on_cache f st) = rf_open_files st" "rf_net (on_cache f st) = rf_net st"
  by (auto simp: on_cache_def split: option.splits prod.splits)

lemma map_of_forget: "hm_get (map (\<lambda>(k, h). (k, forget_reads p h)) hs) j = map_option (forget_reads p) (hm_get hs j)"
  by (induction hs) auto

lemma note_written_handles:
  assumes "hm_get (rf_open_files st) fh = Some h" "hm_get (rf_open_files st) fh2 = Some h2" "hs_path h2 = hs_path h"
  shows "\<exists>h'. hm_get (rf_open_files (note_written env fh st)) fh2 = Some h' \<and> hs_server_fh h' = hs_server_fh h2 \<and> hs_poisoned h' = hs_poisoned h2
     \<and> \<not> hs_cache_ok h' \<and> honest data (hs_ra h')"
proof -
  have "hm_get (rf_open_files (note_written env fh st)) fh2 = Some (forget_reads (hs_path h) (if fh2 = fh then h\<lparr>hs_wrote := True\<rparr> else h2))"
    using assms by (simp add: note_written_def mark_path_written_def map_of_forget on_handle_def hmap_simps)
  then show ?thesis using assms by (auto simp: forget_reads_def)
qed

text \<open>C6: a client reads what it wrote.  After an acknowledged write of any length through one handle, a read through any
  handle the client has open on the same path returns the bytes of the new content, even when the handle had retained or
  prefetched blocks of the old one or served the old content from the file cache.\<close>

theorem read_after_write:
  assumes "file_server env C F" "rf_write env fh off data st = Some (Inr k, st1)" "data \<noteq> []" "unat off + length data < 2 ^ 64"
    "\<not> has_overlay_bit fh" "hm_get (rf_open_files st) fh = Some h" "hs_server_fh h \<in> F"
    "\<not> has_overlay_bit fh2" "hm_get (rf_open_files st) fh2 = Some h2" "hs_server_fh h2 \<in> F" "hs_path h2 = hs_path h" "\<not> hs_poisoned h2"
    "\<forall>(o2, sz) \<in> set ws. unat o2 + unat sz < 2 ^ 64" "\<And>m. set (cl_iter env m) \<subseteq> set m"
  shows "reads env fh2 ws st1 = Some (map (\<lambda>(o2, sz). Inr (take (unat sz) (drop (unat o2) (put_at (unat off) data (C (rf_net st)))))) ws)"
proof -
  let ?new = "put_at (unat off) data (C (rf_net st))"
  obtain st0 where w: "write_chunks_rf env fh (hs_server_fh h) off data (expected_version fh st) 0 st = Some (Inr (), st0)"
      "st1 = note_written env fh st0"
    using assms(2, 5, 6) by (auto simp: rf_write_def bindX_Inr check_poisoned_run run_simps server_fh_def split: if_splits)
  have c: "C (rf_net st0) = ?new" "same_handles st st0" using write_chunks_content [OF w(1) _ assms(1, 7, 4)] assms(3) by simp_all
  obtain g g2 where g: "hm_get (rf_open_files st0) fh = Some g" "hs_path g = hs_path h" and
      g2: "hm_get (rf_open_files st0) fh2 = Some g2" "hs_path g2 = hs_path h2" "hs_server_fh g2 = hs_server_fh h2" "hs_poisoned g2 = hs_poisoned h2"
    using same_handlesD [OF c(2) assms(6)] same_handlesD [OF c(2) assms(9)] by blast
  have "rf_net st1 = rf_net st0" by (simp add: w(2) note_written_def mark_path_written_def on_handle_def split: option.splits)
  then have "reading env (\<lambda>n. C n = ?new) ?new fh2 st1"
    using note_written_handles [OF g(1) g2(1), of env ?new] g(2) g2 assms(1, 8, 10, 11, 12) c(1) w(2) by (auto simp: reading_def file_server_def)
  then show ?thesis by (rule read_exact [OF _ assms(13, 14)])
qed

theorem read_after_write_witness:
  "\<exists>st1. rf_write one_env 7 1 [9] (one_fs [1, 2, 3] [(7, new_handle ''f'' read_only_flags 7 False False 1),
       (8, (new_handle ''f'' read_only_flags 8 False False 1)\<lparr>hs_ra := retain 0 [1, 2, 3] ra_new\<rparr>)]) = Some (Inr 1, st1)
     \<and> reads one_env 8 [(0, 5), (1, 1)] st1 = Some [Inr [1, 9, 3], Inr [9]]"
proof -
  let ?h8 = "(new_handle ''f'' read_only_flags 8 False False 1)\<lparr>hs_ra := retain 0 [1, 2, 3] ra_new\<rparr>"
  let ?st = "one_fs [1, 2, 3] [(7, new_handle ''f'' read_only_flags 7 False False 1), (8, ?h8)]"
  have fs: "file_server one_env id UNIV" by (simp add: file_server_def answers_def one_env_def)
  have "map_option fst (rf_write one_env 7 1 [9] ?st) = Some (Inr 1)"
    by (simp add: rf_write_def bindX_def check_poisoned_run getX_def modX_def retX_def server_fh_def expected_version_def write_chunks_rf.simps
      write_call flat_def one_env_def one_fs_def new_handle_def has_overlay_bit_def OVERLAY_FH_BIT_def)
  then obtain st1 where w: "rf_write one_env 7 1 [9] ?st = Some (Inr 1, st1)" by auto
  have "\<not> has_overlay_bit 7" "\<not> has_overlay_bit 8" by (simp_all add: has_overlay_bit_def OVERLAY_FH_BIT_def)
  then have "reads one_env 8 [(0, 5), (1, 1)] st1 = Some [Inr [1, 9, 3], Inr [9]]"
    using read_after_write [OF fs w, of "new_handle ''f'' read_only_flags 7 False False 1" 8 ?h8 "[(0, 5), (1, 1)]"]
    by (simp add: one_fs_def one_env_def new_handle_def put_at_def)
  then show ?thesis using w by blast
qed

end
