(* ===== verification/Client_System.thy ===== *)
theory Client_System
  imports Client_Read Agent_System
begin

text \<open>
  What a reconnect does to the handles of a mount: the locks they hold, over any server that keeps the contract
  \<open>lock_server\<close>; and their numbers and flags, in runs where the requests of the mounted file system are served by
  \<open>AgentSession::handle\<close> on an in-memory export.
\<close>

section \<open>Locks across a reconnect\<close>

text \<open>What the supervisor relies on of a session: a new handle has a number no open handle has, a granted lock is held
  until its own handle is locked again or closed.  \<open>held\<close> and \<open>fhs\<close> are the locks and the handles of the session.\<close>

definition lock_server :: "('s, 'f, 'n) cenv \<Rightarrow> ('n \<Rightarrow> (u64 \<times> LockKind) set) \<Rightarrow> ('n \<Rightarrow> u64 set) \<Rightarrow> bool" where
  "lock_server env held fhs \<longleftrightarrow>
     (\<forall>n p fl r n'. cl_request env (ReqOpen p fl) n = (r, n') \<longrightarrow> held n \<subseteq> held n' \<and> fhs n \<subseteq> fhs n'
        \<and> (\<forall>fh a. r = Inr (Inr (RspOpened fh a)) \<longrightarrow> fh \<notin> fhs n \<and> fh \<in> fhs n'))
   \<and> (\<forall>n fh k r n'. cl_request env (ReqLock fh k False) n = (r, n') \<longrightarrow> fhs n \<subseteq> fhs n'
        \<and> {(g, j) \<in> held n. g \<noteq> fh} \<subseteq> held n' \<and> (r = Inr (Inr RspOk) \<longrightarrow> (fh, k) \<in> held n'))"

definition keeps_locks :: "('n \<Rightarrow> (u64 \<times> LockKind) set) \<Rightarrow> ('n \<Rightarrow> u64 set) \<Rightarrow> 'n \<Rightarrow> 'n \<Rightarrow> bool" where
  "keeps_locks held fhs n n' \<longleftrightarrow> fhs n \<subseteq> fhs n' \<and> {(g, j) \<in> held n. g \<in> fhs n} \<subseteq> held n'"

lemma keeps_locks_trans: "keeps_locks H F a b \<Longrightarrow> keeps_locks H F b c \<Longrightarrow> keeps_locks H F a c"
  by (auto simp: keeps_locks_def)

lemma replay_lock_holds:
  assumes "lock_server env held fhs"
  shows "replay_lock env m fh kind n = (ok, n') \<Longrightarrow>
     fhs n \<subseteq> fhs n' \<and> {(g, j) \<in> held n. g \<noteq> fh} \<subseteq> held n' \<and> (ok \<longrightarrow> (fh, kind) \<in> held n')"
proof (induction m arbitrary: n)
  case (Suc m)
  obtain r n1 where r: "cl_request env (ReqLock fh kind False) n = (r, n1)" by (metis surj_pair)
  then have l: "fhs n \<subseteq> fhs n1" "{(g, j) \<in> held n. g \<noteq> fh} \<subseteq> held n1" "r = Inr (Inr RspOk) \<Longrightarrow> (fh, kind) \<in> held n1"
    using assms unfolding lock_server_def by blast+
  show ?case
  proof (cases "r = Inr (Inl WouldBlock)")
    case True
    then show ?thesis using Suc.IH [of n1] Suc.prems r l by (auto simp: subset_iff)
  next
    case False
    then have "n' = n1 \<and> (ok \<longrightarrow> r = Inr (Inr RspOk))"
      using Suc.prems r by (auto split: sum.splits ErrorCode.splits Response.splits)
    then show ?thesis using l by blast
  qed
qed auto

lemma reopen_lock:
  assumes "lock_server env held fhs" "reopen env h n = (h', n')"
  shows "keeps_locks held fhs n n' \<and> hs_lock h' = hs_lock h
     \<and> (\<forall>k. hs_lock h = Some k \<longrightarrow> hs_poisoned h' \<or> (hs_server_fh h', k) \<in> held n' \<and> hs_server_fh h' \<in> fhs n')"
proof -
  obtain r n1 where r: "cl_request env (ReqOpen (hs_path h) (hs_flags h)) n = (r, n1)" by (metis surj_pair)
  then have o: "held n \<subseteq> held n1" "fhs n \<subseteq> fhs n1" "\<And>fh a. r = Inr (Inr (RspOpened fh a)) \<Longrightarrow> fh \<notin> fhs n \<and> fh \<in> fhs n1"
    using assms(1) unfolding lock_server_def by blast+
  show ?thesis
  proof (cases "\<exists>fh a k. r = Inr (Inr (RspOpened fh a)) \<and> hs_lock h = Some k")
    case True
    then obtain fh a k where f: "r = Inr (Inr (RspOpened fh a))" "hs_lock h = Some k" by blast
    obtain ok n2 where l: "replay_lock env REPLAY_ATTEMPTS fh k n1 = (ok, n2)" by (metis surj_pair)
    have "n' = n2 \<and> hs_lock h' = hs_lock h \<and> hs_server_fh h' = fh \<and> (ok \<or> hs_poisoned h')"
      using assms(2) r f l by (cases ok) (auto simp: reopen_def Let_def)
    then show ?thesis using replay_lock_holds [OF assms(1) l] o o(3) [OF f(1)] f(2) by (auto simp: keeps_locks_def)
  next
    case False
    then have "n' = n1 \<and> hs_lock h' = hs_lock h \<and> (hs_lock h \<noteq> None \<longrightarrow> hs_poisoned h')"
      using assms(2) r by (auto simp: reopen_def Let_def split: sum.splits Response.splits option.splits if_splits)
    then show ?thesis using o by (auto simp: keeps_locks_def)
  qed
qed

lemma reopen_all_locks:
  assumes "lock_server env held fhs"
  shows "reopen_all env hs n = (hs', n') \<Longrightarrow> keeps_locks held fhs n n' \<and>
     (\<forall>fh h k. hm_get hs fh = Some h \<longrightarrow> hs_lock h = Some k \<longrightarrow>
        (\<exists>h'. hm_get hs' fh = Some h' \<and> (hs_poisoned h' \<or> (hs_server_fh h', k) \<in> held n' \<and> hs_server_fh h' \<in> fhs n')))"
proof (induction hs arbitrary: n hs')
  case (Cons p hs)
  obtain fh h where p: "p = (fh, h)" by (cases p)
  obtain h1 n1 where o: "reopen env h n = (h1, n1)" by (metis surj_pair)
  obtain hs1 n2 where r: "reopen_all env hs n1 = (hs1, n2)" by (metis surj_pair)
  have e: "hs' = (fh, h1) # hs1" "n' = n2" using Cons.prems p o r by simp_all
  have k: "keeps_locks held fhs n1 n'" using Cons.IH [OF r [folded e(2)]] by blast
  have 1: "keeps_locks held fhs n n'" using keeps_locks_trans [OF _ k] reopen_lock [OF assms o] by blast
  have 2: "\<forall>k. hs_lock h = Some k \<longrightarrow> hs_poisoned h1 \<or> (hs_server_fh h1, k) \<in> held n' \<and> hs_server_fh h1 \<in> fhs n'"
    using reopen_lock [OF assms o] k unfolding keeps_locks_def by blast
  show ?case using 1 2 Cons.IH [OF r [folded e(2)]] by (auto simp: e(1) p)
qed (auto simp: keeps_locks_def)

lemma poisoned_refused:
  assumes "hm_get (rf_open_files st) fh = Some h" "hs_poisoned h" "\<not> has_overlay_bit fh"
  shows "rf_read env fh off sz st = Some (Inl (FeRemote IoError), st)" "rf_write env fh off data st = Some (Inl (FeRemote IoError), st)"
    "rf_lock env fh kind wait st = Some (Inl (FeRemote IoError), st)" "rf_flush env fh st = Some (Inl (FeRemote IoError), st)"
  using assms by (simp_all add: rf_read_def rf_write_def rf_lock_def rf_flush_def bindX_def check_poisoned_run)


text \<open>A session that grants shared locks and refuses exclusive ones.\<close>

fun shared_only :: "Request \<Rightarrow> u64 \<times> (u64 \<times> LockKind) list \<Rightarrow> (TransportError + Reply) \<times> u64 \<times> (u64 \<times> LockKind) list" where
  "shared_only (ReqAttach x) n = (Inr (Inr (RspAttachOk 4 (demo_attr 0))), n)"
| "shared_only (ReqOpen p fl) (nx, ls) =
    (if nx + 1 = 0 then (Inl TeClosed, nx, ls) else (Inr (Inr (RspOpened nx (demo_attr 0))), nx + 1, ls))"
| "shared_only (ReqLock fh k w) (nx, ls) = (if k = Shared then (Inr (Inr RspOk), nx, (fh, k) # ls) else (Inr (Inl WouldBlock), nx, ls))"
| "shared_only _ n = (Inr (Inr RspOk), n)"

definition shared_env :: "(Mem, abs_path, u64 \<times> (u64 \<times> LockKind) list) cenv" where
  "shared_env = \<lparr> cl_os = mem_cos, cl_globs = no_globs, cl_request = shared_only, cl_keepalive = shared_only, cl_swapped = (\<lambda>_. False),
    cl_proto = (\<lambda>_. 4), cl_iter = id, cl_upper = id, cl_from_json = (\<lambda>_. None), cl_to_json = (\<lambda>_. None) \<rparr>"

lemma next_above: "nx + 1 \<noteq> 0 \<Longrightarrow> {..<nx} \<subseteq> {..<nx + 1} \<and> nx \<in> {..<nx + 1}" for nx :: u64
  using less_Suc_clock [of nx nx] by (auto dest: less_trans)

lemma shared_lock_server: "lock_server shared_env (\<lambda>(nx, ls). set ls) (\<lambda>(nx, ls). {..<nx})"
  unfolding lock_server_def shared_env_def using next_above by (auto split: if_splits)

definition locked_handle :: "u64 \<Rightarrow> LockKind \<Rightarrow> OpenState" where
  "locked_handle fh k = (new_handle ''f'' rw fh False False 1)\<lparr>hs_lock := Some k\<rparr>"


section \<open>A client over the agent\<close>

definition agent_request :: "Request \<Rightarrow> (Mem, abs_path) Ctx \<Rightarrow> (TransportError + Reply) \<times> (Mem, abs_path) Ctx" where
  "agent_request req c =
    (case handle mem_os no_globs 0 req c of Some (Done r, c') \<Rightarrow> (Inr r, c') | _ \<Rightarrow> (Inl TeClosed, c))"

definition pair_env :: "(Mem, abs_path, (Mem, abs_path) Ctx) cenv" where
  "pair_env = \<lparr> cl_os = mem_cos, cl_globs = no_globs, cl_request = agent_request, cl_keepalive = agent_request,
    cl_swapped = (\<lambda>_. False), cl_proto = (\<lambda>_. 4), cl_iter = id, cl_upper = id, cl_from_json = (\<lambda>_. None), cl_to_json = (\<lambda>_. None) \<rparr>"

definition served :: "bytes \<Rightarrow> bytes \<Rightarrow> (Mem, abs_path) Ctx" where
  "served a b = ctx_of (agent_start \<lparr> mem_files = [([''srv'', ''a''], a), ([''srv'', ''b''], b)], mem_dirs = [[''srv'']], mem_links = [] \<rparr>
     [(''x'', demo_export ''x'' False)]) (session_with_token 0 1 None)"

text \<open>The agent sees the old connection end and accepts a new one.\<close>

definition redial :: "u64 \<Rightarrow> (Mem, abs_path) Ctx \<Rightarrow> (Mem, abs_path) Ctx" where
  "redial sid c = (disconnected c)\<lparr>cx_me := session_with_token 0 sid None\<rparr>"

abbreviation reconnected :: "u64 \<Rightarrow> (Mem, abs_path, (Mem, abs_path) Ctx, unit) fs_op" where
  "reconnected sid \<equiv> modX (\<lambda>st. reconnect_turn pair_env (redial sid (rf_net st)) st)"

definition mount :: "bytes \<Rightarrow> bytes \<Rightarrow> FsError + (Mem, abs_path, (Mem, abs_path) Ctx) RemoteFs" where
  "mount a b = attach_with pair_env ''x'' (options_default\<lparr>co_dialer := True\<rparr>) 0 (served a b) no_disk"

text \<open>A write of at most one chunk is one request.\<close>

definition short_write :: "('s, 'f, 'n) cenv \<Rightarrow> u64 \<Rightarrow> u64 \<Rightarrow> bytes \<Rightarrow> ('s, 'f, 'n) RemoteFs \<Rightarrow> ('s, 'f, 'n) RemoteFs option" where
  "short_write env fh off data st =
    (case cl_request env (ReqWrite (server_fh fh st) off data (expected_version fh st)) (rf_net st) of
       (Inr (Inr (RspWritten k v c)), n) \<Rightarrow>
         if k = of_nat (length data) then Some (note_written env fh (on_handle fh (\<lambda>h. h\<lparr>hs_version := v\<rparr>) (st\<lparr>rf_net := n\<rparr>))) else None
     | _ \<Rightarrow> None)"

lemma rf_write_short:
  assumes "short_write env fh off data st = Some st'" "data \<noteq> []" "length data \<le> 1000" "\<not> has_overlay_bit fh"
    "check_poisoned fh st = Some (Inr (), st)"
  shows "rf_write env fh off data st = Some (Inr (of_nat (length data)), st')"
proof -
  obtain v c n where r: "cl_request env (ReqWrite (server_fh fh st) off data (expected_version fh st)) (rf_net st) = (Inr (Inr (RspWritten (of_nat (length data)) v c)), n)"
      "st' = note_written env fh (on_handle fh (\<lambda>h. h\<lparr>hs_version := v\<rparr>) (st\<lparr>rf_net := n\<rparr>))"
    using assms(1) by (auto simp: short_write_def split: prod.splits sum.splits Response.splits if_splits)
  have k: "unat (of_nat (length data) :: u32) = length data" using assms(3) by (simp add: unat_of_nat)
  then have "of_nat (length data) \<noteq> (0 :: u32)" using assms(2) by (metis length_0_conv unat_eq_zero)
  then have "write_chunks_rf env fh (server_fh fh st) off data (expected_version fh st) 0 st
      = Some (Inr (), on_handle fh (\<lambda>h. h\<lparr>hs_version := v\<rparr>) (st\<lparr>rf_net := n\<rparr>))"
    using assms(2, 3) r(1) k by (subst write_chunks_rf.simps) (simp add: write_call flat_def write_chunks_rf.simps [where pos = "length data"])
  then show ?thesis
    using assms(4, 5) r(2) by (simp add: rf_write_def bindX_def check_poisoned_run getX_def modX_def retX_def)
qed

section \<open>Handles across a reconnect\<close>

text \<open>Open \<open>a\<close> and \<open>b\<close>, close \<open>a\<close>, lose the connection, open \<open>a\<close> again.\<close>

definition reopened_run :: "(Mem, abs_path, (Mem, abs_path) Ctx, u64 \<times> u64) fs_op" where
  "reopened_run =
    bindX (lookup pair_env 1 ''a'') (\<lambda>(ia, _).
    bindX (lookup pair_env 1 ''b'') (\<lambda>(ib, _).
    bindX (rf_open pair_env ia rw) (\<lambda>(fa, _).
    bindX (rf_open pair_env ib rw) (\<lambda>(fb, _).
    bindX (rf_release pair_env fa) (\<lambda>_.
    bindX (reconnected 2) (\<lambda>_.
    bindX (rf_open pair_env ia rw) (\<lambda>(fa', _). retX (fb, fa'))))))))"


abbreviation server_file :: "string \<Rightarrow> (Mem, abs_path, (Mem, abs_path) Ctx) RemoteFs \<Rightarrow> bytes option" where
  "server_file name st \<equiv> hm_get (mem_files (cx_fs (rf_net st))) [''srv'', name]"

lemma handles_mixed_run:
  "(case mount [1] [2] of
      Inl e \<Rightarrow> None
    | Inr st \<Rightarrow>
        (case reopened_run st of
           Some (Inr fhs, st1) \<Rightarrow>
             map_option (\<lambda>st2. (fhs, check_poisoned 2 st1 = Some (Inr (), st1), server_file ''a'' st2, server_file ''b'' st2))
               (short_write pair_env 2 0 [9] st1)
         | _ \<Rightarrow> None))
   = Some ((2, 2), True, Some [9], Some [2])"
  by code_simp



definition truncating :: OpenFlags where
  "truncating = rw\<lparr>of_truncate := True\<rparr>"

definition truncating_open :: "(Mem, abs_path, (Mem, abs_path) Ctx, u64 \<times> Attr) fs_op" where
  "truncating_open = bindX (lookup pair_env 1 ''a'') (\<lambda>(ia, _). rf_open pair_env ia truncating)"

lemma truncated_run:
  "(case mount [1] [2] of
      Inl e \<Rightarrow> None
    | Inr st \<Rightarrow>
        (case truncating_open st of
           Some (Inr (fh, attr), st1) \<Rightarrow>
             map_option (\<lambda>st2. (fh, check_poisoned 1 st1 = Some (Inr (), st1), server_file ''a'' st2,
                 server_file ''a'' (reconnect_turn pair_env (redial 2 (rf_net st2)) st2)))
               (short_write pair_env 1 0 [9] st1)
         | _ \<Rightarrow> None))
   = Some (1, True, Some [9], Some [])"
  by code_simp


end
