(* ===== verification/Spec2Isabelle.thy ===== *)
theory Spec2Isabelle
  imports Wire Common Exclude Coalesce Locks Agent_Props Agent_Forward Sync_Props Client_System
begin

text \<open>
  Verification of alloyfs, a remote file system written in Rust (\<^verbatim>\<open>src/crates/\<close>).

  \<^bold>\<open>The program.\<close>  An agent exports directories of its machine; clients mount an export or keep a local tree in sync
  with it.  The two ends exchange frames over a byte stream: requests with an id, their responses, pushed event
  batches and pings.  The agent has one session per connection, and all sessions share the exports with their
  version counters, lock tables and event rings.  The client multiplexes calls over one connection; its sync engine
  compares a local tree, the server's tree and a baseline and carries out the difference.  A mount serves file-system
  calls from the connection, an attribute cache, read-ahead windows, a cache of whole files and a local overlay.

  \<^bold>\<open>Theories and sources.\<close>

  \<^item> \<open>Alloy_Prelude\<close>: words, results, association lists for hash maps, the string routines of the standard library.
  \<^item> \<open>Proto\<close>: \<^verbatim>\<open>alloyfs-proto/src/{messages,error}.rs\<close>.  Messages and relative paths; locale \<open>path_space\<close>.
  \<^item> \<open>Wire\<close>: \<^verbatim>\<open>alloyfs-proto/src/frame.rs\<close>.  The frame codec; postcard and lz4 are the parameter \<open>codec_lib\<close>.
  \<^item> \<open>Common\<close>: \<^verbatim>\<open>alloyfs-common/src/{lib,fs}.rs\<close>.  Sizes, tokens, error mapping, attributes, positional I/O loops.
  \<^item> \<open>Exclude\<close>: \<^verbatim>\<open>alloyfs-common/src/exclude.rs\<close>.  The glob engine is the parameter \<open>glob_lib\<close>.
  \<^item> \<open>Coalesce\<close>: \<^verbatim>\<open>alloyfs-common/src/coalesce.rs\<close>.  The event coalescer and its per-path specification.
  \<^item> \<open>Locks\<close>: \<^verbatim>\<open>alloyfs-agent/src/locks.rs\<close>.  Lock table, waiters and wake-ups; locale \<open>lock_table\<close>.
  \<^item> \<open>Watch\<close>: \<^verbatim>\<open>alloyfs-agent/src/watch.rs\<close>.  The event hub with its bounded ring.
  \<^item> \<open>Agent_Export\<close>, \<open>Agent_Session\<close>, \<open>Agent_Moves\<close>, \<open>Agent_System\<close>, \<open>Agent_Props\<close>, \<open>Agent_Forward\<close>:
    \<^verbatim>\<open>alloyfs-agent/src/{fsutil,ops,config,watch}.rs\<close>.  Path resolution, every request handler (\<open>handle\<close>), the steps a
    handler may take (\<open>move\<close>, locale \<open>ctx_frame\<close>), all sessions interleaved (\<open>agent_act\<close>), the forwarding task.  The
    operating system is the parameter \<open>os\<close>; \<open>mem_os\<close> is a concrete one.
  \<^item> \<open>Transport\<close>: \<^verbatim>\<open>alloyfs-transport/src/{mux,server}.rs\<close>, \<^verbatim>\<open>alloyfs-client/src/error.rs\<close>.  Handshake, the client's
    request table with a program counter per call, the server's frame loop, and their interleavings (\<open>link_run\<close>).
  \<^item> \<open>Sync_Plan\<close>, \<open>Sync_Engine\<close>, \<open>Sync_Laws\<close>, \<open>Sync_Props\<close>: \<^verbatim>\<open>alloyfs-client/src/sync/*.rs\<close>.  Manifest, decision
    table, engine operations over the parameter \<open>env\<close> (local file system and server); locales \<open>sync_base\<close> and
    \<open>sync_frame\<close>; \<open>mem_env\<close> is a concrete environment.
  \<^item> \<open>Client_Inode\<close>: \<^verbatim>\<open>alloyfs-client/src/inode.rs\<close>.  Inode numbers of the mount; locale \<open>inode_space\<close>.
  \<^item> \<open>Client_Cache\<close>: \<^verbatim>\<open>alloyfs-client/src/{readahead,autocache}.rs\<close>.  The read-ahead window of a handle and the
    auto-download cache; locale \<open>byte_account\<close>, interpreted for two readings of the cache's total.
  \<^item> \<open>Client_Overlay\<close>: \<^verbatim>\<open>alloyfs-client/src/{overlay,symlink}.rs\<close>.  Excluded paths as local files, symlink targets.
  \<^item> \<open>Client_Fs\<close>, \<open>Client_Read\<close>, \<open>Client_System\<close>: \<^verbatim>\<open>alloyfs-client/src/{remote_fs,options,events,walker}.rs\<close>.  The mounted file system
    (\<open>RemoteFs\<close>) with every operation, its reconnect, its event pump and its cache walker, over the parameter \<open>cenv\<close>
    (local disk, connection, glob engine, JSON).

  \<^bold>\<open>Conventions.\<close>  A struct is a record and an enum a datatype with the source's constructors (a prefix where a name
  clashes).  Stateful code passes its state; a mutex-protected section is one step.  Fallible code returns
  \<^typ>\<open>'e + 'a\<close>, the error on the left.  Clocks are arguments or fields that the environment advances.  Code that is not
  in the repository is a record of functions, its documented behaviour a named predicate, and every such predicate is
  shown to hold of a concrete instance where a property relies on it.

  \<^bold>\<open>What is shown.\<close>  Wire: any cut of a stream decodes to the frames sent.  Coalescer: a batch is the net effect of its
  window, excluded paths never leave it.  Locks: mutual exclusion and no lost wake-up over every interleaving.  Event
  hub and forwarder: a subscriber hears every foreign event after its sequence number, or is told to resync.  Agent:
  requests stay inside the export, read-only exports never change, the authentication gate, conditional writes,
  isolation of handles and locks between sessions, release of everything at disconnect.  Transport: a call gets only
  the answer to its own request, under every race of calls with connection loss.  Sync: the decision table converges
  and keeps edits, a pull mirrors the server, conflicts keep the local content, the pending counter is exact.
  Theorems that end in a defect (an oversize frame, an upgrade that drops the lock it held, an echo that conflicts with
  its own write, a ping that never returns) state what the code does at a concrete or general input.

  \<^bold>\<open>Bounds and termination.\<close>  The loops that retry system calls and the page loop of the remote walk are
  \<^theory_text>\<open>partial_function (option)\<close>; the properties show that they return under the documented behaviour of the calls.
  \<open>executor\<close> takes the number of turns as its argument.  No other definition uses fuel.

  \<^bold>\<open>Not modelled.\<close>  Windows branches (\<^verbatim>\<open>cfg(windows)\<close>) and the WinFsp backend: their callbacks are FFI.  The kernel
  module in C and the installers.  Command-line parsing, terminal output and process control of the CLI: library calls
  without state of their own.  Byte-stream set-up (\<^verbatim>\<open>tcp.rs\<close>, \<^verbatim>\<open>stdio.rs\<close>): it only hands sockets and pipes to the codec.
  Log messages.  Scheduling fairness and real time.
\<close>

end
